(* ===== verification/Prelude.thy ===== *)
theory Prelude
  imports Main "HOL-Library.Word" "HOL-Library.Char_ord" "HOL-Library.List_Lexorder"
    "HOL-Library.Sublist"
begin

text \<open>
  What every component of the model shares: the machine integers, the faults an operation of
  the program can end in, the sequencing of operations that may fault, C++ strings as lists
  of bytes, and the generic lemmas on lists and options the component theories rely on.

  \<^item> \<^verbatim>\<open>std::string\<close> and \<^verbatim>\<open>char *\<close> regions are lists of \<open>char\<close> (a HOL \<open>char\<close> is one byte).
    Their order is the one of \<^verbatim>\<open>std::string::operator<\<close> (bytes compared as unsigned values,
    a proper prefix is smaller), which \<open>Char_ord\<close> and \<open>List_Lexorder\<close> provide.
  \<^item> \<^verbatim>\<open>uint8_t\<close>, \<^verbatim>\<open>uint16_t\<close>, \<^verbatim>\<open>int\<close>, \<^verbatim>\<open>unsigned int\<close>, \<^verbatim>\<open>uint64_t\<close> and \<^verbatim>\<open>size_t\<close> are words of
    8, 16, 32, 32, 64 and 64 bits.
  \<^item> An operation that can fault returns \<open>fault + 'a\<close>; \<open>Inl\<close> is the fault.
\<close>

type_synonym u8 = "8 word"
type_synonym u16 = "16 word"
type_synonym u32 = "32 word"
type_synonym u64 = "64 word"
type_synonym size_t = "64 word"
type_synonym c_int = "32 word"

text \<open>
  The ways an operation ends without a result: a read or write outside an allocated region
  (undefined behaviour in C++), the dereference of an iterator that denotes no element, and
  the exceptions of the standard library and of the 0MQ binding that the code can raise and does
  not catch, a failed \<^verbatim>\<open>assert\<close>, and the dereference of a null pointer.
\<close>

datatype fault =
    OutOfBounds
  | BadIterator
  | Exn_out_of_range
  | Exn_invalid_argument
  | Exn_bad_function_call
  | Exn_zmq
  | AssertFailed
  | NullPointer

type_synonym 'a res = "fault + 'a"

fun rbind :: "'a res \<Rightarrow> ('a \<Rightarrow> 'b res) \<Rightarrow> 'b res" where
  "rbind (Inl e) f = Inl e"
| "rbind (Inr a) f = f a"

lemma rbind_assoc [simp]: "rbind (rbind m f) g = rbind m (\<lambda>a. rbind (f a) g)"
  by (cases m) simp_all

lemma rbind_Inr_right [simp]: "rbind m Inr = m"
  by (cases m) simp_all

lemma rbind_eq_Inr_iff: "rbind m f = Inr b \<longleftrightarrow> (\<exists>a. m = Inr a \<and> f a = Inr b)"
  by (cases m) simp_all

lemma rbind_eq_Inl_iff: "rbind m f = Inl e \<longleftrightarrow> m = Inl e \<or> (\<exists>a. m = Inr a \<and> f a = Inl e)"
  by (cases m) simp_all

lemma rbind_cong [fundef_cong]:
  "m = m' \<Longrightarrow> (\<And>a. m' = Inr a \<Longrightarrow> f a = f' a) \<Longrightarrow> rbind m f = rbind m' f'"
  by (cases m') simp_all

text \<open>A loop that may fault and collects what each round gives.\<close>

fun rconcat :: "('a \<Rightarrow> 'b list res) \<Rightarrow> 'a list \<Rightarrow> 'b list res" where
  "rconcat f [] = Inr []"
| "rconcat f (x # xs) = rbind (f x) (\<lambda>e. rbind (rconcat f xs) (\<lambda>e'. Inr (e @ e')))"

lemma rconcat_Inr: "(\<And>x. x \<in> set xs \<Longrightarrow> f x = Inr (g x)) \<Longrightarrow> rconcat f xs = Inr (concat (map g xs))"
  by (induction xs) simp_all

lemma rconcat_cong [fundef_cong]:
  "xs = ys \<Longrightarrow> (\<And>x. x \<in> set ys \<Longrightarrow> f x = g x) \<Longrightarrow> rconcat f xs = rconcat g ys"
  by (induction xs arbitrary: ys) auto

lemma rconcat_append:
  "rconcat f (xs @ ys) = rbind (rconcat f xs) (\<lambda>e. rbind (rconcat f ys) (\<lambda>e'. Inr (e @ e')))"
  by (induction xs) simp_all

text \<open>
  The collections the component proofs share: \<open>wf_intros\<close> holds the facts that an operation
  keeps the well-formedness of what it works on, \<open>codec_simps\<close> the equations that decode
  what was encoded.
\<close>

named_theorems wf_intros \<open>operations preserve well-formedness\<close>
named_theorems codec_simps \<open>decoding of encoded data\<close>

text \<open>The bytes of an unsigned value, least significant first (the byte order of the host).\<close>

fun le_bytes :: "nat \<Rightarrow> nat \<Rightarrow> string" where
  "le_bytes 0 v = []"
| "le_bytes (Suc n) v = char_of (v mod 256) # le_bytes n (v div 256)"

fun le_value :: "string \<Rightarrow> nat" where
  "le_value [] = 0"
| "le_value (c # cs) = of_char c + 256 * le_value cs"

lemma length_le_bytes [simp]: "length (le_bytes n v) = n"
  by (induction n arbitrary: v) simp_all

lemma le_value_le_bytes: "le_value (le_bytes n v) = v mod 256 ^ n"
proof (induction n arbitrary: v)
  case 0
  then show ?case by simp
next
  case (Suc n)
  have "v mod 256 + 256 * (v div 256 mod 256 ^ n) = v mod (256 * 256 ^ n)"
    by (simp add: mod_mult2_eq)
  then show ?case by (simp add: Suc)
qed

lemma le_value_bound: "le_value cs < 256 ^ length cs"
proof (induction cs)
  case Nil
  then show ?case by simp
next
  case (Cons c cs)
  have "Suc (le_value cs) \<le> 256 ^ length cs" using Cons by simp
  then have step: "256 * Suc (le_value cs) \<le> 256 * 256 ^ length cs" by (rule mult_le_mono2)
  have "le_value (c # cs) < 256 * Suc (le_value cs)" by simp
  also note step
  finally show ?case by simp
qed

lemma le_bytes_le_value: "le_bytes (length cs) (le_value cs) = cs"
proof (induction cs)
  case Nil
  then show ?case by simp
next
  case (Cons c cs)
  have "of_char c < (256::nat)" by simp
  then have "(of_char c + 256 * le_value cs) div 256 = le_value cs"
    and "(of_char c + 256 * le_value cs) mod 256 = (of_char c :: nat)"
    by simp_all
  with Cons show ?case by simp
qed

lemma le_bytes_unat_word:
  assumes "256 ^ n = (2::nat) ^ LENGTH('a::len)"
  shows "of_nat (le_value (le_bytes n (unat w))) = (w :: 'a word)"
proof -
  have "unat w < 2 ^ LENGTH('a)" by (rule unsigned_less)
  then show ?thesis by (simp add: le_value_le_bytes assms)
qed

lemma le_bytes_unat_8 [codec_simps]: "of_nat (le_value (le_bytes 1 (unat w))) = (w :: u8)"
  by (rule le_bytes_unat_word) simp

lemma le_bytes_unat_16 [codec_simps]: "of_nat (le_value (le_bytes 2 (unat w))) = (w :: u16)"
  by (rule le_bytes_unat_word) simp

lemma le_bytes_unat_64 [codec_simps]: "of_nat (le_value (le_bytes 8 (unat w))) = (w :: u64)"
  by (rule le_bytes_unat_word) simp

text \<open>The decimal notation of an unsigned integer, as \<^verbatim>\<open>operator<<\<close> and \<^verbatim>\<open>std::to_string\<close> write it.\<close>

definition digit :: "nat \<Rightarrow> char" where
  "digit d = char_of (48 + d)"

fun show_nat :: "nat \<Rightarrow> string" where
  "show_nat n = (if n < 10 then [digit n] else show_nat (n div 10) @ [digit (n mod 10)])"

declare show_nat.simps [simp del]

text \<open>Lists.\<close>

lemma find_None_not_ex: "List.find P xs = None \<longleftrightarrow> (\<nexists>x. x \<in> set xs \<and> P x)"
  by (rule find_None_iff)

lemma find_Some_ex: "(\<exists>x. List.find P xs = Some x) \<longleftrightarrow> (\<exists>x \<in> set xs. P x)"
  using find_None_iff [of P xs] by (cases "List.find P xs") auto

lemma find_SomeD: "List.find P xs = Some x \<Longrightarrow> x \<in> set xs \<and> P x"
  by (auto simp: find_Some_iff in_set_conv_nth)

lemma length_filter_less_iff: "length (filter P xs) < length xs \<longleftrightarrow> (\<exists>x \<in> set xs. \<not> P x)"
  by (induction xs) (auto simp: less_Suc_eq_le)

lemma split_at_sep:
  assumes "c \<notin> set a" and "c \<notin> set b"
  shows "a @ c # x = b @ c # y \<longleftrightarrow> a = b \<and> x = y"
  using assms
proof (induction a arbitrary: b)
  case Nil
  then show ?case by (cases b) auto
next
  case (Cons z a)
  then show ?case by (cases b) auto
qed

lemma filter_cong_id: "(\<And>x. x \<in> set xs \<Longrightarrow> P x) \<Longrightarrow> filter P xs = xs"
  by (simp add: filter_id_conv)

lemma concat_map_if: "concat (map (\<lambda>x. if P x then [] else [f x]) xs) = map f (filter (\<lambda>x. \<not> P x) xs)"
  by (induction xs) simp_all

end
