(* ===== verification/Uuid.thy ===== *)
theory Uuid
  imports Prelude
begin

text \<open>
  \<^verbatim>\<open>src/Uuid.cc\<close>: the textual form of the identifiers of processes, nodes and handlers.  The 16
  bytes come from \<^verbatim>\<open>uuid_generate\<close>, which is outside the program: an identifier is an argument
  wherever the code generates one.
\<close>

definition UuidStrLen :: nat where "UuidStrLen = 37"

text \<open>\<^verbatim>\<open>%02x\<close> of a byte.\<close>

definition hex_digit :: "nat \<Rightarrow> char" where
  "hex_digit n = ''0123456789abcdef'' ! n"

definition hex_byte :: "u8 \<Rightarrow> string" where
  "hex_byte b = [hex_digit (unat b div 16), hex_digit (unat b mod 16)]"

text \<open>\<^verbatim>\<open>snprintf\<close> writes at most \<^verbatim>\<open>UuidStrLen - 1\<close> characters and a zero, which is not copied.\<close>

definition Uuid_ToString :: "u8 list \<Rightarrow> string" where
  "Uuid_ToString d =
     take (UuidStrLen - 1)
      (hex_byte (d ! 0) @ hex_byte (d ! 1) @ hex_byte (d ! 2) @ hex_byte (d ! 3) @ ''-'' @
       hex_byte (d ! 4) @ hex_byte (d ! 5) @ ''-'' @ hex_byte (d ! 6) @ hex_byte (d ! 7) @ ''-'' @
       hex_byte (d ! 8) @ hex_byte (d ! 9) @ ''-'' @ hex_byte (d ! 10) @ hex_byte (d ! 11) @
       hex_byte (d ! 12) @ hex_byte (d ! 13) @ hex_byte (d ! 14) @ hex_byte (d ! 15))"

lemma hex_digits_distinct: "distinct ''0123456789abcdef''"
  by simp

lemma hex_digit_inject: "m < 16 \<Longrightarrow> n < 16 \<Longrightarrow> hex_digit m = hex_digit n \<longleftrightarrow> m = n"
  using nth_eq_iff_index_eq [OF hex_digits_distinct] by (simp add: hex_digit_def)

lemma hex_byte_inject [simp]: "hex_byte a = hex_byte b \<longleftrightarrow> a = b"
proof
  assume eq: "hex_byte a = hex_byte b"
  have bound: "unat x div 16 < 16" "unat x mod 16 < 16" for x :: u8
    using unsigned_less [of x, where 'a = nat] by auto
  have "unat a div 16 = unat b div 16" "unat a mod 16 = unat b mod 16"
    using eq bound by (simp_all add: hex_byte_def hex_digit_inject)
  then have "unat a = unat b" by (metis div_mult_mod_eq)
  then show "a = b" by (simp add: word_unat_eq_iff)
qed simp

lemma length_hex_byte [simp]: "length (hex_byte b) = 2"
  by (simp add: hex_byte_def)

lemma Uuid_ToString_untruncated:
  "Uuid_ToString d =
      (hex_byte (d ! 0) @ hex_byte (d ! 1) @ hex_byte (d ! 2) @ hex_byte (d ! 3) @ ''-'' @
       hex_byte (d ! 4) @ hex_byte (d ! 5) @ ''-'' @ hex_byte (d ! 6) @ hex_byte (d ! 7) @ ''-'' @
       hex_byte (d ! 8) @ hex_byte (d ! 9) @ ''-'' @ hex_byte (d ! 10) @ hex_byte (d ! 11) @
       hex_byte (d ! 12) @ hex_byte (d ! 13) @ hex_byte (d ! 14) @ hex_byte (d ! 15))"
  unfolding Uuid_ToString_def by (rule take_all) (simp add: UuidStrLen_def)

text \<open>The textual form of an identifier is 36 characters long and determines the
  identifier: two different UUIDs are never printed alike.\<close>
theorem Uuid_ToString_injective:
  assumes "length d = 16" and "length d' = 16"
  shows "length (Uuid_ToString d) = 36 \<and> (Uuid_ToString d = Uuid_ToString d' \<longleftrightarrow> d = d')"
proof -
  have all: "(\<forall>i < 16. P i) \<longleftrightarrow> P 0 \<and> P 1 \<and> P 2 \<and> P 3 \<and> P 4 \<and> P 5 \<and> P 6 \<and> P 7 \<and> P 8 \<and> P 9 \<and>
      P 10 \<and> P 11 \<and> P 12 \<and> P 13 \<and> P 14 \<and> P 15" for P :: "nat \<Rightarrow> bool"
    by (simp add: numeral_eq_Suc All_less_Suc) blast
  have "d = d' \<longleftrightarrow> (\<forall>i < 16. d ! i = d' ! i)" using assms by (auto simp: list_eq_iff_nth_eq)
  then show ?thesis
    unfolding Uuid_ToString_untruncated all by simp
qed

lemma Uuid_ToString_injective_witness:
  "Uuid_ToString (replicate 16 0) \<noteq> Uuid_ToString (replicate 15 0 @ [1])"
  using Uuid_ToString_injective [of "replicate 16 0" "replicate 15 0 @ [1]"]
  by (simp add: numeral_eq_Suc)

end
