(* ===== verification/NetUtils.thy ===== *)
theory NetUtils
  imports Prelude
begin

text \<open>
  \<^verbatim>\<open>src/NetUtils.cc\<close>: the choice of the address that this host announces.  What the system calls
  return is an argument: the environment variable, the host name, the addresses the name resolves to,
  and the list of interfaces or of adapters.  The last resort depends on the platform the program
  is compiled for: systems with \<^verbatim>\<open>getifaddrs\<close>, Windows, and others.
\<close>

text \<open>\<^verbatim>\<open>!strncmp(s, t, n)\<close> for a literal of length \<open>n\<close>.\<close>

definition has_prefix :: "string \<Rightarrow> string \<Rightarrow> bool" where
  "has_prefix s t \<longleftrightarrow> take (length s) t = s"

definition isPrivateIP :: "string \<Rightarrow> bool" where
  "isPrivateIP ip \<longleftrightarrow> has_prefix ''192.168'' ip \<or> has_prefix ''10.'' ip \<or> has_prefix ''169.254'' ip"

text \<open>\<open>lookup\<close> is the address list of \<^verbatim>\<open>gethostbyname\<close>, \<open>None\<close> when it fails; the result is the
  address stored when 0 is returned.\<close>

definition hostnameToIp :: "(string \<Rightarrow> string list option) \<Rightarrow> string \<Rightarrow> string option" where
  "hostnameToIp gethostbyname hostname =
     (case gethostbyname hostname of
        None \<Rightarrow> None
      | Some addr_list \<Rightarrow> (case addr_list of [] \<Rightarrow> None | ip # _ \<Rightarrow> Some ip))"

text \<open>An interface without an address, or with one of a family and the outcome of
  \<^verbatim>\<open>getnameinfo\<close> for it.\<close>

datatype family = Inet | Inet6 | OtherFamily

type_synonym interface = "(family \<times> string option) option"

fun interface_loop :: "interface list \<Rightarrow> string \<Rightarrow> string" where
  "interface_loop [] preferred_ip = preferred_ip"
| "interface_loop (ifa # rest) preferred_ip =
     (case ifa of
        None \<Rightarrow> interface_loop rest preferred_ip
      | Some (fam, nameinfo) \<Rightarrow>
          if fam = OtherFamily then interface_loop rest preferred_ip
          else
            case nameinfo of
              None \<Rightarrow> interface_loop rest preferred_ip
            | Some ip \<Rightarrow>
                if ip = ''127.0.0.1'' \<or> CHR '':'' \<in> set ip then interface_loop rest preferred_ip
                else if fam = Inet6 \<and> preferred_ip = '''' then interface_loop rest ip
                else if isPrivateIP ip \<and> preferred_ip = '''' then interface_loop rest ip
                else if \<not> isPrivateIP ip \<and> (isPrivateIP preferred_ip \<or> preferred_ip = '''')
                  then interface_loop rest ip
                else interface_loop rest preferred_ip)"

definition ifaddrs_search :: "interface list \<Rightarrow> string res" where
  "ifaddrs_search ifs =
     (let preferred_ip = interface_loop ifs ''''
      in if preferred_ip = '''' then Inr ''127.0.0.1'' else Inr preferred_ip)"

text \<open>On Windows: the four bytes of each unicast address of each adapter are printed into a
  buffer of 16 characters; \<open>None\<close> is a failure of \<^verbatim>\<open>GetAdaptersAddresses\<close>.\<close>

fun dotted_quad :: "u8 \<times> u8 \<times> u8 \<times> u8 \<Rightarrow> string" where
  "dotted_quad (b1, b2, b3, b4) =
     show_nat (unat b1) @ ''.'' @ show_nat (unat b2) @ ''.'' @ show_nat (unat b3) @ ''.'' @ show_nat (unat b4)"

fun unicast_loop :: "(u8 \<times> u8 \<times> u8 \<times> u8) list \<Rightarrow> string \<Rightarrow> string res" where
  "unicast_loop [] ret_addr = Inr ret_addr"
| "unicast_loop (unicast # rest) ret_addr =
     (let ipv4_str = dotted_quad unicast
      in if length ipv4_str + 1 > 3*4+3+1 then Inl OutOfBounds
         else if ipv4_str = ''127.0.0.1'' then unicast_loop rest ret_addr
         else unicast_loop rest ipv4_str)"

fun adapter_loop :: "(u8 \<times> u8 \<times> u8 \<times> u8) list list \<Rightarrow> string \<Rightarrow> string res" where
  "adapter_loop [] ret_addr = Inr ret_addr"
| "adapter_loop (adapter # rest) ret_addr = rbind (unicast_loop adapter ret_addr) (adapter_loop rest)"

definition adapters_search :: "(u8 \<times> u8 \<times> u8 \<times> u8) list list option \<Rightarrow> string res" where
  "adapters_search addrs =
     (let ret_addr = ''127.0.0.1''
      in case addrs of Some l \<Rightarrow> adapter_loop l ret_addr | None \<Rightarrow> Inr ret_addr)"

text \<open>Elsewhere there is no search.\<close>

definition no_search :: "string res" where
  "no_search = Inr ''127.0.0.1''"

text \<open>The host name sits in a buffer of 1024 characters to which \<^verbatim>\<open>.local\<close> is appended.  \<open>search\<close>
  is the branch that the platform has.\<close>

definition determineHost ::
    "string res \<Rightarrow> string option \<Rightarrow> string option \<Rightarrow> (string \<Rightarrow> string list option) \<Rightarrow> string res" where
  "determineHost search ip_env gethostname gethostbyname =
     (if ip_env \<noteq> None \<and> ip_env \<noteq> Some '''' then Inr (the ip_env)
      else
        case gethostname of
          None \<Rightarrow> search
        | Some host \<Rightarrow>
            if host \<noteq> '''' \<and> host \<noteq> ''localhost'' then
              if length host + length ''.local'' + 1 > 1024 then Inl OutOfBounds
              else
                (case hostnameToIp gethostbyname (host @ ''.local'') of
                   None \<Rightarrow> search
                 | Some hostIP \<Rightarrow> if \<not> isPrivateIP hostIP then Inr hostIP else search)
            else search)"

text \<open>The numeric addresses of the interfaces that are no loopback and no IPv6 addresses, in order.\<close>

fun usable :: "interface \<Rightarrow> string list" where
  "usable None = []"
| "usable (Some (fam, nameinfo)) =
     (if fam = OtherFamily then []
      else case nameinfo of
        None \<Rightarrow> []
      | Some ip \<Rightarrow> if ip = ''127.0.0.1'' \<or> CHR '':'' \<in> set ip then [] else [ip])"

definition candidates :: "interface list \<Rightarrow> string list" where
  "candidates ifs = concat (map usable ifs)"

lemma interface_loop_step:
  "interface_loop (ifa # rest) pref =
     interface_loop rest
       (case usable ifa of
          [] \<Rightarrow> pref
        | ip # _ \<Rightarrow> if pref = '''' \<or> \<not> isPrivateIP ip \<and> isPrivateIP pref then ip else pref)"
  by (cases ifa) (auto split: option.split prod.split)

text \<open>What an address is preferred by: the first one, unless it is private and a public one
  follows.\<close>

definition preferred :: "string list \<Rightarrow> string option" where
  "preferred ips =
     (case List.find (\<lambda>ip. \<not> isPrivateIP ip) ips of
        Some ip \<Rightarrow> Some ip
      | None \<Rightarrow> (case ips of [] \<Rightarrow> None | ip # _ \<Rightarrow> Some ip))"

lemma usable_cases: "usable ifa = [] \<or> (\<exists>ip. usable ifa = [ip])"
  by (induction ifa rule: usable.induct) (simp_all split: option.split)

lemma interface_loop_set:
  "pref \<noteq> '''' \<Longrightarrow> '''' \<notin> set (candidates ifs) \<Longrightarrow>
     interface_loop ifs pref =
       (if isPrivateIP pref
        then (case List.find (\<lambda>ip. \<not> isPrivateIP ip) (candidates ifs) of Some ip \<Rightarrow> ip | None \<Rightarrow> pref)
        else pref)"
proof (induction ifs arbitrary: pref)
  case Nil
  then show ?case by (simp add: candidates_def)
next
  case (Cons ifa ifs)
  consider "usable ifa = []" | ip where "usable ifa = [ip]" "ip \<noteq> ''''"
    using usable_cases [of ifa] Cons.prems(2) by (auto simp: candidates_def)
  then show ?case
  proof cases
    case 1
    then show ?thesis
      unfolding interface_loop_step using Cons by (simp add: candidates_def)
  next
    case 2
    then show ?thesis
      unfolding interface_loop_step using Cons.IH [of pref] Cons.IH [of ip] Cons.prems
      by (simp add: candidates_def)
  qed
qed

lemma interface_loop_preferred:
  "'''' \<notin> set (candidates ifs) \<Longrightarrow>
     interface_loop ifs '''' = (case preferred (candidates ifs) of None \<Rightarrow> '''' | Some ip \<Rightarrow> ip)"
proof (induction ifs)
  case Nil
  then show ?case by (simp add: candidates_def preferred_def)
next
  case (Cons ifa ifs)
  consider "usable ifa = []" | ip where "usable ifa = [ip]" "ip \<noteq> ''''"
    using usable_cases [of ifa] Cons.prems by (auto simp: candidates_def)
  then show ?case
  proof cases
    case 1
    then show ?thesis
      unfolding interface_loop_step using Cons by (simp add: candidates_def)
  next
    case 2
    then show ?thesis
      unfolding interface_loop_step using interface_loop_set [of ip ifs] Cons.prems
      by (simp add: candidates_def preferred_def split: option.split)
  qed
qed

text \<open>An octet takes at most three digits, so the buffer is large enough.\<close>

lemma length_octet: "length (show_nat (unat (b :: u8))) \<le> 3"
proof -
  have "unat b < 256" using unsigned_less [of b, where 'a = nat] by simp
  then have "unat b div 10 div 10 < 10" by simp
  then have "length (show_nat (unat b div 10)) \<le> 2" by (cases "unat b div 10 < 10") (simp_all add: show_nat.simps)
  then show ?thesis by (cases "unat b < 10") (simp_all add: show_nat.simps [of "unat b"])
qed

lemma length_dotted_quad: "length (dotted_quad a) \<le> 15"
proof (cases a rule: dotted_quad.cases)
  case (1 b1 b2 b3 b4)
  then show ?thesis
    using length_octet [of b1] length_octet [of b2] length_octet [of b3] length_octet [of b4] by simp
qed

definition quads :: "(u8 \<times> u8 \<times> u8 \<times> u8) list \<Rightarrow> string list" where
  "quads l = filter (\<lambda>s. s \<noteq> ''127.0.0.1'') (map dotted_quad l)"

lemma unicast_loop_last: "unicast_loop l ret = Inr (last (ret # quads l))"
proof (induction l arbitrary: ret)
  case (Cons a l)
  have "\<not> length (dotted_quad a) + 1 > 3*4+3+1" using length_dotted_quad [of a] by simp
  then show ?case using Cons.IH by (simp add: quads_def Let_def)
qed (simp add: quads_def)

lemma last_last: "last (last (x # xs) # ys) = last (x # xs @ ys)"
  by (cases ys) auto

lemma adapter_loop_last: "adapter_loop ls ret = Inr (last (ret # quads (concat ls)))"
proof (induction ls arbitrary: ret)
  case (Cons l ls)
  have "quads (concat (l # ls)) = quads l @ quads (concat ls)" by (simp add: quads_def)
  then show ?case using Cons.IH last_last [of ret "quads l"] by (simp add: unicast_loop_last)
qed (simp add: quads_def)

text \<open>C40 Without a choice by the user and without a usable host name, the address announced
  is the first public address of the interfaces if there is one, else their first address, loopback
  and IPv6 addresses not counted, else 127.0.0.1; it is never empty.  On Windows it is the last address of the
  adapters that is not 127.0.0.1, whether public or private, and the buffer that it is printed into is
  never overrun.\<close>
theorem determineHost_interfaces:
  assumes "ip_env = None \<or> ip_env = Some ''''"
    and "gethostname = None \<or> gethostname = Some '''' \<or> gethostname = Some ''localhost''"
    and "'''' \<notin> set (candidates ifs)"
  shows "determineHost (ifaddrs_search ifs) ip_env gethostname gethostbyname =
      Inr (case preferred (candidates ifs) of Some ip \<Rightarrow> ip | None \<Rightarrow> ''127.0.0.1'') \<and>
    determineHost (adapters_search (Some adapters)) ip_env gethostname gethostbyname =
      Inr (last (''127.0.0.1'' # quads (concat adapters)))"
proof -
  have "ip \<noteq> ''''" if "preferred (candidates ifs) = Some ip" for ip
    using that assms(3) by (auto simp: preferred_def split: option.splits list.splits dest: find_SomeD)
  then show ?thesis
    using assms interface_loop_preferred [OF assms(3)]
    by (auto simp: determineHost_def ifaddrs_search_def adapters_search_def adapter_loop_last Let_def
        simp del: last.simps split: option.split)
qed

lemma determineHost_interfaces_witness:
  "determineHost (ifaddrs_search [Some (Inet, Some ''127.0.0.1''), Some (Inet, Some ''10.0.0.7''), Some (Inet6, Some ''fe80::1''),
       None, Some (Inet, Some ''8.8.4.4'')]) None (Some ''localhost'') (\<lambda>_. None) = Inr ''8.8.4.4'' \<and>
   determineHost (adapters_search (Some [[(8, 8, 4, 4)], [(127, 0, 0, 1), (10, 0, 0, 7)]])) None (Some ''localhost'') (\<lambda>_. None) =
     Inr (last (''127.0.0.1'' # quads [(8, 8, 4, 4), (127, 0, 0, 1), (10, 0, 0, 7)]))"
proof -
  let ?ifs = "[Some (Inet, Some ''127.0.0.1''), Some (Inet, Some ''10.0.0.7''), Some (Inet6, Some ''fe80::1''),
       None, Some (Inet, Some ''8.8.4.4'')]"
  have "'''' \<notin> set (candidates ?ifs)" "preferred (candidates ?ifs) = Some ''8.8.4.4''"
    by (simp_all add: candidates_def preferred_def isPrivateIP_def has_prefix_def)
  then show ?thesis
    using determineHost_interfaces [of None "Some ''localhost''" ?ifs "\<lambda>_. None" "[[(8, 8, 4, 4)], [(127, 0, 0, 1), (10, 0, 0, 7)]]"]
    by simp
qed

end
