(* ===== verification/StdMap.thy ===== *)
theory StdMap
  imports Prelude
begin

text \<open>
  \<^verbatim>\<open>std::map\<close> of the C++ library as the list of its entries in key order, the order in which
  the code iterates over it.  \<open>map_of\<close> is \<^verbatim>\<open>find\<close>, \<open>map_put\<close> is assignment through
  \<^verbatim>\<open>operator[]\<close>, \<open>map_insert\<close> is \<^verbatim>\<open>insert\<close> (which keeps an entry that is there),
  \<open>map_erase\<close> is \<^verbatim>\<open>erase\<close> by key and \<open>map_count\<close> the number it returns.

  The locale \<open>ordered_map\<close> is the contract of such a container; what the components need of
  it beyond the laws is proved in the locale once, and the interpretation \<open>smap\<close> discharges
  the contract for the entry lists.
\<close>

type_synonym ('k, 'v) std_map = "('k \<times> 'v) list"

definition map_ok :: "('k::linorder, 'v) std_map \<Rightarrow> bool" where
  "map_ok m \<longleftrightarrow> sorted_wrt (<) (map fst m)"

fun map_put :: "'k::linorder \<Rightarrow> 'v \<Rightarrow> ('k, 'v) std_map \<Rightarrow> ('k, 'v) std_map" where
  "map_put k v [] = [(k, v)]"
| "map_put k v ((k', v') # m) =
     (if k < k' then (k, v) # (k', v') # m
      else if k = k' then (k, v) # m
      else (k', v') # map_put k v m)"

definition map_insert :: "'k::linorder \<Rightarrow> 'v \<Rightarrow> ('k, 'v) std_map \<Rightarrow> ('k, 'v) std_map" where
  "map_insert k v m = (case map_of m k of None \<Rightarrow> map_put k v m | Some _ \<Rightarrow> m)"

definition map_erase :: "'k \<Rightarrow> ('k, 'v) std_map \<Rightarrow> ('k, 'v) std_map" where
  "map_erase k m = filter (\<lambda>e. fst e \<noteq> k) m"

definition map_count :: "'k \<Rightarrow> ('k, 'v) std_map \<Rightarrow> nat" where
  "map_count k m = (case map_of m k of None \<Rightarrow> 0 | Some _ \<Rightarrow> 1)"

subsection \<open>The contract of an ordered map\<close>

locale ordered_map =
  fixes empty :: "'m"
    and lookup :: "'m \<Rightarrow> 'k::linorder \<Rightarrow> 'v option"
    and put :: "'k \<Rightarrow> 'v \<Rightarrow> 'm \<Rightarrow> 'm"
    and erase :: "'k \<Rightarrow> 'm \<Rightarrow> 'm"
    and keys :: "'m \<Rightarrow> 'k list"
    and ok :: "'m \<Rightarrow> bool"
  assumes ok_empty: "ok empty"
    and ok_put: "ok m \<Longrightarrow> ok (put k v m)"
    and ok_erase: "ok m \<Longrightarrow> ok (erase k m)"
    and lookup_empty: "lookup empty = Map.empty"
    and lookup_put: "lookup (put k v m) = (lookup m)(k \<mapsto> v)"
    and lookup_erase: "lookup (erase k m) = (lookup m)(k := None)"
    and keys_sorted: "ok m \<Longrightarrow> sorted_wrt (<) (keys m)"
    and keys_dom: "set (keys m) = dom (lookup m)"
begin

lemma keys_distinct: "ok m \<Longrightarrow> distinct (keys m)"
  using keys_sorted strict_sorted_iff by blast

lemma keys_unique:
  assumes "ok m" and "ok m'" and "dom (lookup m) = dom (lookup m')"
  shows "keys m = keys m'"
  using assms keys_sorted [of m] keys_sorted [of m'] keys_dom [of m] keys_dom [of m']
  by (simp add: strict_sorted_equal)

lemma keys_put_old: "ok m \<Longrightarrow> lookup m k = Some v \<Longrightarrow> keys (put k w m) = keys m"
  by (rule keys_unique) (auto simp: ok_put lookup_put dom_def)

lemma keys_put: "ok m \<Longrightarrow> set (keys (put k v m)) = insert k (set (keys m))"
  by (simp add: keys_dom lookup_put)

lemma keys_erase: "ok m \<Longrightarrow> keys (erase k m) = filter (\<lambda>x. x \<noteq> k) (keys m)"
proof -
  assume m: "ok m"
  have "sorted_wrt (<) (filter (\<lambda>x. x \<noteq> k) (keys m))"
    using keys_sorted [OF m] by (rule sorted_wrt_filter)
  moreover have "set (filter (\<lambda>x. x \<noteq> k) (keys m)) = set (keys (erase k m))"
    by (auto simp: keys_dom lookup_erase)
  ultimately show ?thesis
    using keys_sorted [OF ok_erase [OF m]] strict_sorted_equal by blast
qed

lemma lookup_put_erase: "lookup (put k v (erase k m)) = lookup (put k v m)"
  by (simp add: lookup_put lookup_erase)

lemma empty_iff_keys: "lookup m = Map.empty \<longleftrightarrow> keys m = []"
  using keys_dom [of m] by (metis dom_eq_empty_conv set_empty)

end

subsection \<open>Entry lists provide it\<close>

lemma map_of_put [simp]: "map_of (map_put k v m) = (map_of m)(k \<mapsto> v)"
  by (induction m) (auto simp: fun_eq_iff)

lemma map_of_erase [simp]: "map_of (map_erase k m) = (map_of m)(k := None)"
  by (induction m) (auto simp: map_erase_def fun_eq_iff)

lemma map_ok_Nil [simp, wf_intros]: "map_ok []"
  by (simp add: map_ok_def)

lemma map_ok_single [simp]: "map_ok [e]"
  by (simp add: map_ok_def)

lemma map_ok_Cons: "map_ok ((k, v) # m) \<longleftrightarrow> (\<forall>x \<in> set m. k < fst x) \<and> map_ok m"
  by (auto simp: map_ok_def)

lemma set_map_put: "set (map_put k v m) \<subseteq> insert (k, v) (set m)"
  by (induction m) (auto split: if_splits)

lemma map_ok_put [wf_intros]: "map_ok m \<Longrightarrow> map_ok (map_put k v m)"
proof (induction m)
  case Nil
  then show ?case by (simp add: map_ok_def)
next
  case (Cons e m)
  obtain k' v' where e: "e = (k', v')" by (cases e)
  show ?case
    using Cons set_map_put [of k v m] by (force simp: e map_ok_Cons)
qed

lemma map_ok_filter [wf_intros]: "map_ok m \<Longrightarrow> map_ok (filter P m)"
  by (induction m) (auto simp: map_ok_def)

lemma map_ok_erase [wf_intros]: "map_ok m \<Longrightarrow> map_ok (map_erase k m)"
  by (simp add: map_erase_def map_ok_filter)

lemma map_ok_insert [wf_intros]: "map_ok m \<Longrightarrow> map_ok (map_insert k v m)"
  by (simp add: map_insert_def map_ok_put split: option.split)

interpretation smap: ordered_map "[]" map_of map_put map_erase "map fst" map_ok
proof unfold_locales
  show "sorted_wrt (<) (map fst m)" if "map_ok m" for m :: "('k::linorder \<times> 'v) list"
    using that by (simp add: map_ok_def)
  show "set (map fst m) = dom (map_of m)" for m :: "('k::linorder \<times> 'v) list"
    by (simp add: dom_map_of_conv_image_fst)
qed (simp_all add: map_ok_put map_ok_erase fun_eq_iff)

lemma map_of_insert [simp]:
  "map_of (map_insert k v m) = (if k \<in> dom (map_of m) then map_of m else (map_of m)(k \<mapsto> v))"
  by (auto simp: map_insert_def split: option.split)

lemma map_count_pos: "0 < map_count k m \<longleftrightarrow> map_of m k \<noteq> None"
  by (simp add: map_count_def split: option.split)

lemma map_ok_distinct: "map_ok m \<Longrightarrow> distinct (map fst m)"
  by (rule smap.keys_distinct)

lemma map_ok_in_set_iff: "map_ok m \<Longrightarrow> (k, v) \<in> set m \<longleftrightarrow> map_of m k = Some v"
  by (simp add: map_ok_distinct)

lemma map_ok_ext:
  assumes "map_ok m" and "map_ok m'" and "map_of m = map_of m'"
  shows "m = m'"
proof -
  have keys: "map fst m = map fst m'"
    using assms by (intro smap.keys_unique) simp_all
  have "map (\<lambda>k. (k, the (map_of m k))) (map fst m) = m"
    if "map_ok m" for m :: "('a \<times> 'b) list"
    using map_ok_distinct [OF that] by (auto simp: comp_def intro!: map_idI)
  with assms keys show ?thesis by metis
qed

lemma map_of_filter_key:
  "map_of (filter (\<lambda>e. P (fst e)) m) k = (if P k then map_of m k else None)"
  by (induction m) auto

lemma map_erase_absent: "map_of m k = None \<Longrightarrow> map_erase k m = m"
  by (induction m) (auto simp: map_erase_def split: if_splits)

lemma map_erase_eq_Nil_iff: "map_erase k m = [] \<longleftrightarrow> dom (map_of m) \<subseteq> {k}"
  by (auto simp: map_erase_def filter_empty_conv dom_map_of_conv_image_fst)

lemma map_put_not_Nil [simp]: "map_put k v m \<noteq> []"
  by (cases m) (auto split: if_splits)

lemma map_put_put: "map_put k v (map_put k w m) = map_put k v m"
  by (induction m) auto

subsection \<open>Maps of maps without empty values\<close>

text \<open>
  The storages are maps whose values are containers again, and they drop a key when its
  container becomes empty.  \<open>inner m k\<close> is what is stored at \<open>k\<close> with nothing for an absent
  key, and \<open>restore k v m\<close> stores \<open>v\<close> back.
\<close>

definition inner :: "('k, 'v list) std_map \<Rightarrow> 'k \<Rightarrow> 'v list" where
  "inner m k = (case map_of m k of None \<Rightarrow> [] | Some v \<Rightarrow> v)"

definition restore :: "'k::linorder \<Rightarrow> 'v list \<Rightarrow> ('k, 'v list) std_map \<Rightarrow> ('k, 'v list) std_map" where
  "restore k v m = (if v = [] then map_erase k m else map_put k v m)"

definition nested_ok :: "('v list \<Rightarrow> bool) \<Rightarrow> ('k::linorder, 'v list) std_map \<Rightarrow> bool" where
  "nested_ok P m \<longleftrightarrow> map_ok m \<and> (\<forall>k v. map_of m k = Some v \<longrightarrow> v \<noteq> [] \<and> P v)"

lemma nested_ok_Nil [simp, wf_intros]: "nested_ok P []"
  by (simp add: nested_ok_def)

lemma nested_ok_map_ok: "nested_ok P m \<Longrightarrow> map_ok m"
  by (simp add: nested_ok_def)

lemma nested_ok_inner: "nested_ok P m \<Longrightarrow> P [] \<Longrightarrow> P (inner m k)"
  by (simp add: nested_ok_def inner_def split: option.split)

lemma inner_Nil [simp]: "inner [] k = []"
  by (simp add: inner_def)

lemma inner_restore: "inner (restore k v m) k' = (if k' = k then v else inner m k')"
  by (simp add: inner_def restore_def)

lemma nested_ok_restore: "nested_ok P m \<Longrightarrow> P v \<Longrightarrow> nested_ok P (restore k v m)"
  by (auto simp: nested_ok_def restore_def map_ok_put map_ok_erase split: if_splits)

lemma nested_lookup: "nested_ok P m \<Longrightarrow> map_of m k = (if inner m k = [] then None else Some (inner m k))"
  by (auto simp: nested_ok_def inner_def split: option.splits)

lemma nested_ext:
  "nested_ok P m \<Longrightarrow> nested_ok P m' \<Longrightarrow> (\<And>k. inner m k = inner m' k) \<Longrightarrow> m = m'"
  by (rule map_ok_ext) (simp_all add: nested_ok_map_ok fun_eq_iff nested_lookup)

lemma nested_eq_Nil_iff: "nested_ok P m \<Longrightarrow> m = [] \<longleftrightarrow> (\<forall>k. inner m k = [])"
  using nested_ext [of P m "[]"] by auto

lemma restore_same: "nested_ok P m \<Longrightarrow> P [] \<Longrightarrow> restore k (inner m k) m = m"
  by (rule nested_ext [of P]) (auto simp: nested_ok_restore nested_ok_inner inner_restore)

lemma map_erase_put: "map_erase k (map_put k v m) = map_erase k m"
  by (induction m) (auto simp: map_erase_def)

lemma least_entry: "map_ok m \<Longrightarrow> (k, v) = hd m \<Longrightarrow> map_of m k' = Some v' \<Longrightarrow> k \<le> k'"
  by (cases m) (fastforce simp: map_ok_Cons split: if_splits dest!: map_of_SomeD)+

end
