(* ===== verification/TransportTypes.thy ===== *)
theory TransportTypes
  imports StdMap
begin

text \<open>
  \<^verbatim>\<open>include/ignition/transport/TransportTypes.hh\<close>: the scope of a topic, the two kinds of
  things that discovery advertises, the address record of a publisher, and the maps of
  address records by process.
\<close>

text \<open>
  \<^verbatim>\<open>enum class Scope {Process, Host, All}\<close>.  The enumeration has the fixed underlying type
  \<^verbatim>\<open>int\<close>, so a value cast from a byte of a message need not be one of the three names:
  \<open>ScopeOther\<close> is such a value.
\<close>

datatype scope = Process | Host | All | ScopeOther u8

text \<open>\<^verbatim>\<open>static_cast<uint8_t>(scope)\<close> and \<^verbatim>\<open>static_cast<Scope>(intscope)\<close>.\<close>

fun u8_of_scope :: "scope \<Rightarrow> u8" where
  "u8_of_scope Process = 0"
| "u8_of_scope Host = 1"
| "u8_of_scope All = 2"
| "u8_of_scope (ScopeOther b) = b"

definition scope_of_u8 :: "u8 \<Rightarrow> scope" where
  "scope_of_u8 b =
     (if b = 0 then Process else if b = 1 then Host else if b = 2 then All else ScopeOther b)"

text \<open>Every value of the enumeration has one representation.\<close>

fun scope_ok :: "scope \<Rightarrow> bool" where
  "scope_ok (ScopeOther b) \<longleftrightarrow> b \<noteq> 0 \<and> b \<noteq> 1 \<and> b \<noteq> 2"
| "scope_ok _ \<longleftrightarrow> True"

lemma scope_of_u8_of_scope [simp]: "scope_ok s \<Longrightarrow> scope_of_u8 (u8_of_scope s) = s"
  by (cases s) (simp_all add: scope_of_u8_def)

lemma u8_of_scope_of_u8 [simp]: "u8_of_scope (scope_of_u8 b) = b"
  by (simp add: scope_of_u8_def)

lemma scope_ok_scope_of_u8 [simp]: "scope_ok (scope_of_u8 b)"
  by (simp add: scope_of_u8_def)

datatype msg_kind = Msg | Srv

text \<open>\<^verbatim>\<open>struct Address_t\<close>.\<close>

record address =
  addr :: string
  ctrl :: string
  nUuid :: string
  scope :: scope

text \<open>\<^verbatim>\<open>Addresses_M\<close>: the address records of a topic, by process UUID.\<close>

type_synonym addresses_m = "(string, address list) std_map"

end
