(* ===== verification/Packet.thy ===== *)
theory Packet
  imports TransportTypes
begin

text \<open>
  \<^verbatim>\<open>src/Packet.cc\<close> and \<^verbatim>\<open>include/ignition/transport/Packet.hh\<close>: the packets of the discovery
  protocol and their serialisation.

  A pointer into a buffer is the region from the address it holds to the end of the
  allocation, \<open>None\<close> for the null pointer.  A write or read past the end of the region is
  the fault \<open>OutOfBounds\<close>.  \<^verbatim>\<open>memcpy\<close> copies integers in the byte order of the host, which is
  taken to be little-endian.
\<close>

subsection \<open>Reading and writing a region\<close>

text \<open>A region that is being written: the bytes before the pointer and the bytes from it on.\<close>

type_synonym cursor = "string \<times> string"

definition put :: "string \<Rightarrow> cursor \<Rightarrow> cursor res" where
  "put bs z =
     (if length bs \<le> length (snd z) then Inr (fst z @ bs, drop (length bs) (snd z))
      else Inl OutOfBounds)"

definition get :: "nat \<Rightarrow> string \<Rightarrow> (string \<times> string) res" where
  "get n b = (if n \<le> length b then Inr (take n b, drop n b) else Inl OutOfBounds)"

text \<open>An unsigned integer of \<open>n\<close> bytes as \<^verbatim>\<open>memcpy\<close> copies it.\<close>

definition word_bytes :: "nat \<Rightarrow> 'a::len word \<Rightarrow> string" where
  "word_bytes n w = le_bytes n (unat w)"

definition get_word :: "nat \<Rightarrow> string \<Rightarrow> ('a::len word \<times> string) res" where
  "get_word n b = rbind (get n b) (\<lambda>(bs, r). Inr (of_nat (le_value bs), r))"

abbreviation u8_bytes :: "u8 \<Rightarrow> string" where "u8_bytes \<equiv> word_bytes (Suc 0)"
abbreviation u16_bytes :: "u16 \<Rightarrow> string" where "u16_bytes \<equiv> word_bytes 2"
abbreviation u64_bytes :: "u64 \<Rightarrow> string" where "u64_bytes \<equiv> word_bytes 8"
abbreviation get_u8 :: "string \<Rightarrow> (u8 \<times> string) res" where "get_u8 \<equiv> get_word (Suc 0)"
abbreviation get_u16 :: "string \<Rightarrow> (u16 \<times> string) res" where "get_u16 \<equiv> get_word 2"
abbreviation get_u64 :: "string \<Rightarrow> (u64 \<times> string) res" where "get_u64 \<equiv> get_word 8"

text \<open>The length of a string as \<^verbatim>\<open>uint64_t\<close>, and a string after its length.\<close>

definition str_len :: "string \<Rightarrow> u64" where
  "str_len s = of_nat (length s)"

definition put_str :: "string \<Rightarrow> cursor \<Rightarrow> cursor res" where
  "put_str s z = rbind (put (u64_bytes (str_len s)) z) (put (take (unat (str_len s)) s))"

definition get_str :: "string \<Rightarrow> (string \<times> string) res" where
  "get_str b = rbind (get_u64 b) (\<lambda>(n, r). get (unat n) r)"

subsection \<open>The contract of an encoding\<close>

text \<open>
  What a field's encoding promises: decoding an encoded value followed by anything gives the
  value and what follows, and only encodings decode.
\<close>

locale codec =
  fixes enc :: "'a \<Rightarrow> string"
    and dec :: "string \<Rightarrow> ('a \<times> string) res"
    and ok :: "'a \<Rightarrow> bool"
  assumes dec_enc: "ok a \<Longrightarrow> dec (enc a @ rest) = Inr (a, rest)"
    and enc_dec: "dec s = Inr (a, rest) \<Longrightarrow> s = enc a @ rest \<and> ok a"
begin

lemma dec_iff: "dec s = Inr (a, rest) \<longleftrightarrow> s = enc a @ rest \<and> ok a"
  using dec_enc enc_dec by blast

lemma prefix_free:
  assumes "ok a" and "ok b" and "enc a @ r = enc b @ s"
  shows "a = b \<and> r = s"
  using dec_enc [OF assms(1), of r] dec_enc [OF assms(2), of s] unfolding assms(3) by simp

lemma dec_consumes: "dec s = Inr (a, rest) \<Longrightarrow> length s = length (enc a) + length rest"
  using enc_dec by fastforce

end

text \<open>Two encodings one after the other are an encoding of the pair.\<close>

locale codec_pair = one: codec enc1 dec1 ok1 + two: codec enc2 dec2 ok2
  for enc1 :: "'a \<Rightarrow> string" and dec1 and ok1 and enc2 :: "'b \<Rightarrow> string" and dec2 and ok2
begin

definition enc_pair :: "'a \<times> 'b \<Rightarrow> string" where
  "enc_pair p = enc1 (fst p) @ enc2 (snd p)"

definition dec_pair :: "string \<Rightarrow> (('a \<times> 'b) \<times> string) res" where
  "dec_pair s = rbind (dec1 s) (\<lambda>(a, r). rbind (dec2 r) (\<lambda>(b, r'). Inr ((a, b), r')))"

definition ok_pair :: "'a \<times> 'b \<Rightarrow> bool" where
  "ok_pair p \<longleftrightarrow> ok1 (fst p) \<and> ok2 (snd p)"

end

sublocale codec_pair \<subseteq> pair: codec enc_pair dec_pair ok_pair
proof unfold_locales
  show "dec_pair (enc_pair a @ rest) = Inr (a, rest)" if "ok_pair a" for a rest
    using that by (simp add: enc_pair_def dec_pair_def ok_pair_def one.dec_enc two.dec_enc)
  show "s = enc_pair a @ rest \<and> ok_pair a" if "dec_pair s = Inr (a, rest)" for s a rest
  proof -
    from that obtain x y r where "dec1 s = Inr (x, r)" "dec2 r = Inr (y, rest)" "a = (x, y)"
      by (auto simp: dec_pair_def rbind_eq_Inr_iff)
    then show ?thesis
      using one.enc_dec [of s x r] two.enc_dec [of r y rest] by (simp add: enc_pair_def ok_pair_def)
  qed
qed

lemma get_iff: "get n s = Inr (a, rest) \<longleftrightarrow> s = a @ rest \<and> length a = n"
  by (auto simp: get_def)

lemma codec_word:
  assumes n: "256 ^ n = (2::nat) ^ LENGTH('a::len)"
  shows "codec (word_bytes n :: 'a word \<Rightarrow> string) (get_word n) (\<lambda>_. True)"
proof unfold_locales
  show "get_word n (word_bytes n a @ rest) = Inr (a, rest)" for a :: "'a word" and rest
    using le_bytes_unat_word [OF n, of a] by (simp add: get_word_def word_bytes_def get_def)
  show "s = word_bytes n a @ rest \<and> True" if "get_word n s = Inr (a, rest)" for s rest and a :: "'a word"
  proof -
    from that obtain bs where bs: "s = bs @ rest" "length bs = n" "a = of_nat (le_value bs)"
      by (auto simp: get_word_def rbind_eq_Inr_iff get_iff)
    then have "unat a = le_value bs"
      using le_value_bound [of bs] n by (simp add: unat_of_nat)
    with bs le_bytes_le_value [of bs] show ?thesis by (simp add: word_bytes_def)
  qed
qed

interpretation u8: codec u8_bytes get_u8 "\<lambda>_. True"
  by (rule codec_word) simp

interpretation u16: codec u16_bytes get_u16 "\<lambda>_. True"
  by (rule codec_word) simp

interpretation u64: codec u64_bytes get_u64 "\<lambda>_. True"
  by (rule codec_word) simp

text \<open>A string is encodable when its length is a \<^verbatim>\<open>uint64_t\<close>, which holds for every \<^verbatim>\<open>std::string\<close>.\<close>

definition str_ok :: "string \<Rightarrow> bool" where
  "str_ok s \<longleftrightarrow> length s < 2 ^ 64"

definition str_bytes :: "string \<Rightarrow> string" where
  "str_bytes s = u64_bytes (str_len s) @ s"

lemma unat_str_len: "str_ok s \<Longrightarrow> unat (str_len s) = length s"
  by (simp add: str_ok_def str_len_def unat_of_nat)

interpretation str: codec str_bytes get_str str_ok
proof unfold_locales
  show "get_str (str_bytes a @ rest) = Inr (a, rest)" if "str_ok a" for a rest
    using that by (simp add: get_str_def str_bytes_def u64.dec_enc unat_str_len get_iff)
  show "s = str_bytes a @ rest \<and> str_ok a" if "get_str s = Inr (a, rest)" for s a rest
  proof -
    from that obtain n r where n: "get_u64 s = Inr (n, r)" "r = a @ rest" "length a = unat n"
      by (auto simp: get_str_def rbind_eq_Inr_iff get_iff)
    then have "str_ok a" and "str_len a = n"
      using unsigned_less [of n, where 'a = nat] by (simp_all add: str_ok_def str_len_def)
    with n u64.enc_dec [of s n r] show ?thesis by (simp add: str_bytes_def)
  qed
qed

subsection \<open>Message types\<close>

definition Uninitialized :: u8 where "Uninitialized = 0"
definition AdvType :: u8 where "AdvType = 1"
definition SubType :: u8 where "SubType = 2"
definition UnadvType :: u8 where "UnadvType = 3"
definition HeartbeatType :: u8 where "HeartbeatType = 4"
definition ByeType :: u8 where "ByeType = 5"
definition AdvSrvType :: u8 where "AdvSrvType = 6"
definition SubSrvType :: u8 where "SubSrvType = 7"
definition UnadvSrvType :: u8 where "UnadvSrvType = 8"
definition NewConnection :: u8 where "NewConnection = 9"
definition EndConnection :: u8 where "EndConnection = 10"

lemmas msg_type_defs =
  Uninitialized_def AdvType_def SubType_def UnadvType_def HeartbeatType_def ByeType_def
  AdvSrvType_def SubSrvType_def UnadvSrvType_def NewConnection_def EndConnection_def

definition MsgTypesStr :: "string list" where
  "MsgTypesStr =
     [''UNINITIALIZED'', ''ADVERTISE'', ''SUBSCRIBE'', ''UNADVERTISE'', ''HEARTBEAT'',
      ''BYE'', ''ADV_SRV'', ''SUB_SRV'', ''UNADVERTISE_SRV'', ''NEW_CONNECTION'',
      ''END_CONNECTION'']"

text \<open>\<^verbatim>\<open>MsgTypesStr.at(i)\<close>.\<close>

definition MsgTypesStr_at :: "u8 \<Rightarrow> string res" where
  "MsgTypesStr_at i =
     (if unat i < length MsgTypesStr then Inr (MsgTypesStr ! unat i) else Inl Exn_out_of_range)"

abbreviation newline :: string where "newline \<equiv> [CHR 0x0A]"
abbreviation tab :: string where "tab \<equiv> [CHR 0x09]"

subsection \<open>Header\<close>

record header =
  hdr_version :: u16
  hdr_pUuid :: string
  hdr_type :: u8
  hdr_flags :: u16

definition Header_default :: header where
  "Header_default = \<lparr>hdr_version = 0, hdr_pUuid = '''', hdr_type = Uninitialized, hdr_flags = 0\<rparr>"

definition Header_SetVersion :: "u16 \<Rightarrow> header \<Rightarrow> header" where
  "Header_SetVersion v h = h\<lparr>hdr_version := v\<rparr>"

definition Header_SetPUuid :: "string \<Rightarrow> header \<Rightarrow> header" where
  "Header_SetPUuid u h = h\<lparr>hdr_pUuid := u\<rparr>"

definition Header_SetType :: "u8 \<Rightarrow> header \<Rightarrow> header" where
  "Header_SetType t h = h\<lparr>hdr_type := t\<rparr>"

definition Header_SetFlags :: "u16 \<Rightarrow> header \<Rightarrow> header" where
  "Header_SetFlags f h = h\<lparr>hdr_flags := f\<rparr>"

definition Header_ctor :: "u16 \<Rightarrow> string \<Rightarrow> u8 \<Rightarrow> u16 \<Rightarrow> header" where
  "Header_ctor v u t f =
     Header_SetFlags f (Header_SetType t (Header_SetPUuid u (Header_SetVersion v Header_default)))"

lemmas Header_ctor_simps =
  Header_ctor_def Header_SetFlags_def Header_SetType_def Header_SetPUuid_def
  Header_SetVersion_def Header_default_def

definition Header_GetVersion :: "header \<Rightarrow> u16" where
  [simp]: "Header_GetVersion h = hdr_version h"

definition Header_GetPUuid :: "header \<Rightarrow> string" where
  [simp]: "Header_GetPUuid h = hdr_pUuid h"

definition Header_GetType :: "header \<Rightarrow> u8" where
  [simp]: "Header_GetType h = hdr_type h"

definition Header_GetFlags :: "header \<Rightarrow> u16" where
  [simp]: "Header_GetFlags h = hdr_flags h"

text \<open>The sum is a \<^verbatim>\<open>size_t\<close>, which the return type \<^verbatim>\<open>int\<close> truncates.\<close>

definition GetHeaderLength :: "header \<Rightarrow> c_int" where
  "GetHeaderLength h = ucast (2 + 8 + str_len (hdr_pUuid h) + 1 + 2 :: size_t)"

text \<open>\<^verbatim>\<open>operator<<\<close>.\<close>

definition Header_print :: "header \<Rightarrow> string res" where
  "Header_print h =
     rbind (MsgTypesStr_at (hdr_type h)) (\<lambda>t. Inr (
       replicate 38 CHR ''-'' @ newline @ ''Header:'' @ newline @
       tab @ ''Version: '' @ show_nat (unat (hdr_version h)) @ newline @
       tab @ ''Process UUID: '' @ hdr_pUuid h @ newline @
       tab @ ''Type: '' @ t @ newline @
       tab @ ''Flags: '' @ show_nat (unat (hdr_flags h)) @ newline))"

text \<open>
  \<^verbatim>\<open>Pack\<close> gives the number of bytes and the region afterwards.  An incomplete header is
  printed, which can itself throw, and nothing is written.
\<close>

definition Header_Pack :: "header \<Rightarrow> string option \<Rightarrow> (size_t \<times> string option) res" where
  "Header_Pack h buffer =
     (if hdr_version h = 0 \<or> hdr_pUuid h = '''' \<or> hdr_type h = Uninitialized
      then rbind (Header_print h) (\<lambda>_. Inr (0, buffer))
      else case buffer of
        None \<Rightarrow> Inr (0, None)
      | Some b \<Rightarrow>
          rbind (put (u16_bytes (hdr_version h)) ([], b)) (\<lambda>z.
          rbind (put_str (hdr_pUuid h) z) (\<lambda>z.
          rbind (put (u8_bytes (hdr_type h)) z) (\<lambda>z.
          rbind (put (u16_bytes (hdr_flags h)) z) (\<lambda>z.
          Inr (scast (GetHeaderLength h), Some (fst z @ snd z)))))))"

text \<open>\<^verbatim>\<open>Unpack\<close> gives the number of bytes and the object it has filled in.\<close>

definition Header_Unpack :: "header \<Rightarrow> string option \<Rightarrow> (size_t \<times> header) res" where
  "Header_Unpack h buffer =
     (case buffer of
        None \<Rightarrow> Inr (0, h)
      | Some b \<Rightarrow>
          rbind (get_u16 b) (\<lambda>(v, b).
          rbind (get_str b) (\<lambda>(u, b).
          rbind (get_u8 b) (\<lambda>(t, b).
          rbind (get_u16 b) (\<lambda>(f, b).
          let h' = h\<lparr>hdr_version := v, hdr_pUuid := u, hdr_type := t, hdr_flags := f\<rparr>
          in Inr (scast (GetHeaderLength h'), h'))))))"

text \<open>Moving a pointer on: \<^verbatim>\<open>_buffer += n\<close>.\<close>

definition advance :: "size_t \<Rightarrow> string option \<Rightarrow> cursor res" where
  "advance n buffer =
     (case buffer of
        None \<Rightarrow> Inl OutOfBounds
      | Some b \<Rightarrow>
          if unat n \<le> length b then Inr (take (unat n) b, drop (unat n) b) else Inl OutOfBounds)"

subsection \<open>SubscriptionMsg\<close>

record subscription_msg =
  sub_header :: header
  sub_topic :: string

definition SubscriptionMsg_default :: subscription_msg where
  "SubscriptionMsg_default = \<lparr>sub_header = Header_default, sub_topic = ''''\<rparr>"

definition SubscriptionMsg_GetHeader :: "subscription_msg \<Rightarrow> header" where
  [simp]: "SubscriptionMsg_GetHeader m = sub_header m"

definition SubscriptionMsg_GetTopic :: "subscription_msg \<Rightarrow> string" where
  [simp]: "SubscriptionMsg_GetTopic m = sub_topic m"

definition SubscriptionMsg_SetHeader :: "header \<Rightarrow> subscription_msg \<Rightarrow> subscription_msg" where
  [simp]: "SubscriptionMsg_SetHeader h m = m\<lparr>sub_header := h\<rparr>"

definition SubscriptionMsg_SetTopic :: "string \<Rightarrow> subscription_msg \<Rightarrow> subscription_msg" where
  [simp]: "SubscriptionMsg_SetTopic topic m = m\<lparr>sub_topic := topic\<rparr>"

definition SubscriptionMsg_ctor :: "header \<Rightarrow> string \<Rightarrow> subscription_msg" where
  "SubscriptionMsg_ctor h topic =
     SubscriptionMsg_SetTopic topic (SubscriptionMsg_SetHeader h SubscriptionMsg_default)"

definition SubscriptionMsg_print :: "subscription_msg \<Rightarrow> string res" where
  "SubscriptionMsg_print m =
     rbind (Header_print (sub_header m)) (\<lambda>h. Inr (
       h @ ''Body:'' @ newline @
       tab @ ''Topic: ['' @ sub_topic m @ '']'' @ newline))"

definition SubscriptionMsg_GetMsgLength :: "subscription_msg \<Rightarrow> size_t" where
  "SubscriptionMsg_GetMsgLength m = scast (GetHeaderLength (sub_header m)) + 8 + str_len (sub_topic m)"

definition SubscriptionMsg_Pack ::
    "subscription_msg \<Rightarrow> string option \<Rightarrow> (size_t \<times> string option) res" where
  "SubscriptionMsg_Pack m buffer =
     rbind (Header_Pack (sub_header m) buffer) (\<lambda>(headerLen, buffer).
     if headerLen = 0 then Inr (0, buffer)
     else if sub_topic m = '''' then Inr (0, buffer)
     else
       rbind (advance headerLen buffer) (\<lambda>z.
       rbind (put_str (sub_topic m) z) (\<lambda>z.
       Inr (SubscriptionMsg_GetMsgLength m, Some (fst z @ snd z)))))"

definition SubscriptionMsg_UnpackBody ::
    "subscription_msg \<Rightarrow> string option \<Rightarrow> (size_t \<times> subscription_msg) res" where
  "SubscriptionMsg_UnpackBody m buffer =
     (case buffer of
        None \<Rightarrow> Inr (0, m)
      | Some b \<Rightarrow>
          rbind (get_str b) (\<lambda>(topic, b).
          Inr (8 + str_len topic, m\<lparr>sub_topic := topic\<rparr>)))"

subsection \<open>AdvertiseBase\<close>

record advertise_base =
  adv_header :: header
  adv_topic :: string
  adv_addr :: string
  adv_ctrl :: string
  adv_nUuid :: string
  adv_scope :: scope

definition AdvertiseBase_GetHeader :: "'a advertise_base_scheme \<Rightarrow> header" where
  [simp]: "AdvertiseBase_GetHeader m = adv_header m"

definition AdvertiseBase_GetTopic :: "'a advertise_base_scheme \<Rightarrow> string" where
  [simp]: "AdvertiseBase_GetTopic m = adv_topic m"

definition AdvertiseBase_GetAddress :: "'a advertise_base_scheme \<Rightarrow> string" where
  [simp]: "AdvertiseBase_GetAddress m = adv_addr m"

definition AdvertiseBase_GetControlAddress :: "'a advertise_base_scheme \<Rightarrow> string" where
  [simp]: "AdvertiseBase_GetControlAddress m = adv_ctrl m"

definition AdvertiseBase_GetNodeUuid :: "'a advertise_base_scheme \<Rightarrow> string" where
  [simp]: "AdvertiseBase_GetNodeUuid m = adv_nUuid m"

definition AdvertiseBase_GetScope :: "'a advertise_base_scheme \<Rightarrow> scope" where
  [simp]: "AdvertiseBase_GetScope m = adv_scope m"

text \<open>The constructor fills in the fields of the object it is given, of any derived class.\<close>

definition SetHeader :: "header \<Rightarrow> 'a advertise_base_scheme \<Rightarrow> 'a advertise_base_scheme" where
  [simp]: "SetHeader h m = m\<lparr>adv_header := h\<rparr>"

definition SetTopic :: "string \<Rightarrow> 'a advertise_base_scheme \<Rightarrow> 'a advertise_base_scheme" where
  [simp]: "SetTopic topic m = m\<lparr>adv_topic := topic\<rparr>"

definition SetAddress :: "string \<Rightarrow> 'a advertise_base_scheme \<Rightarrow> 'a advertise_base_scheme" where
  [simp]: "SetAddress a m = m\<lparr>adv_addr := a\<rparr>"

definition SetControlAddress :: "string \<Rightarrow> 'a advertise_base_scheme \<Rightarrow> 'a advertise_base_scheme" where
  [simp]: "SetControlAddress c m = m\<lparr>adv_ctrl := c\<rparr>"

definition SetNodeUuid :: "string \<Rightarrow> 'a advertise_base_scheme \<Rightarrow> 'a advertise_base_scheme" where
  [simp]: "SetNodeUuid n m = m\<lparr>adv_nUuid := n\<rparr>"

definition SetScope :: "scope \<Rightarrow> 'a advertise_base_scheme \<Rightarrow> 'a advertise_base_scheme" where
  [simp]: "SetScope sc m = m\<lparr>adv_scope := sc\<rparr>"

definition AdvertiseBase_ctor ::
    "header \<Rightarrow> string \<Rightarrow> string \<Rightarrow> string \<Rightarrow> string \<Rightarrow> scope \<Rightarrow> 'a advertise_base_scheme
      \<Rightarrow> 'a advertise_base_scheme" where
  "AdvertiseBase_ctor h topic a c n sc m =
     SetScope sc (SetNodeUuid n (SetControlAddress c (SetAddress a (SetTopic topic (SetHeader h m)))))"

definition AdvertiseBase_GetMsgLength :: "'a advertise_base_scheme \<Rightarrow> size_t" where
  "AdvertiseBase_GetMsgLength m =
     scast (GetHeaderLength (adv_header m)) +
     8 + str_len (adv_topic m) +
     8 + str_len (adv_addr m) +
     8 + str_len (adv_ctrl m) +
     8 + str_len (adv_nUuid m) +
     1"

text \<open>\<^verbatim>\<open>operator<<\<close>.\<close>

definition AdvertiseBase_print :: "'a advertise_base_scheme \<Rightarrow> string res" where
  "AdvertiseBase_print m =
     rbind (Header_print (adv_header m)) (\<lambda>h. Inr (
       h @ ''Body:'' @ newline @
       tab @ ''Topic: ['' @ adv_topic m @ '']'' @ newline @
       tab @ ''Address: '' @ adv_addr m @ newline @
       tab @ ''Control address: '' @ adv_ctrl m @ newline @
       tab @ ''Node UUID: '' @ adv_nUuid m @ newline @
       tab @ ''Topic Scope: '' @
       (if adv_scope m = Process then ''Process'' @ newline
        else if adv_scope m = Host then ''Host'' @ newline
        else ''All'' @ newline)))"

definition AdvertiseBase_Pack ::
    "'a advertise_base_scheme \<Rightarrow> string option \<Rightarrow> (size_t \<times> string option) res" where
  "AdvertiseBase_Pack m buffer =
     rbind (Header_Pack (adv_header m) buffer) (\<lambda>(headerLen, buffer).
     if headerLen = 0 then Inr (0, buffer)
     else if adv_topic m = '''' \<or> adv_addr m = '''' \<or> adv_nUuid m = ''''
       then rbind (AdvertiseBase_print m) (\<lambda>_. Inr (0, buffer))
     else
       rbind (advance headerLen buffer) (\<lambda>z.
       rbind (put_str (adv_topic m) z) (\<lambda>z.
       rbind (put_str (adv_addr m) z) (\<lambda>z.
       rbind (put_str (adv_ctrl m) z) (\<lambda>z.
       rbind (put_str (adv_nUuid m) z) (\<lambda>z.
       rbind (put (u8_bytes (u8_of_scope (adv_scope m))) z) (\<lambda>z.
       Inr (AdvertiseBase_GetMsgLength m, Some (fst z @ snd z)))))))))"

definition AdvertiseBase_UnpackBody ::
    "'a advertise_base_scheme \<Rightarrow> string option \<Rightarrow> (size_t \<times> 'a advertise_base_scheme) res" where
  "AdvertiseBase_UnpackBody m buffer =
     (case buffer of
        None \<Rightarrow> Inr (0, m)
      | Some b \<Rightarrow>
          rbind (get_str b) (\<lambda>(topic, b).
          rbind (get_str b) (\<lambda>(a, b).
          rbind (get_str b) (\<lambda>(c, b).
          rbind (get_str b) (\<lambda>(n, b).
          rbind (get_u8 b) (\<lambda>(intscope, b).
          Inr (8 + str_len topic + 8 + str_len a + 8 + str_len c + 8 + str_len n + 1,
               m\<lparr>adv_topic := topic, adv_addr := a, adv_ctrl := c, adv_nUuid := n,
                 adv_scope := scope_of_u8 intscope\<rparr>)))))))"

subsection \<open>AdvertiseMsg\<close>

record advertise_msg = advertise_base +
  adv_msgTypeName :: string

definition AdvertiseMsg_default :: advertise_msg where
  "AdvertiseMsg_default =
     \<lparr>adv_header = Header_default, adv_topic = '''', adv_addr = '''', adv_ctrl = '''',
      adv_nUuid = '''', adv_scope = All, adv_msgTypeName = ''''\<rparr>"

definition GetMsgTypeName :: "advertise_msg \<Rightarrow> string" where
  [simp]: "GetMsgTypeName m = adv_msgTypeName m"

definition SetMsgTypeName :: "string \<Rightarrow> advertise_msg \<Rightarrow> advertise_msg" where
  [simp]: "SetMsgTypeName ty m = m\<lparr>adv_msgTypeName := ty\<rparr>"

definition AdvertiseMsg_ctor ::
    "header \<Rightarrow> string \<Rightarrow> string \<Rightarrow> string \<Rightarrow> string \<Rightarrow> scope \<Rightarrow> string \<Rightarrow> advertise_msg" where
  "AdvertiseMsg_ctor h topic a c n sc ty =
     SetMsgTypeName ty (AdvertiseBase_ctor h topic a c n sc AdvertiseMsg_default)"

definition AdvertiseMsg_print :: "advertise_msg \<Rightarrow> string res" where
  "AdvertiseMsg_print m =
     rbind (AdvertiseBase_print m) (\<lambda>s. Inr (
       s @ tab @ ''Message type: '' @ adv_msgTypeName m @ newline))"

definition AdvertiseMsg_GetMsgLength :: "advertise_msg \<Rightarrow> size_t" where
  "AdvertiseMsg_GetMsgLength m = AdvertiseBase_GetMsgLength m + 8 + str_len (adv_msgTypeName m)"

definition AdvertiseMsg_Pack :: "advertise_msg \<Rightarrow> string option \<Rightarrow> (size_t \<times> string option) res" where
  "AdvertiseMsg_Pack m buffer =
     rbind (AdvertiseBase_Pack m buffer) (\<lambda>(len, buffer).
     if len = 0 then Inr (0, buffer)
     else if adv_msgTypeName m = '''' then Inr (0, buffer)
     else
       rbind (advance len buffer) (\<lambda>z.
       rbind (put_str (adv_msgTypeName m) z) (\<lambda>z.
       Inr (AdvertiseMsg_GetMsgLength m, Some (fst z @ snd z)))))"

definition AdvertiseMsg_UnpackBody ::
    "advertise_msg \<Rightarrow> string option \<Rightarrow> (size_t \<times> advertise_msg) res" where
  "AdvertiseMsg_UnpackBody m buffer =
     rbind (AdvertiseBase_UnpackBody m buffer) (\<lambda>(advCommonLen, m).
     if advCommonLen = 0 then Inr (0, m)
     else
       rbind (advance advCommonLen buffer) (\<lambda>(_, b).
       rbind (get_str b) (\<lambda>(ty, b).
       let m' = m\<lparr>adv_msgTypeName := ty\<rparr>
       in Inr (AdvertiseMsg_GetMsgLength m' - scast (GetHeaderLength (adv_header m')), m'))))"

subsection \<open>AdvertiseSrv\<close>

record advertise_srv = advertise_base +
  adv_reqTypeName :: string
  adv_repTypeName :: string

definition AdvertiseSrv_default :: advertise_srv where
  "AdvertiseSrv_default =
     \<lparr>adv_header = Header_default, adv_topic = '''', adv_addr = '''', adv_ctrl = '''',
      adv_nUuid = '''', adv_scope = All, adv_reqTypeName = '''', adv_repTypeName = ''''\<rparr>"

definition GetReqTypeName :: "advertise_srv \<Rightarrow> string" where
  [simp]: "GetReqTypeName m = adv_reqTypeName m"

definition GetRepTypeName :: "advertise_srv \<Rightarrow> string" where
  [simp]: "GetRepTypeName m = adv_repTypeName m"

definition SetReqTypeName :: "string \<Rightarrow> advertise_srv \<Rightarrow> advertise_srv" where
  [simp]: "SetReqTypeName req m = m\<lparr>adv_reqTypeName := req\<rparr>"

definition SetRepTypeName :: "string \<Rightarrow> advertise_srv \<Rightarrow> advertise_srv" where
  [simp]: "SetRepTypeName rep m = m\<lparr>adv_repTypeName := rep\<rparr>"

definition AdvertiseSrv_ctor ::
    "header \<Rightarrow> string \<Rightarrow> string \<Rightarrow> string \<Rightarrow> string \<Rightarrow> scope \<Rightarrow> string \<Rightarrow> string \<Rightarrow> advertise_srv" where
  "AdvertiseSrv_ctor h topic a c n sc req rep =
     SetRepTypeName rep (SetReqTypeName req (AdvertiseBase_ctor h topic a c n sc AdvertiseSrv_default))"

definition AdvertiseSrv_GetMsgLength :: "advertise_srv \<Rightarrow> size_t" where
  "AdvertiseSrv_GetMsgLength m =
     AdvertiseBase_GetMsgLength m + 8 + str_len (adv_reqTypeName m) + 8 + str_len (adv_repTypeName m)"

definition AdvertiseSrv_print :: "advertise_srv \<Rightarrow> string res" where
  "AdvertiseSrv_print m =
     rbind (AdvertiseBase_print m) (\<lambda>s. Inr (
       s @ tab @ ''Request type: '' @ adv_reqTypeName m @ newline @
       tab @ ''Response type: '' @ adv_repTypeName m @ newline))"

definition AdvertiseSrv_Pack :: "advertise_srv \<Rightarrow> string option \<Rightarrow> (size_t \<times> string option) res" where
  "AdvertiseSrv_Pack m buffer =
     rbind (AdvertiseBase_Pack m buffer) (\<lambda>(len, buffer).
     if len = 0 then Inr (0, buffer)
     else if adv_reqTypeName m = '''' \<or> adv_repTypeName m = ''''
       then rbind (AdvertiseSrv_print m) (\<lambda>_. Inr (0, buffer))
     else
       rbind (advance len buffer) (\<lambda>z.
       rbind (put_str (adv_reqTypeName m) z) (\<lambda>z.
       rbind (put_str (adv_repTypeName m) z) (\<lambda>z.
       Inr (AdvertiseSrv_GetMsgLength m, Some (fst z @ snd z))))))"

definition AdvertiseSrv_UnpackBody ::
    "advertise_srv \<Rightarrow> string option \<Rightarrow> (size_t \<times> advertise_srv) res" where
  "AdvertiseSrv_UnpackBody m buffer =
     rbind (AdvertiseBase_UnpackBody m buffer) (\<lambda>(advCommonLen, m).
     if advCommonLen = 0 then Inr (0, m)
     else
       rbind (advance advCommonLen buffer) (\<lambda>(_, b).
       rbind (get_str b) (\<lambda>(req, b).
       rbind (get_str b) (\<lambda>(rep, b).
       let m' = m\<lparr>adv_reqTypeName := req, adv_repTypeName := rep\<rparr>
       in Inr (AdvertiseSrv_GetMsgLength m' - scast (GetHeaderLength (adv_header m')), m')))))"

subsection \<open>Lengths\<close>

definition header_fits :: "header \<Rightarrow> bool" where
  "header_fits h \<longleftrightarrow> 13 + length (hdr_pUuid h) < 2 ^ 31"

lemma str_len_append_numeral: "of_nat (length s) = str_len s"
  by (simp add: str_len_def)

lemma scast_of_nat_32:
  assumes "n < 2 ^ 31"
  shows "scast (of_nat n :: c_int) = (of_nat n :: size_t)"
proof -
  have "signed_take_bit 31 (int n) = int n"
    using assms by (intro signed_take_bit_int_eq_self) simp_all
  then show ?thesis by (simp add: signed_of_nat)
qed

lemma GetHeaderLength_nat: "GetHeaderLength h = of_nat (13 + length (hdr_pUuid h))"
proof -
  have "(2 + 8 + str_len (hdr_pUuid h) + 1 + 2 :: size_t) = of_nat (13 + length (hdr_pUuid h))"
    by (simp add: str_len_def)
  then have "GetHeaderLength h = ucast (of_nat (13 + length (hdr_pUuid h)) :: size_t)"
    by (simp only: GetHeaderLength_def)
  also have "\<dots> = of_nat (13 + length (hdr_pUuid h))"
    by (simp only: unsigned_of_nat of_nat_take_bit) (simp add: take_bit_word_eq_self)
  finally show ?thesis .
qed

lemma scast_GetHeaderLength:
  "header_fits h \<Longrightarrow> scast (GetHeaderLength h) = (of_nat (13 + length (hdr_pUuid h)) :: size_t)"
  unfolding GetHeaderLength_nat header_fits_def by (rule scast_of_nat_32)

subsection \<open>Writing and reading in one go\<close>

lemma put_put: "rbind (put a z) (put b) = put (a @ b) z"
  by (auto simp: put_def add.commute)

lemma put_put_k: "rbind (put a z) (\<lambda>y. rbind (put b y) k) = rbind (put (a @ b) z) k"
  by (simp add: put_put [symmetric])

lemma put_str_eq: "str_ok s \<Longrightarrow> put_str s = put (str_bytes s)"
  by (simp add: put_str_def put_put unat_str_len str_bytes_def fun_eq_iff)

lemma put_fits: "length bs \<le> length r \<Longrightarrow> put bs (d, r) = Inr (d @ bs, drop (length bs) r)"
  by (simp add: put_def)

lemma length_word_bytes [simp]: "length (word_bytes n w) = n"
  by (simp add: word_bytes_def)

lemma length_str_bytes [simp]: "length (str_bytes s) = 8 + length s"
  by (simp add: str_bytes_def)

definition header_wire :: "header \<Rightarrow> string" where
  "header_wire h =
     u16_bytes (hdr_version h) @ str_bytes (hdr_pUuid h) @ u8_bytes (hdr_type h) @
     u16_bytes (hdr_flags h)"

definition base_wire :: "'a advertise_base_scheme \<Rightarrow> string" where
  "base_wire m =
     str_bytes (adv_topic m) @ str_bytes (adv_addr m) @ str_bytes (adv_ctrl m) @
     str_bytes (adv_nUuid m) @ u8_bytes (u8_of_scope (adv_scope m))"

definition base_ok :: "'a advertise_base_scheme \<Rightarrow> bool" where
  "base_ok m \<longleftrightarrow>
     str_ok (adv_topic m) \<and> str_ok (adv_addr m) \<and> str_ok (adv_ctrl m) \<and> str_ok (adv_nUuid m) \<and>
     scope_ok (adv_scope m)"

lemma length_header_wire: "length (header_wire h) = 13 + length (hdr_pUuid h)"
  by (simp add: header_wire_def)

lemma length_base_wire:
  "length (base_wire m) =
     33 + length (adv_topic m) + length (adv_addr m) + length (adv_ctrl m) + length (adv_nUuid m)"
  by (simp add: base_wire_def)

lemma header_fits_str_ok: "header_fits h \<Longrightarrow> str_ok (hdr_pUuid h)"
  by (simp add: header_fits_def str_ok_def)

text \<open>The fields of a header and of an advertisement as nested pairs.\<close>

interpretation hdr3: codec_pair u8_bytes get_u8 "\<lambda>_. True" u16_bytes get_u16 "\<lambda>_. True"
  by unfold_locales

interpretation hdr2: codec_pair str_bytes get_str str_ok hdr3.enc_pair hdr3.dec_pair hdr3.ok_pair
  by unfold_locales

interpretation hdr1: codec_pair u16_bytes get_u16 "\<lambda>_. True" hdr2.enc_pair hdr2.dec_pair hdr2.ok_pair
  by unfold_locales

definition scope_bytes :: "scope \<Rightarrow> string" where
  "scope_bytes s = u8_bytes (u8_of_scope s)"

definition get_scope :: "string \<Rightarrow> (scope \<times> string) res" where
  "get_scope b = rbind (get_u8 b) (\<lambda>(x, r). Inr (scope_of_u8 x, r))"

interpretation scp: codec scope_bytes get_scope scope_ok
proof unfold_locales
  show "get_scope (scope_bytes a @ rest) = Inr (a, rest)" if "scope_ok a" for a rest
    using that by (simp add: get_scope_def scope_bytes_def u8.dec_enc)
  show "s = scope_bytes a @ rest \<and> scope_ok a" if "get_scope s = Inr (a, rest)" for s a rest
    using that by (auto simp: get_scope_def scope_bytes_def rbind_eq_Inr_iff dest: u8.enc_dec)
qed

interpretation base4: codec_pair str_bytes get_str str_ok scope_bytes get_scope scope_ok
  by unfold_locales

interpretation base3: codec_pair str_bytes get_str str_ok base4.enc_pair base4.dec_pair base4.ok_pair
  by unfold_locales

interpretation base2: codec_pair str_bytes get_str str_ok base3.enc_pair base3.dec_pair base3.ok_pair
  by unfold_locales

interpretation base1: codec_pair str_bytes get_str str_ok base2.enc_pair base2.dec_pair base2.ok_pair
  by unfold_locales

lemmas hdr_pair_defs =
  hdr1.enc_pair_def hdr2.enc_pair_def hdr3.enc_pair_def
  hdr1.dec_pair_def hdr2.dec_pair_def hdr3.dec_pair_def
  hdr1.ok_pair_def hdr2.ok_pair_def hdr3.ok_pair_def

lemmas base_pair_defs =
  base1.enc_pair_def base2.enc_pair_def base3.enc_pair_def base4.enc_pair_def
  base1.dec_pair_def base2.dec_pair_def base3.dec_pair_def base4.dec_pair_def
  base1.ok_pair_def base2.ok_pair_def base3.ok_pair_def base4.ok_pair_def

lemma Header_Unpack_pair:
  "Header_Unpack h (Some b) =
     rbind (hdr1.dec_pair b) (\<lambda>((v, u, t, f), _).
       let h' = h\<lparr>hdr_version := v, hdr_pUuid := u, hdr_type := t, hdr_flags := f\<rparr>
       in Inr (scast (GetHeaderLength h'), h'))"
  by (simp add: Header_Unpack_def hdr_pair_defs case_prod_unfold)

lemma AdvertiseBase_UnpackBody_pair:
  "AdvertiseBase_UnpackBody m (Some b) =
     rbind (base1.dec_pair b) (\<lambda>((topic, a, c, n, sc), _).
       Inr (8 + str_len topic + 8 + str_len a + 8 + str_len c + 8 + str_len n + 1,
         m\<lparr>adv_topic := topic, adv_addr := a, adv_ctrl := c, adv_nUuid := n, adv_scope := sc\<rparr>))"
  by (simp add: AdvertiseBase_UnpackBody_def base_pair_defs get_scope_def case_prod_unfold)

lemma hdr_dec_iff:
  "hdr1.dec_pair b = Inr ((v, u, t, f), r) \<longleftrightarrow>
     b = u16_bytes v @ str_bytes u @ u8_bytes t @ u16_bytes f @ r \<and> str_ok u"
  unfolding hdr1.pair.dec_iff
  by (simp add: hdr1.enc_pair_def hdr2.enc_pair_def hdr3.enc_pair_def
      hdr1.ok_pair_def hdr2.ok_pair_def hdr3.ok_pair_def)

lemma base_dec_iff:
  "base1.dec_pair b = Inr ((topic, a, c, n, sc), r) \<longleftrightarrow>
     b = str_bytes topic @ str_bytes a @ str_bytes c @ str_bytes n @ u8_bytes (u8_of_scope sc) @ r \<and>
     str_ok topic \<and> str_ok a \<and> str_ok c \<and> str_ok n \<and> scope_ok sc"
  unfolding base1.pair.dec_iff
  by (simp add: base1.enc_pair_def base2.enc_pair_def base3.enc_pair_def base4.enc_pair_def
      base1.ok_pair_def base2.ok_pair_def base3.ok_pair_def base4.ok_pair_def scope_bytes_def)

lemma Header_Unpack_iff:
  "Header_Unpack h0 (Some b) = Inr (n, h) \<longleftrightarrow>
     (\<exists>r. b = header_wire h @ r) \<and> str_ok (hdr_pUuid h) \<and> n = scast (GetHeaderLength h)"
proof
  assume "Header_Unpack h0 (Some b) = Inr (n, h)"
  then show "(\<exists>r. b = header_wire h @ r) \<and> str_ok (hdr_pUuid h) \<and> n = scast (GetHeaderLength h)"
    unfolding Header_Unpack_pair rbind_eq_Inr_iff
    by (auto simp: Let_def hdr_dec_iff header_wire_def)
next
  assume "(\<exists>r. b = header_wire h @ r) \<and> str_ok (hdr_pUuid h) \<and> n = scast (GetHeaderLength h)"
  then obtain r where r: "b = header_wire h @ r" "str_ok (hdr_pUuid h)" "n = scast (GetHeaderLength h)"
    by blast
  then have "hdr1.dec_pair b = Inr ((hdr_version h, hdr_pUuid h, hdr_type h, hdr_flags h), r)"
    by (simp add: hdr_dec_iff header_wire_def)
  with r(3) show "Header_Unpack h0 (Some b) = Inr (n, h)"
    by (simp add: Header_Unpack_pair Let_def GetHeaderLength_nat)
qed

lemma Header_Unpack_wire [codec_simps]:
  "str_ok (hdr_pUuid h) \<Longrightarrow>
     Header_Unpack h0 (Some (header_wire h @ r)) = Inr (scast (GetHeaderLength h), h)"
  by (auto simp: Header_Unpack_iff)

lemma AdvertiseBase_UnpackBody_wire [codec_simps]:
  "base_ok m \<Longrightarrow>
     AdvertiseBase_UnpackBody m0 (Some (base_wire m @ r)) =
       Inr (of_nat (length (base_wire m)),
         m0\<lparr>adv_topic := adv_topic m, adv_addr := adv_addr m, adv_ctrl := adv_ctrl m,
            adv_nUuid := adv_nUuid m, adv_scope := adv_scope m\<rparr>)"
  using base_dec_iff [of "base_wire m @ r" "adv_topic m" "adv_addr m" "adv_ctrl m" "adv_nUuid m"
      "adv_scope m" r]
  by (simp add: AdvertiseBase_UnpackBody_pair base_ok_def length_base_wire)
    (simp add: base_wire_def str_len_def)

lemma Header_Pack_wire:
  assumes "str_ok (hdr_pUuid h)"
    and "hdr_version h \<noteq> 0" and "hdr_pUuid h \<noteq> []" and "hdr_type h \<noteq> Uninitialized"
  shows "Header_Pack h (Some b) =
     (if length (header_wire h) \<le> length b
      then Inr (scast (GetHeaderLength h), Some (header_wire h @ drop (length (header_wire h)) b))
      else Inl OutOfBounds)"
  using assms
  by (simp add: Header_Pack_def put_str_eq put_put_k header_wire_def [symmetric]) (simp add: put_def)

subsection \<open>What the messages look like on the wire\<close>

definition header_complete :: "header \<Rightarrow> bool" where
  "header_complete h \<longleftrightarrow> hdr_version h \<noteq> 0 \<and> hdr_pUuid h \<noteq> [] \<and> hdr_type h \<noteq> Uninitialized"

definition base_complete :: "'a advertise_base_scheme \<Rightarrow> bool" where
  "base_complete m \<longleftrightarrow> adv_topic m \<noteq> [] \<and> adv_addr m \<noteq> [] \<and> adv_nUuid m \<noteq> []"

definition SubscriptionMsg_wire :: "subscription_msg \<Rightarrow> string" where
  "SubscriptionMsg_wire m = header_wire (sub_header m) @ str_bytes (sub_topic m)"

definition AdvertiseBase_wire :: "'a advertise_base_scheme \<Rightarrow> string" where
  "AdvertiseBase_wire m = header_wire (adv_header m) @ base_wire m"

definition AdvertiseMsg_wire :: "advertise_msg \<Rightarrow> string" where
  "AdvertiseMsg_wire m = AdvertiseBase_wire m @ str_bytes (adv_msgTypeName m)"

definition AdvertiseSrv_wire :: "advertise_srv \<Rightarrow> string" where
  "AdvertiseSrv_wire m =
     AdvertiseBase_wire m @ str_bytes (adv_reqTypeName m) @ str_bytes (adv_repTypeName m)"

text \<open>
  A message fits when its size is below \<open>2 ^ 31\<close>, so that no length computation wraps; a
  datagram has at most 65535 bytes.
\<close>

definition fits :: "string \<Rightarrow> bool" where
  "fits w \<longleftrightarrow> length w < 2 ^ 31"

lemma fits_append: "fits (a @ b) \<Longrightarrow> fits a \<and> fits b"
  by (simp add: fits_def)

lemma fits_64: "fits w \<Longrightarrow> length w < 2 ^ 64"
  by (simp add: fits_def)

lemma fits_header_wire: "fits (header_wire h) \<longleftrightarrow> header_fits h"
  by (simp add: fits_def header_fits_def length_header_wire)

lemma fits_str_bytes: "fits (str_bytes s) \<Longrightarrow> str_ok s"
  by (simp add: fits_def str_ok_def)

lemma fits_base_wire:
  "fits (base_wire m) \<Longrightarrow>
     str_ok (adv_topic m) \<and> str_ok (adv_addr m) \<and> str_ok (adv_ctrl m) \<and> str_ok (adv_nUuid m)"
  by (auto simp: fits_def length_base_wire str_ok_def)

lemma advance_prefix:
  assumes "n = (of_nat (length a) :: size_t)" and "length a < 2 ^ 64"
  shows "advance n (Some (a @ r)) = Inr (a, r)"
  using assms by (simp add: advance_def unat_of_nat)

lemma unat_of_nat_64: "n < 2 ^ 64 \<Longrightarrow> unat (of_nat n :: size_t) = n"
  by (simp add: unat_of_nat)

lemma of_nat_pos_64:
  assumes "0 < n" and "n < 2 ^ 64"
  shows "(of_nat n :: size_t) \<noteq> 0"
proof
  assume "(of_nat n :: size_t) = 0"
  then have "unat (of_nat n :: size_t) = 0" by simp
  with assms show False by (simp add: unat_of_nat)
qed

lemma header_len_64:
  assumes "header_fits h"
  shows "scast (GetHeaderLength h) = (of_nat (length (header_wire h)) :: size_t)"
    and "(of_nat (length (header_wire h)) :: size_t) \<noteq> 0"
  using assms scast_GetHeaderLength [OF assms] of_nat_pos_64 [of "length (header_wire h)"]
  by (simp_all add: length_header_wire header_fits_def)

lemma put_at_end:
  "rbind (put bs (d, drop (length d) b)) (\<lambda>z. Inr (n, Some (fst z @ snd z))) =
     (if length bs \<le> length b - length d
      then Inr (n, Some (d @ bs @ drop (length (d @ bs)) b)) else Inl OutOfBounds)"
  by (simp add: put_def add.commute)

lemma SubscriptionMsg_Pack_wire:
  assumes "header_complete (sub_header m)" and "sub_topic m \<noteq> []"
    and "fits (SubscriptionMsg_wire m)" and "length (SubscriptionMsg_wire m) \<le> length b"
  shows "SubscriptionMsg_Pack m (Some b) =
     Inr (of_nat (length (SubscriptionMsg_wire m)),
       Some (SubscriptionMsg_wire m @ drop (length (SubscriptionMsg_wire m)) b))"
proof -
  let ?hw = "header_wire (sub_header m)"
  have f: "header_fits (sub_header m)" "str_ok (sub_topic m)"
    using fits_append [of ?hw "str_bytes (sub_topic m)"] assms(3)
    by (simp_all add: SubscriptionMsg_wire_def fits_header_wire fits_str_bytes)
  have len: "length ?hw < 2 ^ 64" "length ?hw \<le> length b"
    using assms(3,4) by (simp_all add: SubscriptionMsg_wire_def fits_def)
  have hp: "Header_Pack (sub_header m) (Some b) =
      Inr (scast (GetHeaderLength (sub_header m)), Some (?hw @ drop (length ?hw) b))"
    using assms(1) f len
    by (simp add: header_complete_def Header_Pack_wire header_fits_str_ok)
  have msglen: "SubscriptionMsg_GetMsgLength m = of_nat (length (SubscriptionMsg_wire m))"
    using f header_len_64 [OF f(1)]
    by (simp add: SubscriptionMsg_GetMsgLength_def SubscriptionMsg_wire_def str_len_def)
  have "length (str_bytes (sub_topic m)) \<le> length b - length ?hw"
    using assms(4) by (simp add: SubscriptionMsg_wire_def)
  then show ?thesis
    using assms(2) len msglen
    by (simp add: SubscriptionMsg_Pack_def hp header_len_64 [OF f(1)] advance_prefix
        put_str_eq f put_at_end) (simp add: SubscriptionMsg_wire_def)
qed

lemma AdvertiseBase_GetMsgLength_wire:
  assumes "header_fits (adv_header m)"
  shows "AdvertiseBase_GetMsgLength m = of_nat (length (AdvertiseBase_wire m))"
  using header_len_64 [OF assms]
  by (simp add: AdvertiseBase_GetMsgLength_def AdvertiseBase_wire_def length_base_wire str_len_def)

lemma AdvertiseBase_wire_pos: "0 < length (AdvertiseBase_wire m)"
  by (simp only: AdvertiseBase_wire_def length_append length_header_wire)

lemma AdvertiseBase_Pack_wire:
  assumes "header_complete (adv_header m)" and "base_complete m"
    and "fits (AdvertiseBase_wire m)" and "length (AdvertiseBase_wire m) \<le> length b"
  shows "AdvertiseBase_Pack m (Some b) =
     Inr (of_nat (length (AdvertiseBase_wire m)),
       Some (AdvertiseBase_wire m @ drop (length (AdvertiseBase_wire m)) b))"
proof -
  let ?hw = "header_wire (adv_header m)"
  have f: "header_fits (adv_header m)" "fits (base_wire m)"
    using fits_append [of ?hw "base_wire m"] assms(3)
    by (simp_all add: AdvertiseBase_wire_def fits_header_wire)
  have len: "length ?hw < 2 ^ 64" "length ?hw \<le> length b"
    and blen: "length (base_wire m) \<le> length b - length ?hw"
    using assms(3,4) by (simp_all add: AdvertiseBase_wire_def fits_def)
  have hp: "Header_Pack (adv_header m) (Some b) =
      Inr (scast (GetHeaderLength (adv_header m)), Some (?hw @ drop (length ?hw) b))"
    using assms(1) f len
    by (simp add: header_complete_def Header_Pack_wire header_fits_str_ok)
  have put: "AdvertiseBase_Pack m (Some b) =
      rbind (put (base_wire m) (?hw, drop (length ?hw) b))
        (\<lambda>z. Inr (AdvertiseBase_GetMsgLength m, Some (fst z @ snd z)))"
    using assms(2) len header_len_64 [OF f(1)] fits_base_wire [OF f(2)]
    by (simp add: AdvertiseBase_Pack_def hp base_complete_def advance_prefix put_str_eq put_put_k
        base_wire_def)
  show ?thesis
    using blen unfolding put put_at_end AdvertiseBase_GetMsgLength_wire [OF f(1)]
    by (simp add: AdvertiseBase_wire_def)
qed

lemma AdvertiseMsg_Pack_wire:
  assumes "header_complete (adv_header m)" and "base_complete m" and "adv_msgTypeName m \<noteq> []"
    and "fits (AdvertiseMsg_wire m)" and "length (AdvertiseMsg_wire m) \<le> length b"
  shows "AdvertiseMsg_Pack m (Some b) =
     Inr (of_nat (length (AdvertiseMsg_wire m)),
       Some (AdvertiseMsg_wire m @ drop (length (AdvertiseMsg_wire m)) b))"
proof -
  let ?w = "AdvertiseBase_wire m"
  have f: "fits ?w" "str_ok (adv_msgTypeName m)"
    using fits_append [of ?w "str_bytes (adv_msgTypeName m)"] assms(4)
    by (simp_all add: AdvertiseMsg_wire_def fits_str_bytes)
  then have hf: "header_fits (adv_header m)"
    using fits_append [of "header_wire (adv_header m)" "base_wire m"]
    by (simp add: AdvertiseBase_wire_def fits_header_wire)
  have len: "length ?w < 2 ^ 64" "length ?w \<le> length b" "0 < length ?w"
    and blen: "length (str_bytes (adv_msgTypeName m)) \<le> length b - length ?w"
    using assms(5) fits_64 [OF f(1)] AdvertiseBase_wire_pos [of m]
    by (simp_all add: AdvertiseMsg_wire_def)
  have msglen: "AdvertiseMsg_GetMsgLength m = of_nat (length (AdvertiseMsg_wire m))"
    by (simp add: AdvertiseMsg_GetMsgLength_def AdvertiseBase_GetMsgLength_wire [OF hf]
        AdvertiseMsg_wire_def str_len_def)
  have "AdvertiseMsg_Pack m (Some b) =
      rbind (put (str_bytes (adv_msgTypeName m)) (?w, drop (length ?w) b))
        (\<lambda>z. Inr (AdvertiseMsg_GetMsgLength m, Some (fst z @ snd z)))"
    using assms(3) len of_nat_pos_64 [of "length ?w"]
    by (simp add: AdvertiseMsg_Pack_def AdvertiseBase_Pack_wire [OF assms(1,2) f(1)]
        advance_prefix put_str_eq f)
  then show ?thesis
    using blen unfolding put_at_end msglen by (simp add: AdvertiseMsg_wire_def)
qed

lemma AdvertiseSrv_Pack_wire:
  assumes "header_complete (adv_header m)" and "base_complete m"
    and "adv_reqTypeName m \<noteq> []" and "adv_repTypeName m \<noteq> []"
    and "fits (AdvertiseSrv_wire m)" and "length (AdvertiseSrv_wire m) \<le> length b"
  shows "AdvertiseSrv_Pack m (Some b) =
     Inr (of_nat (length (AdvertiseSrv_wire m)),
       Some (AdvertiseSrv_wire m @ drop (length (AdvertiseSrv_wire m)) b))"
proof -
  let ?w = "AdvertiseBase_wire m"
  let ?t = "str_bytes (adv_reqTypeName m) @ str_bytes (adv_repTypeName m)"
  have f: "fits ?w" "str_ok (adv_reqTypeName m)" "str_ok (adv_repTypeName m)"
    using fits_append [of ?w ?t] fits_append [of "str_bytes (adv_reqTypeName m)"
        "str_bytes (adv_repTypeName m)"] assms(5)
    by (simp_all add: AdvertiseSrv_wire_def fits_str_bytes)
  then have hf: "header_fits (adv_header m)"
    using fits_append [of "header_wire (adv_header m)" "base_wire m"]
    by (simp add: AdvertiseBase_wire_def fits_header_wire)
  have len: "length ?w < 2 ^ 64" "length ?w \<le> length b" "0 < length ?w"
    and blen: "length ?t \<le> length b - length ?w"
    using assms(6) fits_64 [OF f(1)] AdvertiseBase_wire_pos [of m]
    by (simp_all add: AdvertiseSrv_wire_def)
  have msglen: "AdvertiseSrv_GetMsgLength m = of_nat (length (AdvertiseSrv_wire m))"
    by (simp add: AdvertiseSrv_GetMsgLength_def AdvertiseBase_GetMsgLength_wire [OF hf]
        AdvertiseSrv_wire_def str_len_def)
  have "AdvertiseSrv_Pack m (Some b) =
      rbind (put ?t (?w, drop (length ?w) b))
        (\<lambda>z. Inr (AdvertiseSrv_GetMsgLength m, Some (fst z @ snd z)))"
    using assms(3,4) len of_nat_pos_64 [of "length ?w"]
    by (simp add: AdvertiseSrv_Pack_def AdvertiseBase_Pack_wire [OF assms(1,2) f(1)]
        advance_prefix put_str_eq put_put_k f)
  then show ?thesis
    using blen unfolding put_at_end msglen by (simp add: AdvertiseSrv_wire_def)
qed

lemma SubscriptionMsg_UnpackBody_wire [codec_simps]:
  "str_ok topic \<Longrightarrow>
     SubscriptionMsg_UnpackBody m (Some (str_bytes topic @ r)) =
       Inr (of_nat (length (str_bytes topic)), m\<lparr>sub_topic := topic\<rparr>)"
  by (simp add: SubscriptionMsg_UnpackBody_def str.dec_enc) (simp add: str_len_def)

lemma AdvertiseMsg_UnpackBody_wire [codec_simps]:
  assumes "base_ok m" and "fits (base_wire m)" and "str_ok ty"
  shows "AdvertiseMsg_UnpackBody m0 (Some (base_wire m @ str_bytes ty @ r)) =
       Inr (of_nat (length (base_wire m @ str_bytes ty)),
         m0\<lparr>adv_topic := adv_topic m, adv_addr := adv_addr m, adv_ctrl := adv_ctrl m,
            adv_nUuid := adv_nUuid m, adv_scope := adv_scope m, adv_msgTypeName := ty\<rparr>)"
proof -
  have "(of_nat (length (base_wire m)) :: size_t) \<noteq> 0"
    using fits_64 [OF assms(2)] by (intro of_nat_pos_64) (simp_all only: length_base_wire)
  then show ?thesis
    using assms fits_64 [OF assms(2)]
    by (simp add: AdvertiseMsg_UnpackBody_def AdvertiseBase_UnpackBody_wire advance_prefix str.dec_enc
        Let_def AdvertiseMsg_GetMsgLength_def AdvertiseBase_GetMsgLength_def length_base_wire)
      (simp add: str_len_def)
qed

lemma AdvertiseSrv_UnpackBody_wire [codec_simps]:
  assumes "base_ok m" and "fits (base_wire m)" and "str_ok req" and "str_ok rep"
  shows "AdvertiseSrv_UnpackBody m0 (Some (base_wire m @ str_bytes req @ str_bytes rep @ r)) =
       Inr (of_nat (length (base_wire m @ str_bytes req @ str_bytes rep)),
         m0\<lparr>adv_topic := adv_topic m, adv_addr := adv_addr m, adv_ctrl := adv_ctrl m,
            adv_nUuid := adv_nUuid m, adv_scope := adv_scope m, adv_reqTypeName := req,
            adv_repTypeName := rep\<rparr>)"
proof -
  have "(of_nat (length (base_wire m)) :: size_t) \<noteq> 0"
    using fits_64 [OF assms(2)] by (intro of_nat_pos_64) (simp_all only: length_base_wire)
  then show ?thesis
    using assms fits_64 [OF assms(2)]
    by (simp add: AdvertiseSrv_UnpackBody_def AdvertiseBase_UnpackBody_wire advance_prefix str.dec_enc
        Let_def AdvertiseSrv_GetMsgLength_def AdvertiseBase_GetMsgLength_def length_base_wire)
      (simp add: str_len_def)
qed

text \<open>
  Reading a whole message the way the receivers do: unpack the header, move the pointer by
  \<^verbatim>\<open>GetHeaderLength\<close>, unpack the body.
\<close>

definition parse :: "(header \<Rightarrow> string option \<Rightarrow> (size_t \<times> 'm) res) \<Rightarrow> string \<Rightarrow> (size_t \<times> 'm) res" where
  "parse unpack_body b =
     rbind (Header_Unpack Header_default (Some b)) (\<lambda>(hn, h).
     rbind (advance (scast (GetHeaderLength h)) (Some b)) (\<lambda>(_, body).
     rbind (unpack_body h (Some body)) (\<lambda>(bn, m).
     Inr (hn + bn, m))))"

lemma parse_wire:
  assumes "header_fits h" and "unpack_body h (Some w) = Inr (n, m)"
  shows "parse unpack_body (header_wire h @ w) =
    Inr (of_nat (length (header_wire h)) + n, m)"
proof -
  have "length (header_wire h) < 2 ^ 64"
    using assms(1) by (simp add: length_header_wire header_fits_def)
  then show ?thesis
    using assms(2) header_len_64(1) [OF assms(1)]
    by (simp add: parse_def Header_Unpack_wire header_fits_str_ok [OF assms(1)] advance_prefix)
qed

subsection \<open>Properties\<close>

text \<open>
  A complete header packs into any buffer that is long enough, writes exactly its wire
  bytes and leaves the rest of the buffer, reports their number, and unpacking the buffer
  gives the header and the number back.
\<close>
theorem Header_roundtrip:
  assumes "header_complete h" and "header_fits h" and "13 + length (hdr_pUuid h) \<le> length b"
  shows "\<exists>n b'. Header_Pack h (Some b) = Inr (n, Some b') \<and>
    unat n = 13 + length (hdr_pUuid h) \<and>
    length b' = length b \<and> drop (unat n) b' = drop (unat n) b \<and>
    Header_Unpack h0 (Some b') = Inr (n, h)"
proof -
  let ?n = "scast (GetHeaderLength h) :: size_t" and ?w = "header_wire h"
  have "Header_Pack h (Some b) = Inr (?n, Some (?w @ drop (length ?w) b))"
    using assms by (simp add: Header_Pack_wire header_complete_def header_fits_str_ok length_header_wire)
  moreover have "unat ?n = length ?w"
    unfolding header_len_64(1) [OF assms(2)]
    using assms(2) by (intro unat_of_nat_64 fits_64) (simp add: fits_header_wire)
  moreover have "Header_Unpack h0 (Some (?w @ drop (length ?w) b)) = Inr (?n, h)"
    using assms(2) by (simp add: Header_Unpack_wire header_fits_str_ok)
  ultimately show ?thesis
    using assms(3) length_header_wire [of h] by auto
qed

theorem Header_roundtrip_witness:
  "\<exists>n b'. Header_Pack (Header_ctor 1 ''uuid'' AdvType 0) (Some (replicate 20 CHR ''x'')) = Inr (n, Some b') \<and>
    unat n = 13 + length (hdr_pUuid (Header_ctor 1 ''uuid'' AdvType 0)) \<and>
    length b' = length (replicate 20 CHR ''x'') \<and>
    drop (unat n) b' = drop (unat n) (replicate 20 CHR ''x'') \<and>
    Header_Unpack Header_default (Some b') = Inr (n, Header_ctor 1 ''uuid'' AdvType 0)"
  by (rule Header_roundtrip)
    (simp_all add: Header_ctor_simps header_complete_def header_fits_def msg_type_defs)

text \<open>
  C32: A complete advertisement of a topic packs into any buffer that is long enough, reports
  its size, and parsing the buffer (header, then the body at the header's length) gives the
  same message and the same size, whatever follows it in the buffer.
\<close>
theorem AdvertiseMsg_roundtrip:
  assumes "header_complete (adv_header m)" and "base_complete m" and "adv_msgTypeName m \<noteq> []"
    and "scope_ok (adv_scope m)" and "fits (AdvertiseMsg_wire m)"
    and "length (AdvertiseMsg_wire m) \<le> length b"
  shows "\<exists>n b'. AdvertiseMsg_Pack m (Some b) = Inr (n, Some b') \<and>
    unat n = length (AdvertiseMsg_wire m) \<and> length b' = length b \<and>
    parse (\<lambda>h. AdvertiseMsg_UnpackBody (AdvertiseMsg_default\<lparr>adv_header := h\<rparr>)) b' = Inr (n, m)"
proof -
  let ?hw = "header_wire (adv_header m)" and ?ty = "adv_msgTypeName m"
    and ?w = "AdvertiseMsg_wire m" and ?m0 = "AdvertiseMsg_default\<lparr>adv_header := adv_header m\<rparr>"
  let ?rest = "drop (length ?w) b"
  have w: "?w = ?hw @ base_wire m @ str_bytes ?ty"
    by (simp add: AdvertiseMsg_wire_def AdvertiseBase_wire_def)
  have f: "header_fits (adv_header m)" "fits (base_wire m)" "str_ok ?ty"
    using assms(5) by (auto simp: w fits_header_wire fits_str_bytes dest!: fits_append)
  have body: "AdvertiseMsg_UnpackBody ?m0 (Some (base_wire m @ str_bytes ?ty @ ?rest)) =
      Inr (of_nat (length (base_wire m @ str_bytes ?ty)), m)"
    using f assms(4) fits_base_wire [OF f(2)]
    by (simp add: AdvertiseMsg_UnpackBody_wire base_ok_def AdvertiseMsg_default_def)
  have "parse (\<lambda>h. AdvertiseMsg_UnpackBody (AdvertiseMsg_default\<lparr>adv_header := h\<rparr>)) (?w @ ?rest) =
      Inr (of_nat (length ?w), m)"
    using parse_wire [OF f(1), of "\<lambda>h. AdvertiseMsg_UnpackBody (AdvertiseMsg_default\<lparr>adv_header := h\<rparr>)"
        "base_wire m @ str_bytes ?ty @ ?rest", OF body]
    by (simp add: w)
  then show ?thesis
    using AdvertiseMsg_Pack_wire [OF assms(1,2,3,5,6)] fits_64 [OF assms(5)] assms(6)
    by (simp add: unat_of_nat_64)
qed

text \<open>A concrete advertisement, for the witnesses.\<close>

definition sample_adv :: advertise_msg where
  "sample_adv = AdvertiseMsg_ctor (Header_ctor 1 ''p1'' AdvType 0) ''@/t@/a'' ''tcp://a'' ''tcp://c''
     ''n1'' Host ''not used''"

lemmas sample_adv_simps =
  sample_adv_def AdvertiseMsg_ctor_def AdvertiseBase_ctor_def AdvertiseMsg_default_def
  Header_ctor_simps header_complete_def base_complete_def msg_type_defs AdvertiseMsg_wire_def
  AdvertiseBase_wire_def length_header_wire length_base_wire fits_def

theorem AdvertiseMsg_roundtrip_witness:
  "\<exists>n b'. AdvertiseMsg_Pack sample_adv (Some (replicate 120 CHR ''x'')) = Inr (n, Some b') \<and>
    unat n = length (AdvertiseMsg_wire sample_adv) \<and> length b' = length (replicate 120 CHR ''x'') \<and>
    parse (\<lambda>h. AdvertiseMsg_UnpackBody (AdvertiseMsg_default\<lparr>adv_header := h\<rparr>)) b' = Inr (n, sample_adv)"
  by (rule AdvertiseMsg_roundtrip) (simp_all add: sample_adv_simps)

text \<open>
  The same for an advertisement of a service, with the names of its two message types.
\<close>
theorem AdvertiseSrv_roundtrip:
  assumes "header_complete (adv_header m)" and "base_complete m"
    and "adv_reqTypeName m \<noteq> []" and "adv_repTypeName m \<noteq> []"
    and "scope_ok (adv_scope m)" and "fits (AdvertiseSrv_wire m)"
    and "length (AdvertiseSrv_wire m) \<le> length b"
  shows "\<exists>n b'. AdvertiseSrv_Pack m (Some b) = Inr (n, Some b') \<and>
    unat n = length (AdvertiseSrv_wire m) \<and> length b' = length b \<and>
    parse (\<lambda>h. AdvertiseSrv_UnpackBody (AdvertiseSrv_default\<lparr>adv_header := h\<rparr>)) b' = Inr (n, m)"
proof -
  let ?hw = "header_wire (adv_header m)" and ?req = "adv_reqTypeName m" and ?rep = "adv_repTypeName m"
    and ?w = "AdvertiseSrv_wire m" and ?m0 = "AdvertiseSrv_default\<lparr>adv_header := adv_header m\<rparr>"
  let ?rest = "drop (length ?w) b"
  have w: "?w = ?hw @ base_wire m @ str_bytes ?req @ str_bytes ?rep"
    by (simp add: AdvertiseSrv_wire_def AdvertiseBase_wire_def)
  have f: "header_fits (adv_header m)" "fits (base_wire m)" "str_ok ?req" "str_ok ?rep"
    using assms(6) by (auto simp: w fits_header_wire fits_str_bytes dest!: fits_append)
  have body: "AdvertiseSrv_UnpackBody ?m0
      (Some (base_wire m @ str_bytes ?req @ str_bytes ?rep @ ?rest)) =
      Inr (of_nat (length (base_wire m @ str_bytes ?req @ str_bytes ?rep)), m)"
    using f assms(5) fits_base_wire [OF f(2)]
    by (simp add: AdvertiseSrv_UnpackBody_wire base_ok_def AdvertiseSrv_default_def)
  have "parse (\<lambda>h. AdvertiseSrv_UnpackBody (AdvertiseSrv_default\<lparr>adv_header := h\<rparr>)) (?w @ ?rest) =
      Inr (of_nat (length ?w), m)"
    using parse_wire [OF f(1), of "\<lambda>h. AdvertiseSrv_UnpackBody (AdvertiseSrv_default\<lparr>adv_header := h\<rparr>)"
        "base_wire m @ str_bytes ?req @ str_bytes ?rep @ ?rest", OF body]
    by (simp add: w)
  then show ?thesis
    using AdvertiseSrv_Pack_wire [OF assms(1,2,3,4,6,7)] fits_64 [OF assms(6)] assms(7)
    by (simp add: unat_of_nat_64)
qed

definition sample_srv :: advertise_srv where
  "sample_srv = AdvertiseSrv_ctor (Header_ctor 1 ''p1'' AdvSrvType 0) ''@/t@/a'' ''tcp://a'' ''id''
     ''n1'' All ''Req'' ''Rep''"

theorem AdvertiseSrv_roundtrip_witness:
  "\<exists>n b'. AdvertiseSrv_Pack sample_srv (Some (replicate 120 CHR ''x'')) = Inr (n, Some b') \<and>
    unat n = length (AdvertiseSrv_wire sample_srv) \<and> length b' = length (replicate 120 CHR ''x'') \<and>
    parse (\<lambda>h. AdvertiseSrv_UnpackBody (AdvertiseSrv_default\<lparr>adv_header := h\<rparr>)) b' = Inr (n, sample_srv)"
  by (rule AdvertiseSrv_roundtrip)
    (simp_all add: sample_adv_simps sample_srv_def AdvertiseSrv_ctor_def AdvertiseSrv_default_def
      AdvertiseSrv_wire_def)

text \<open>
  The receiver's reads of a header are within the buffer exactly when the buffer starts
  with a well-formed header; any other buffer, in particular a truncated datagram or one
  whose length field is too large, makes \<^verbatim>\<open>Unpack\<close> read outside it.
\<close>
theorem Header_Unpack_total:
  "Header_Unpack h0 (Some b) = Inl OutOfBounds \<longleftrightarrow>
     (\<nexists>h r. b = header_wire h @ r \<and> str_ok (hdr_pUuid h))"
proof -
  have only: "e = OutOfBounds" if "Header_Unpack h0 (Some b) = Inl e" for e
    using that
    by (auto simp: Header_Unpack_def get_word_def get_str_def get_def rbind_eq_Inl_iff Let_def
        split: if_splits)
  have "(\<exists>x. Header_Unpack h0 (Some b) = Inr x) \<longleftrightarrow> (\<exists>h r. b = header_wire h @ r \<and> str_ok (hdr_pUuid h))"
    by (auto simp: Header_Unpack_iff split_paired_Ex)
  then show ?thesis
    using only by (cases "Header_Unpack h0 (Some b)") auto
qed

text \<open>
  Packing an incomplete header writes nothing and reports 0 bytes, unless its type is not
  a message type: then the error message itself throws, since it looks the type's name up.
\<close>
theorem Header_Pack_incomplete:
  assumes "\<not> header_complete h"
  shows "Header_Pack h buffer =
    (if unat (hdr_type h) \<le> 10 then Inr (0, buffer) else Inl Exn_out_of_range)"
  using assms
  by (auto simp: Header_Pack_def header_complete_def Header_print_def MsgTypesStr_at_def MsgTypesStr_def)

theorem Header_Pack_incomplete_witness:
  "Header_Pack (Header_ctor 1 '''' 200 0) (Some ''buffer'') = Inl Exn_out_of_range"
proof -
  have "\<not> header_complete (Header_ctor 1 '''' 200 0)"
    by (simp add: header_complete_def Header_ctor_simps)
  from Header_Pack_incomplete [OF this, of "Some ''buffer''"] show ?thesis
    by (simp add: Header_ctor_simps)
qed

end
