(* ===== verification/TopicStorage.thy ===== *)
theory TopicStorage
  imports TransportTypes
begin

text \<open>
  \<^verbatim>\<open>src/TopicStorage.cc\<close>: the address records known for each topic and process.  The storage
  is the map \<^verbatim>\<open>data\<close> from topics to maps from process UUIDs to vectors of address records.
  Operations that return a flag and change the storage give the pair of both.
\<close>

type_synonym topic_storage = "(string, addresses_m) std_map"

subsection \<open>Operations\<close>

definition AddAddress ::
    "string \<Rightarrow> string \<Rightarrow> string \<Rightarrow> string \<Rightarrow> string \<Rightarrow> scope \<Rightarrow> topic_storage
      \<Rightarrow> bool \<times> topic_storage" where
  "AddAddress topic a c pUuid n sc data =
     (let data = (if map_of data topic = None then map_put topic [] data else data);
          m = (case map_of data topic of Some m \<Rightarrow> m | None \<Rightarrow> []);
          v = (case map_of m pUuid of Some v \<Rightarrow> v | None \<Rightarrow> [])
      in if map_of m pUuid \<noteq> None \<and>
            List.find (\<lambda>i. addr i = a \<and> nUuid i = n) v \<noteq> None
         then (False, data)
         else (True,
           map_put topic
             (map_put pUuid (v @ [\<lparr>addr = a, ctrl = c, nUuid = n, scope = sc\<rparr>]) m) data))"

definition HasTopic :: "string \<Rightarrow> topic_storage \<Rightarrow> bool" where
  "HasTopic topic data \<longleftrightarrow> map_of data topic \<noteq> None"

definition HasAnyAddresses :: "string \<Rightarrow> string \<Rightarrow> topic_storage \<Rightarrow> bool" where
  "HasAnyAddresses topic pUuid data =
     (if \<not> HasTopic topic data then False
      else case map_of data topic of Some m \<Rightarrow> map_of m pUuid \<noteq> None | None \<Rightarrow> False)"

text \<open>The three nested loops of \<^verbatim>\<open>HasAddress\<close>.\<close>

fun has_address_vec :: "string \<Rightarrow> address list \<Rightarrow> bool" where
  "has_address_vec a [] = False"
| "has_address_vec a (info # v) = (if addr info = a then True else has_address_vec a v)"

fun has_address_procs :: "string \<Rightarrow> addresses_m \<Rightarrow> bool" where
  "has_address_procs a [] = False"
| "has_address_procs a ((_, v) # m) = (if has_address_vec a v then True else has_address_procs a m)"

fun HasAddress :: "string \<Rightarrow> topic_storage \<Rightarrow> bool" where
  "HasAddress a [] = False"
| "HasAddress a ((_, m) # data) = (if has_address_procs a m then True else HasAddress a data)"

definition GetAddress :: "string \<Rightarrow> string \<Rightarrow> string \<Rightarrow> topic_storage \<Rightarrow> address option" where
  "GetAddress topic pUuid n data =
     (case map_of data topic of
        None \<Rightarrow> None
      | Some m \<Rightarrow>
          (case map_of m pUuid of
             None \<Rightarrow> None
           | Some v \<Rightarrow> List.find (\<lambda>i. nUuid i = n) v))"

definition GetAddresses :: "string \<Rightarrow> topic_storage \<Rightarrow> addresses_m option" where
  "GetAddresses topic data = (if \<not> HasTopic topic data then None else map_of data topic)"

definition DelAddressByNode ::
    "string \<Rightarrow> string \<Rightarrow> string \<Rightarrow> topic_storage \<Rightarrow> bool \<times> topic_storage" where
  "DelAddressByNode topic pUuid n data =
     (case map_of data topic of
        None \<Rightarrow> (False, data)
      | Some m \<Rightarrow>
          (case map_of m pUuid of
             None \<Rightarrow> (False, data)
           | Some v \<Rightarrow>
               let priorSize = length v;
                   v = filter (\<lambda>i. nUuid i \<noteq> n) v;
                   counter = priorSize - length v;
                   m = map_put pUuid v m;
                   m = (if v = [] then map_erase pUuid m else m);
                   data = map_put topic m data;
                   data = (if m = [] then map_erase topic data else data)
               in (counter > 0, data)))"

text \<open>
  The loop over all topics: \<^verbatim>\<open>counter\<close> is assigned in every round, so what the function
  returns is the number erased in the last one.
\<close>

fun del_by_proc_loop :: "string \<Rightarrow> nat \<Rightarrow> topic_storage \<Rightarrow> nat \<times> topic_storage" where
  "del_by_proc_loop pUuid counter [] = (counter, [])"
| "del_by_proc_loop pUuid counter ((topic, m) # rest) =
     (let counter = map_count pUuid m;
          m = map_erase pUuid m;
          (c, rest) = del_by_proc_loop pUuid counter rest
      in (c, if m = [] then rest else (topic, m) # rest))"

definition DelAddressesByProc :: "string \<Rightarrow> topic_storage \<Rightarrow> bool \<times> topic_storage" where
  "DelAddressesByProc pUuid data =
     (let (counter, data) = del_by_proc_loop pUuid 0 data in (counter > 0, data))"

text \<open>\<^verbatim>\<open>_nodes[topic].push_back(info)\<close> for every record of the process, over all topics.\<close>

definition push_node ::
    "string \<Rightarrow> address \<Rightarrow> (string, address list) std_map \<Rightarrow> (string, address list) std_map" where
  "push_node topic info nodes =
     map_put topic ((case map_of nodes topic of Some v \<Rightarrow> v | None \<Rightarrow> []) @ [info]) nodes"

fun by_proc_loop ::
    "string \<Rightarrow> topic_storage \<Rightarrow> (string, address list) std_map \<Rightarrow> (string, address list) std_map" where
  "by_proc_loop pUuid [] nodes = nodes"
| "by_proc_loop pUuid ((topic, m) # rest) nodes =
     by_proc_loop pUuid rest
       (case map_of m pUuid of
          None \<Rightarrow> nodes
        | Some v \<Rightarrow> fold (push_node topic) v nodes)"

definition GetAddressesByProc :: "string \<Rightarrow> topic_storage \<Rightarrow> (string, address list) std_map" where
  "GetAddressesByProc pUuid data = by_proc_loop pUuid data []"

definition TopicStorage_GetTopicList :: "topic_storage \<Rightarrow> string list \<Rightarrow> string list" where
  "TopicStorage_GetTopicList data topics = fold (\<lambda>topic topics. topics @ [fst topic]) data topics"

subsection \<open>Well-formed storages and what they hold\<close>

text \<open>The records of one process for one topic, empty when there are none.\<close>

definition vec :: "topic_storage \<Rightarrow> string \<Rightarrow> string \<Rightarrow> address list" where
  "vec data t p =
     (case map_of data t of None \<Rightarrow> [] | Some m \<Rightarrow> (case map_of m p of None \<Rightarrow> [] | Some v \<Rightarrow> v))"

text \<open>
  No key without content (a topic has a process, a process has a record), and a node has at
  most one record with the same address.
\<close>

definition procs_ok :: "addresses_m \<Rightarrow> bool" where
  "procs_ok m \<longleftrightarrow> map_ok m \<and> m \<noteq> [] \<and>
     (\<forall>p v. map_of m p = Some v \<longrightarrow> v \<noteq> [] \<and> distinct (map (\<lambda>i. (addr i, nUuid i)) v))"

definition storage_ok :: "topic_storage \<Rightarrow> bool" where
  "storage_ok data \<longleftrightarrow> map_ok data \<and> (\<forall>t m. map_of data t = Some m \<longrightarrow> procs_ok m)"

lemma storage_ok_Nil [simp, wf_intros]: "storage_ok []"
  by (simp add: storage_ok_def)

lemma storage_ok_map_ok: "storage_ok data \<Longrightarrow> map_ok data"
  by (simp add: storage_ok_def)

lemma storage_okD: "storage_ok data \<Longrightarrow> map_of data t = Some m \<Longrightarrow> procs_ok m"
  by (simp add: storage_ok_def)

lemma procs_okD: "procs_ok m \<Longrightarrow> map_of m p = Some v \<Longrightarrow> v \<noteq> []"
  by (simp add: procs_ok_def)

lemma procs_ok_ex: "procs_ok m \<Longrightarrow> \<exists>p v. map_of m p = Some v \<and> v \<noteq> []"
  by (metis procs_ok_def list.exhaust map_of_Cons_code(2) surj_pair)

lemma vec_Nil [simp]: "vec [] t p = []"
  by (simp add: vec_def)

lemma vec_distinct:
  "storage_ok data \<Longrightarrow> distinct (map (\<lambda>i. (addr i, nUuid i)) (vec data t p))"
  by (auto simp: vec_def storage_ok_def procs_ok_def split: option.split)

lemma lookup_proc_iff:
  "storage_ok data \<Longrightarrow> map_of data t = Some m \<Longrightarrow>
     map_of m p = (if vec data t p = [] then None else Some (vec data t p))"
  using storage_okD [of data t m] procs_okD [of m p]
  by (auto simp: vec_def split: option.splits)

lemma HasTopic_iff: "storage_ok data \<Longrightarrow> HasTopic t data \<longleftrightarrow> (\<exists>p. vec data t p \<noteq> [])"
proof (cases "map_of data t")
  case None
  then show ?thesis by (simp add: HasTopic_def vec_def)
next
  case (Some m)
  assume "storage_ok data"
  from procs_ok_ex [OF storage_okD [OF this Some]] obtain p v where "map_of m p = Some v" "v \<noteq> []"
    by blast
  then have "vec data t p \<noteq> []" using Some by (simp add: vec_def)
  with Some show ?thesis by (auto simp: HasTopic_def)
qed

text \<open>A well-formed storage is determined by its records.\<close>

lemma procs_eq:
  assumes "procs_ok m" and "procs_ok m'"
    and "\<And>p. (case map_of m p of None \<Rightarrow> [] | Some v \<Rightarrow> v) = (case map_of m' p of None \<Rightarrow> [] | Some v \<Rightarrow> v)"
  shows "m = m'"
proof (rule map_ok_ext)
  show "map_ok m" "map_ok m'" using assms(1,2) by (simp_all add: procs_ok_def)
  have "map_of m p = map_of m' p" for p
    using assms(3) [of p] procs_okD [OF assms(1), of p] procs_okD [OF assms(2), of p]
    by (auto split: option.splits)
  then show "map_of m = map_of m'" ..
qed

lemma storage_eq:
  assumes "storage_ok s" and "storage_ok s'" and "\<And>t p. vec s t p = vec s' t p"
  shows "s = s'"
proof (rule map_ok_ext)
  show "map_ok s" "map_ok s'" using assms(1,2) by (simp_all add: storage_ok_def)
  have "map_of s t = map_of s' t" for t
  proof (cases "map_of s t")
    case None
    then show ?thesis
      using HasTopic_iff [OF assms(1), of t] HasTopic_iff [OF assms(2), of t] assms(3)
      by (simp add: HasTopic_def)
  next
    case (Some m)
    then obtain m' where m': "map_of s' t = Some m'"
      using HasTopic_iff [OF assms(1), of t] HasTopic_iff [OF assms(2), of t] assms(3)
      by (auto simp: HasTopic_def)
    have "m = m'"
      using storage_okD [OF assms(1) Some] storage_okD [OF assms(2) m']
    proof (rule procs_eq)
      show "(case map_of m p of None \<Rightarrow> [] | Some v \<Rightarrow> v) = (case map_of m' p of None \<Rightarrow> [] | Some v \<Rightarrow> v)" for p
        using assms(3) [of t p] Some m' by (simp add: vec_def)
    qed
    with Some m' show ?thesis by simp
  qed
  then show "map_of s = map_of s'" ..
qed

subsection \<open>The effect of each operation on the records\<close>

lemma vec_put_topic:
  "vec (map_put t m data) t' p' =
     (if t' = t then (case map_of m p' of None \<Rightarrow> [] | Some v \<Rightarrow> v) else vec data t' p')"
  by (simp add: vec_def)

lemma procs_ok_put:
  assumes "m = [] \<or> procs_ok m" and "v \<noteq> []" and "distinct (map (\<lambda>i. (addr i, nUuid i)) v)"
  shows "procs_ok (map_put p v m)"
  using assms by (auto simp: procs_ok_def map_ok_put)

lemma storage_ok_put:
  assumes "storage_ok data" and "procs_ok m"
  shows "storage_ok (map_put t m data)"
  using assms by (auto simp: storage_ok_def map_ok_put)

lemma storage_ok_erase: "storage_ok data \<Longrightarrow> storage_ok (map_erase t data)"
  by (auto simp: storage_ok_def map_ok_erase)

definition has_record :: "topic_storage \<Rightarrow> string \<Rightarrow> string \<Rightarrow> string \<Rightarrow> string \<Rightarrow> bool" where
  "has_record data t p a n \<longleftrightarrow> (\<exists>i \<in> set (vec data t p). addr i = a \<and> nUuid i = n)"

lemma AddAddress_eq:
  assumes "storage_ok data"
  shows "AddAddress t a c p n sc data =
    (if has_record data t p a n then (False, data)
     else (True, map_put t (map_put p (vec data t p @ [\<lparr>addr = a, ctrl = c, nUuid = n, scope = sc\<rparr>])
            (case map_of data t of None \<Rightarrow> [] | Some m \<Rightarrow> m)) data))"
proof (cases "map_of data t")
  case None
  then show ?thesis
    by (simp add: AddAddress_def has_record_def vec_def map_put_put)
next
  case (Some m)
  have "List.find (\<lambda>i. addr i = a \<and> nUuid i = n) (vec data t p) \<noteq> None \<longleftrightarrow> has_record data t p a n"
    by (auto simp: has_record_def find_None_iff)
  moreover have "map_of m p = None \<Longrightarrow> \<not> has_record data t p a n"
    using Some by (simp add: has_record_def vec_def)
  moreover have "map_of m p = Some v \<Longrightarrow> v = vec data t p" for v
    using Some by (simp add: vec_def)
  ultimately show ?thesis
    using Some by (cases "map_of m p") (auto simp: AddAddress_def Let_def vec_def)
qed

lemma vec_AddAddress:
  assumes "storage_ok data"
  shows "vec (snd (AddAddress t a c p n sc data)) t' p' =
    (if t' = t \<and> p' = p \<and> \<not> has_record data t p a n
     then vec data t p @ [\<lparr>addr = a, ctrl = c, nUuid = n, scope = sc\<rparr>] else vec data t' p')"
  by (auto simp: AddAddress_eq [OF assms] vec_put_topic) (simp add: vec_def split: option.split)

lemma storage_ok_AddAddress:
  assumes "storage_ok data"
  shows "storage_ok (snd (AddAddress t a c p n sc data))"
proof (cases "has_record data t p a n")
  case True
  then show ?thesis using assms by (simp add: AddAddress_eq)
next
  case False
  have "(a, n) \<notin> (\<lambda>i. (addr i, nUuid i)) ` set (vec data t p)"
    using False by (auto simp: has_record_def)
  then have "procs_ok (map_put p (vec data t p @ [\<lparr>addr = a, ctrl = c, nUuid = n, scope = sc\<rparr>])
      (case map_of data t of None \<Rightarrow> [] | Some m \<Rightarrow> m))"
    using vec_distinct [OF assms, of t p] storage_okD [OF assms, of t]
    by (intro procs_ok_put) (auto split: option.splits)
  with False assms show ?thesis by (simp add: AddAddress_eq storage_ok_put)
qed

lemma DelAddressByNode_eq:
  assumes "storage_ok data"
  shows "DelAddressByNode t p n data =
    (if vec data t p = [] then (False, data)
     else
       let v = filter (\<lambda>i. nUuid i \<noteq> n) (vec data t p);
           m = the (map_of data t);
           m' = (if v = [] then map_erase p m else map_put p v m)
       in (\<exists>i \<in> set (vec data t p). nUuid i = n,
           if m' = [] then map_erase t data else map_put t m' data))"
proof (cases "map_of data t")
  case None
  then show ?thesis by (simp add: DelAddressByNode_def vec_def)
next
  case (Some m)
  have [simp]: "map_erase p (map_put p v m) = map_erase p m" for v
    by (induction m) (auto simp: map_erase_def)
  have [simp]: "map_erase t (map_put t m' data) = map_erase t data" for m'
    by (induction data) (auto simp: map_erase_def)
  have "0 < length v - length (filter (\<lambda>i. nUuid i \<noteq> n) v) \<longleftrightarrow> (\<exists>i \<in> set v. nUuid i = n)" for v
    by (simp add: length_filter_less_iff)
  then show ?thesis
    using Some lookup_proc_iff [OF assms Some, of p]
    by (auto simp: DelAddressByNode_def Let_def filter_empty_conv) (metis list.set_sel(1))
qed

lemma vec_DelAddressByNode:
  assumes "storage_ok data"
  shows "vec (snd (DelAddressByNode t p n data)) t' p' =
    (if t' = t \<and> p' = p then filter (\<lambda>i. nUuid i \<noteq> n) (vec data t p) else vec data t' p')"
  by (auto simp: DelAddressByNode_eq [OF assms] Let_def vec_def map_erase_eq_Nil_iff
      split: option.splits)

lemma procs_ok_erase: "procs_ok m \<Longrightarrow> map_erase p m \<noteq> [] \<Longrightarrow> procs_ok (map_erase p m)"
  by (auto simp: procs_ok_def map_ok_erase)

lemma distinct_map_filter_key: "distinct (map f v) \<Longrightarrow> distinct (map f (filter P v))"
  by (rule distinct_map_filter)

lemma storage_ok_DelAddressByNode:
  assumes "storage_ok data"
  shows "storage_ok (snd (DelAddressByNode t p n data))"
proof (cases "vec data t p = []")
  case True
  then show ?thesis using assms by (simp add: DelAddressByNode_eq)
next
  case False
  then obtain m where m: "map_of data t = Some m" by (auto simp: vec_def split: option.splits)
  let ?v = "filter (\<lambda>i. nUuid i \<noteq> n) (vec data t p)"
  let ?m = "if ?v = [] then map_erase p m else map_put p ?v m"
  have "?m \<noteq> [] \<Longrightarrow> procs_ok ?m"
    using storage_okD [OF assms m] vec_distinct [OF assms, of t p]
    by (auto simp: distinct_map_filter intro: procs_ok_erase procs_ok_put)
  then show ?thesis
    using assms False m
    by (auto simp: DelAddressByNode_eq Let_def intro: storage_ok_put storage_ok_erase)
qed

lemma del_by_proc_loop_eq:
  "snd (del_by_proc_loop p c data) =
     filter (\<lambda>e. snd e \<noteq> []) (map (\<lambda>e. (fst e, map_erase p (snd e))) data)"
  by (induction data arbitrary: c) (auto simp: Let_def case_prod_beta)

lemma del_by_proc_loop_counter:
  "fst (del_by_proc_loop p c data) = (if data = [] then c else map_count p (snd (last data)))"
  by (induction data arbitrary: c) (auto simp: Let_def case_prod_beta)

lemma map_of_map_filter:
  assumes "distinct (map fst m)"
  shows "map_of (filter (\<lambda>e. snd e \<noteq> []) (map (\<lambda>e. (fst e, f (snd e))) m)) k =
    (case map_of m k of None \<Rightarrow> None | Some v \<Rightarrow> if f v = [] then None else Some (f v))"
  using assms
  by (induction m) (auto simp: map_of_eq_None_iff [THEN iffD2] image_image
      split: option.split dest: map_of_SomeD)

lemma map_of_del_by_proc:
  assumes "storage_ok data"
  shows "map_of (snd (DelAddressesByProc p data)) t =
    (case map_of data t of None \<Rightarrow> None
     | Some m \<Rightarrow> if map_erase p m = [] then None else Some (map_erase p m))"
  using map_of_map_filter [OF map_ok_distinct [OF storage_ok_map_ok [OF assms]], of "map_erase p" t]
  by (simp add: DelAddressesByProc_def del_by_proc_loop_eq case_prod_beta)

lemma vec_DelAddressesByProc:
  assumes "storage_ok data"
  shows "vec (snd (DelAddressesByProc p data)) t' p' = (if p' = p then [] else vec data t' p')"
  by (auto simp: vec_def map_of_del_by_proc [OF assms] map_erase_eq_Nil_iff split: option.split)

lemma storage_ok_DelAddressesByProc:
  assumes "storage_ok data"
  shows "storage_ok (snd (DelAddressesByProc p data))"
proof -
  have "map_ok (snd (DelAddressesByProc p data))"
    using storage_ok_map_ok [OF assms]
    unfolding DelAddressesByProc_def Let_def case_prod_beta snd_conv del_by_proc_loop_eq
    by (intro map_ok_filter) (simp add: map_ok_def comp_def)
  then show ?thesis
    using storage_okD [OF assms]
    by (auto simp: storage_ok_def map_of_del_by_proc [OF assms] intro: procs_ok_erase
        split: option.splits if_splits)
qed

lemmas storage_ok_ops [wf_intros] =
  storage_ok_AddAddress storage_ok_DelAddressByNode storage_ok_DelAddressesByProc

subsection \<open>The contract the clients of a storage rely on\<close>

text \<open>
  Discovery keeps two storages and \<^verbatim>\<open>NodeShared\<close> two more.  They use them through this
  contract: what the records of a topic and process are after each operation.
\<close>

locale registry =
  fixes new :: 's
    and add :: "string \<Rightarrow> string \<Rightarrow> string \<Rightarrow> string \<Rightarrow> string \<Rightarrow> scope \<Rightarrow> 's \<Rightarrow> bool \<times> 's"
    and del_node :: "string \<Rightarrow> string \<Rightarrow> string \<Rightarrow> 's \<Rightarrow> bool \<times> 's"
    and del_proc :: "string \<Rightarrow> 's \<Rightarrow> bool \<times> 's"
    and recs :: "'s \<Rightarrow> string \<Rightarrow> string \<Rightarrow> address list"
    and ok :: "'s \<Rightarrow> bool"
  assumes ok_new: "ok new"
    and ok_add: "ok s \<Longrightarrow> ok (snd (add t a c p n sc s))"
    and ok_del_node: "ok s \<Longrightarrow> ok (snd (del_node t p n s))"
    and ok_del_proc: "ok s \<Longrightarrow> ok (snd (del_proc p s))"
    and recs_new: "recs new t p = []"
    and recs_add: "ok s \<Longrightarrow> recs (snd (add t a c p n sc s)) t' p' =
      (if t' = t \<and> p' = p \<and> \<not> (\<exists>i \<in> set (recs s t p). addr i = a \<and> nUuid i = n)
       then recs s t p @ [\<lparr>addr = a, ctrl = c, nUuid = n, scope = sc\<rparr>] else recs s t' p')"
    and add_flag: "ok s \<Longrightarrow> fst (add t a c p n sc s) \<longleftrightarrow>
      \<not> (\<exists>i \<in> set (recs s t p). addr i = a \<and> nUuid i = n)"
    and recs_del_node: "ok s \<Longrightarrow> recs (snd (del_node t p n s)) t' p' =
      (if t' = t \<and> p' = p then filter (\<lambda>i. nUuid i \<noteq> n) (recs s t p) else recs s t' p')"
    and recs_del_proc: "ok s \<Longrightarrow> recs (snd (del_proc p s)) t' p' =
      (if p' = p then [] else recs s t' p')"
    and recs_ext: "ok s \<Longrightarrow> ok s' \<Longrightarrow> (\<And>t p. recs s t p = recs s' t p) \<Longrightarrow> s = s'"
begin

text \<open>A process is known when it has a record for some topic.\<close>

definition knows :: "'s \<Rightarrow> string \<Rightarrow> bool" where
  "knows s p \<longleftrightarrow> (\<exists>t. recs s t p \<noteq> [])"

lemma knows_new: "\<not> knows new p"
  by (simp add: knows_def recs_new)

lemma knows_add: "ok s \<Longrightarrow> knows (snd (add t a c p n sc s)) q \<Longrightarrow> q = p \<or> knows s q"
  by (auto simp: knows_def recs_add split: if_splits)

lemma knows_del_node: "ok s \<Longrightarrow> knows (snd (del_node t p n s)) q \<Longrightarrow> knows s q"
  by (auto simp: knows_def recs_del_node filter_empty_conv split: if_splits)
    (metis list.set_intros(1) list.exhaust empty_iff empty_set)

lemma knows_del_proc: "ok s \<Longrightarrow> knows (snd (del_proc p s)) q \<longleftrightarrow> q \<noteq> p \<and> knows s q"
  by (auto simp: knows_def recs_del_proc)

lemma add_again:
  "ok s \<Longrightarrow> add t a c' p n sc' (snd (add t a c p n sc s)) = (False, snd (add t a c p n sc s))"
proof -
  assume s: "ok s"
  let ?s = "snd (add t a c p n sc s)"
  have present: "\<exists>i \<in> set (recs ?s t p). addr i = a \<and> nUuid i = n"
    using s by (auto simp: recs_add)
  have "\<not> fst (add t a c' p n sc' ?s)"
    using s present by (simp add: add_flag ok_add)
  moreover have "snd (add t a c' p n sc' ?s) = ?s"
  proof (rule recs_ext)
    show "ok (snd (add t a c' p n sc' ?s))" "ok ?s" using s by (simp_all add: ok_add)
    show "recs (snd (add t a c' p n sc' ?s)) t' p' = recs ?s t' p'" for t' p'
      using present s by (simp add: recs_add [of ?s] ok_add)
  qed
  ultimately show ?thesis by (cases "add t a c' p n sc' ?s") simp
qed

lemma del_node_absent:
  assumes "ok s" and "\<forall>i \<in> set (recs s t p). nUuid i \<noteq> n"
  shows "snd (del_node t p n s) = s"
  using assms by (intro recs_ext) (auto simp: ok_del_node recs_del_node)

lemma del_proc_unknown: "ok s \<Longrightarrow> \<not> knows s p \<Longrightarrow> snd (del_proc p s) = s"
  by (intro recs_ext) (auto simp: ok_del_proc recs_del_proc knows_def)

lemma del_proc_commute:
  "ok s \<Longrightarrow> snd (del_proc p (snd (del_proc q s))) = snd (del_proc q (snd (del_proc p s)))"
  by (intro recs_ext) (auto simp: ok_del_proc recs_del_proc)

lemma add_del_node:
  assumes "ok s" and "\<forall>i \<in> set (recs s t p). nUuid i \<noteq> n"
  shows "snd (del_node t p n (snd (add t a c p n sc s))) = s"
  using assms by (intro recs_ext) (auto simp: ok_add ok_del_node recs_add recs_del_node)

end

interpretation ts: registry "[]" AddAddress DelAddressByNode DelAddressesByProc vec storage_ok
proof unfold_locales
  show "fst (AddAddress t a c p n sc s) \<longleftrightarrow> \<not> (\<exists>i \<in> set (vec s t p). addr i = a \<and> nUuid i = n)"
    if "storage_ok s" for t a c p n sc and s :: topic_storage
    using that by (simp add: AddAddress_eq has_record_def)
qed (simp_all add: wf_intros vec_AddAddress vec_DelAddressByNode vec_DelAddressesByProc
    has_record_def storage_eq)

subsection \<open>Queries\<close>

lemma HasAnyAddresses_iff:
  "storage_ok data \<Longrightarrow> HasAnyAddresses t p data \<longleftrightarrow> vec data t p \<noteq> []"
  using lookup_proc_iff [of data t _ p]
  by (auto simp: HasAnyAddresses_def HasTopic_def vec_def split: option.splits)

lemma GetAddress_eq: "GetAddress t p n data = List.find (\<lambda>i. nUuid i = n) (vec data t p)"
  by (simp add: GetAddress_def vec_def split: option.split)

lemma GetAddresses_eq: "GetAddresses t data = map_of data t"
  by (simp add: GetAddresses_def HasTopic_def)

lemma has_address_vec_iff: "has_address_vec a v \<longleftrightarrow> (\<exists>i \<in> set v. addr i = a)"
  by (induction v) auto

lemma has_address_procs_iff: "has_address_procs a m \<longleftrightarrow> (\<exists>e \<in> set m. \<exists>i \<in> set (snd e). addr i = a)"
  by (induction a m rule: has_address_procs.induct) (simp_all add: has_address_vec_iff)

lemma HasAddress_entries:
  "HasAddress a data \<longleftrightarrow> (\<exists>d \<in> set data. \<exists>e \<in> set (snd d). \<exists>i \<in> set (snd e). addr i = a)"
  by (induction a data rule: HasAddress.induct) (simp_all add: has_address_procs_iff)

lemma HasAddress_iff:
  assumes "storage_ok data"
  shows "HasAddress a data \<longleftrightarrow> (\<exists>t p. \<exists>i \<in> set (vec data t p). addr i = a)"
proof -
  have *: "(t, m) \<in> set data \<longleftrightarrow> map_of data t = Some m" for t m
    using map_ok_in_set_iff [OF storage_ok_map_ok [OF assms]] .
  have **: "(p, v) \<in> set m \<longleftrightarrow> map_of m p = Some v" if "map_of data t = Some m" for t m p v
    using storage_okD [OF assms that] by (simp add: procs_ok_def map_ok_in_set_iff)
  show ?thesis
  proof
    assume "HasAddress a data"
    then obtain t m p v i where "(t, m) \<in> set data" "(p, v) \<in> set m" "i \<in> set v" "addr i = a"
      by (auto simp: HasAddress_entries)
    then have "i \<in> set (vec data t p)" using * ** by (simp add: vec_def)
    with \<open>addr i = a\<close> show "\<exists>t p. \<exists>i \<in> set (vec data t p). addr i = a" by blast
  next
    assume "\<exists>t p. \<exists>i \<in> set (vec data t p). addr i = a"
    then obtain t p i where i: "i \<in> set (vec data t p)" "addr i = a" by blast
    then obtain m v where mv: "map_of data t = Some m" "map_of m p = Some v" "i \<in> set v"
      by (cases "map_of data t"; cases "map_of (the (map_of data t)) p") (simp_all add: vec_def)
    then have "(t, m) \<in> set data" "(p, v) \<in> set m" using * ** by simp_all
    then show "HasAddress a data"
      using mv(3) i(2) unfolding HasAddress_entries by (metis snd_conv)
  qed
qed

subsection \<open>Collecting the records of one process\<close>

lemma fold_push_node:
  "map_of (fold (push_node t) v nodes) k =
     (if k = t \<and> v \<noteq> [] then Some ((case map_of nodes t of None \<Rightarrow> [] | Some w \<Rightarrow> w) @ v)
      else map_of nodes k)"
  by (induction v arbitrary: nodes) (auto simp: push_node_def split: option.split)

lemma map_ok_fold_push_node: "map_ok nodes \<Longrightarrow> map_ok (fold (push_node t) v nodes)"
  by (induction v arbitrary: nodes) (simp_all add: push_node_def map_ok_put)

lemma by_proc_loop_ok: "map_ok nodes \<Longrightarrow> map_ok (by_proc_loop p data nodes)"
  by (induction p data nodes rule: by_proc_loop.induct)
    (simp_all add: map_ok_fold_push_node split: option.split)

lemma by_proc_loop_lookup:
  assumes "distinct (map fst data)" and "\<And>t. t \<in> fst ` set data \<Longrightarrow> map_of nodes t = None"
  shows "map_of (by_proc_loop p data nodes) t =
    (if vec data t p = [] then map_of nodes t else Some (vec data t p))"
  using assms
proof (induction p data nodes rule: by_proc_loop.induct)
  case (1 p nodes)
  then show ?case by simp
next
  case (2 p topic m rest nodes)
  let ?n = "case map_of m p of None \<Rightarrow> nodes | Some v \<Rightarrow> fold (push_node topic) v nodes"
  have new: "map_of ?n k = (if k = topic \<and> vec [(topic, m)] topic p \<noteq> []
      then Some (vec [(topic, m)] topic p) else map_of nodes k)" for k
    using "2.prems"(2) [of topic] by (auto simp: vec_def fold_push_node split: option.split)
  have "vec rest topic p = []"
    using "2.prems"(1) map_of_eq_None_iff [of rest topic] by (auto simp: vec_def)
  moreover have "map_of (by_proc_loop p rest ?n) t =
      (if vec rest t p = [] then map_of ?n t else Some (vec rest t p))"
  proof (rule "2.IH")
    show "distinct (map fst rest)" using "2.prems"(1) by simp
    show "map_of ?n k = None" if "k \<in> fst ` set rest" for k
      using that "2.prems" by (subst new) auto
  qed
  ultimately show ?case
    using new [of t] by (simp add: vec_def)
qed

lemma by_proc_in_set:
  assumes "storage_ok data"
  shows "(t, v) \<in> set (GetAddressesByProc p data) \<longleftrightarrow> v = vec data t p \<and> v \<noteq> []"
proof -
  have "map_ok (GetAddressesByProc p data)"
    by (simp add: GetAddressesByProc_def by_proc_loop_ok)
  then show ?thesis
    using by_proc_loop_lookup [OF map_ok_distinct [OF storage_ok_map_ok [OF assms]], of "[]" p t]
    by (auto simp: map_ok_in_set_iff GetAddressesByProc_def)
qed

subsection \<open>Histories of operations and what they leave\<close>

datatype storage_op =
    OpAdd string string string string string scope
  | OpDelNode string string string
  | OpDelProc string

fun storage_step :: "storage_op \<Rightarrow> topic_storage \<Rightarrow> topic_storage" where
  "storage_step (OpAdd t a c p n sc) s = snd (AddAddress t a c p n sc s)"
| "storage_step (OpDelNode t p n) s = snd (DelAddressByNode t p n s)"
| "storage_step (OpDelProc p) s = snd (DelAddressesByProc p s)"

text \<open>The specification: a table of record lists, with the same operations stated on it.\<close>

type_synonym record_table = "string \<Rightarrow> string \<Rightarrow> address list"

fun table_step :: "storage_op \<Rightarrow> record_table \<Rightarrow> record_table" where
  "table_step (OpAdd t a c p n sc) f =
     (if \<exists>i \<in> set (f t p). addr i = a \<and> nUuid i = n then f
      else f(t := (f t)(p := f t p @ [\<lparr>addr = a, ctrl = c, nUuid = n, scope = sc\<rparr>])))"
| "table_step (OpDelNode t p n) f = f(t := (f t)(p := filter (\<lambda>i. nUuid i \<noteq> n) (f t p)))"
| "table_step (OpDelProc p) f = (\<lambda>t. (f t)(p := []))"

lemma storage_step_ok: "storage_ok s \<Longrightarrow> storage_ok (storage_step x s)"
  by (cases x) (simp_all add: wf_intros)

lemma storage_step_vec: "storage_ok s \<Longrightarrow> vec (storage_step x s) = table_step x (vec s)"
  by (cases x) (auto simp: fun_eq_iff ts.recs_add ts.recs_del_node ts.recs_del_proc)

lemma vec_empty: "vec [] = (\<lambda>_ _. [])"
  by (simp add: fun_eq_iff)

lemma storage_run:
  "storage_ok s \<Longrightarrow>
     storage_ok (fold storage_step ops s) \<and> vec (fold storage_step ops s) = fold table_step ops (vec s)"
  by (induction ops arbitrary: s) (simp_all add: storage_step_ok storage_step_vec)

subsection \<open>Properties\<close>

text \<open>C28 Whatever sequence of additions, removals by node and removals by process is applied
  to an empty storage, the storage is well formed (no topic without a process, no process
  without a record, no node twice at one address) and holds for every topic and process exactly
  the list of records that the table specification holds, in the order they were added.\<close>
theorem storage_refines_table:
  "storage_ok (fold storage_step ops []) \<and>
   vec (fold storage_step ops []) = fold table_step ops (\<lambda>_ _. [])"
  using storage_run [OF storage_ok_Nil, of ops] by (simp add: vec_empty)

text \<open>C39 After any history, every query answers from the records: a topic is present
  when some process has a record for it, a process has addresses when its list is not empty, an
  address is known when some record carries it, and the record found for a node is the first one
  of that node.\<close>
theorem storage_queries:
  "let s = fold storage_step ops []; f = fold table_step ops (\<lambda>_ _. []) in
    (HasTopic t s \<longleftrightarrow> (\<exists>p. f t p \<noteq> [])) \<and>
    (HasAnyAddresses t p s \<longleftrightarrow> f t p \<noteq> []) \<and>
    (HasAddress a s \<longleftrightarrow> (\<exists>t p. \<exists>i \<in> set (f t p). addr i = a)) \<and>
    GetAddress t p n s = List.find (\<lambda>i. nUuid i = n) (f t p)"
  using storage_run [OF storage_ok_Nil, of ops]
  by (simp add: Let_def vec_empty HasTopic_iff HasAnyAddresses_iff HasAddress_iff GetAddress_eq)

text \<open>The addresses of one process, collected over all topics, are a map with an entry for
  exactly the topics where the process has records, and the entry is the list of those records.\<close>
theorem GetAddressesByProc_spec:
  assumes "storage_ok data"
  shows "map_of (GetAddressesByProc p data) t =
    (if vec data t p = [] then None else Some (vec data t p))"
  using by_proc_loop_lookup [OF map_ok_distinct [OF storage_ok_map_ok [OF assms]], of "[]" p t]
  by (simp add: GetAddressesByProc_def)

text \<open>Two topics: process ''p'' serves the first, process ''q'' the second.\<close>

definition sample_storage :: topic_storage where
  "sample_storage =
     fold storage_step
       [OpAdd ''@/a'' ''tcp:1'' ''c1'' ''p'' ''n1'' All,
        OpAdd ''@/b'' ''tcp:2'' ''c2'' ''q'' ''n2'' Host,
        OpAdd ''@/a'' ''tcp:3'' ''c1'' ''p'' ''n3'' Process] []"

lemma sample_storage_ok: "storage_ok sample_storage"
  unfolding sample_storage_def by (rule conjunct1 [OF storage_run]) simp

lemma sample_storage_vec:
  "map nUuid (vec sample_storage ''@/a'' ''p'') = [''n1'', ''n3''] \<and>
   map nUuid (vec sample_storage ''@/b'' ''q'') = [''n2''] \<and>
   vec sample_storage ''@/b'' ''p'' = []"
  by code_simp

lemma GetAddressesByProc_spec_witness:
  "map_of (GetAddressesByProc ''p'' sample_storage) ''@/b'' = None \<and>
   map_of (GetAddressesByProc ''p'' sample_storage) ''@/a'' = Some (vec sample_storage ''@/a'' ''p'')"
  using GetAddressesByProc_spec [OF sample_storage_ok, of "''p''"] sample_storage_vec by auto

text \<open>Removing a process removes its records from every topic, but the flag returned only
  tells whether the greatest topic of the map had records of the process: the counter of the loop
  is overwritten for each topic instead of being accumulated.\<close>
theorem DelAddressesByProc_flag:
  assumes "storage_ok data"
  shows "fst (DelAddressesByProc p data) \<longleftrightarrow> data \<noteq> [] \<and> vec data (fst (last data)) p \<noteq> []"
proof (cases "data = []")
  case True
  then show ?thesis by (simp add: DelAddressesByProc_def)
next
  case False
  let ?t = "fst (last data)" and ?m = "snd (last data)"
  have m: "map_of data ?t = Some ?m"
    using False map_ok_in_set_iff [OF storage_ok_map_ok [OF assms]] last_in_set [OF False]
    by (metis prod.collapse)
  have "fst (DelAddressesByProc p data) \<longleftrightarrow> map_of ?m p \<noteq> None"
    using False by (simp add: DelAddressesByProc_def case_prod_beta del_by_proc_loop_counter
        map_count_def split: option.split)
  then show ?thesis using False lookup_proc_iff [OF assms m, of p] by simp
qed

text \<open>Here both records of ''p'' are removed and the flag is false.\<close>
lemma DelAddressesByProc_flag_witness:
  "\<not> fst (DelAddressesByProc ''p'' sample_storage) \<and> vec sample_storage ''@/a'' ''p'' \<noteq> [] \<and>
   vec (snd (DelAddressesByProc ''p'' sample_storage)) ''@/a'' ''p'' = []"
proof -
  have "fst (last sample_storage) = ''@/b''" by code_simp
  then show ?thesis
    using DelAddressesByProc_flag [OF sample_storage_ok, of "''p''"] sample_storage_vec
      ts.recs_del_proc [OF sample_storage_ok, of "''p''" "''@/a''" "''p''"]
    by auto
qed

end
