(* ===== verification/Discovery.thy ===== *)
theory Discovery
  imports Packet TopicStorage
begin

text \<open>
  \<^verbatim>\<open>src/Discovery.cc\<close> and \<^verbatim>\<open>include/ignition/transport/DiscoveryPrivate.hh\<close>: what a process knows
  of the topics and services advertised in the network, and the messages that keep this up to date.

  The state is the record \<open>discovery\<close>.  A callback that the client has set is a flag; that it
  is called is an event, and so is a datagram handed to the socket.  Every operation holds the
  mutex from its beginning to its end, so an operation is one step of the state; the threads are
  the steps \<open>RecvDiscoveryUpdate\<close>, \<open>heartbeat\<close> and \<open>activity_sweep\<close>, the bodies of their loops.
  The clock is an argument \<open>now\<close>, in nanoseconds.
\<close>

datatype callback = ConnectionCb | DisconnectionCb | ConnectionSrvCb | DisconnectionSrvCb

datatype event =
    Send string
  | Call callback string string string string string scope

record discovery =
  hostAddr :: string
  pUuid :: string
  silenceInterval :: u32
  activityInterval :: u32
  advertiseInterval :: u32
  heartbeatInterval :: u32
  connectionCb :: bool
  disconnectionCb :: bool
  connectionSrvCb :: bool
  disconnectionSrvCb :: bool
  infoMsg :: topic_storage
  infoSrv :: topic_storage
  activity :: "(string, int) std_map"
  verbose :: bool
  exit_flag :: bool

definition DefActivityInterval :: u32 where "DefActivityInterval = 100"
definition DefHeartbeatInterval :: u32 where "DefHeartbeatInterval = 1000"
definition DefSilenceInterval :: u32 where "DefSilenceInterval = 3000"
definition DefAdvertiseInterval :: u32 where "DefAdvertiseInterval = 1000"
definition MaxRcvStr :: nat where "MaxRcvStr = 65536"
definition Version :: u16 where "Version = 1"

text \<open>The constructor, up to the sockets; \<open>host\<close> is the result of \<^verbatim>\<open>determineHost\<close>.\<close>

definition Discovery_ctor :: "string \<Rightarrow> bool \<Rightarrow> string \<Rightarrow> discovery" where
  "Discovery_ctor u verb host =
     \<lparr>hostAddr = host, pUuid = u, silenceInterval = DefSilenceInterval,
      activityInterval = DefActivityInterval, advertiseInterval = DefAdvertiseInterval,
      heartbeatInterval = DefHeartbeatInterval, connectionCb = False, disconnectionCb = False,
      connectionSrvCb = False, disconnectionSrvCb = False, infoMsg = [], infoSrv = [],
      activity = [], verbose = verb, exit_flag = False\<rparr>"

text \<open>The two storages, selected by the kind of what is advertised, as the code selects a
  \<^verbatim>\<open>TopicStorage *\<close>.\<close>

fun info :: "msg_kind \<Rightarrow> discovery \<Rightarrow> topic_storage" where
  "info Msg d = infoMsg d"
| "info Srv d = infoSrv d"

fun set_info :: "msg_kind \<Rightarrow> topic_storage \<Rightarrow> discovery \<Rightarrow> discovery" where
  "set_info Msg s d = d\<lparr>infoMsg := s\<rparr>"
| "set_info Srv s d = d\<lparr>infoSrv := s\<rparr>"

text \<open>A call through a callback variable: nothing when it holds no function.\<close>

fun has_callback :: "callback \<Rightarrow> discovery \<Rightarrow> bool" where
  "has_callback ConnectionCb d = connectionCb d"
| "has_callback DisconnectionCb d = disconnectionCb d"
| "has_callback ConnectionSrvCb d = connectionSrvCb d"
| "has_callback DisconnectionSrvCb d = disconnectionSrvCb d"

definition notify ::
    "callback \<Rightarrow> discovery \<Rightarrow> string \<Rightarrow> string \<Rightarrow> string \<Rightarrow> string \<Rightarrow> string \<Rightarrow> scope \<Rightarrow> event list" where
  "notify cb d t a c p n sc = (if has_callback cb d then [Call cb t a c p n sc] else [])"

fun conn_cb :: "msg_kind \<Rightarrow> callback" where
  "conn_cb Msg = ConnectionCb"
| "conn_cb Srv = ConnectionSrvCb"

fun disc_cb :: "msg_kind \<Rightarrow> callback" where
  "disc_cb Msg = DisconnectionCb"
| "disc_cb Srv = DisconnectionSrvCb"

fun adv_type :: "msg_kind \<Rightarrow> u8" where
  "adv_type Msg = AdvType"
| "adv_type Srv = AdvSrvType"

fun unadv_type :: "msg_kind \<Rightarrow> u8" where
  "unadv_type Msg = UnadvType"
| "unadv_type Srv = UnadvSrvType"

fun sub_type :: "msg_kind \<Rightarrow> u8" where
  "sub_type Msg = SubType"
| "sub_type Srv = SubSrvType"

subsection \<open>Sending\<close>

text \<open>
  \<^verbatim>\<open>msgLength\<close> is an \<^verbatim>\<open>int\<close> that \<^verbatim>\<open>sendto\<close> converts to \<^verbatim>\<open>size_t\<close>; reading past the buffer is a fault.
\<close>

definition transmit :: "size_t \<Rightarrow> string option \<Rightarrow> event list res" where
  "transmit len buffer =
     (let msgLength = ucast len :: c_int
      in rbind (advance (scast msgLength) buffer) (\<lambda>(sent, _). Inr [Send sent]))"

definition new_buffer :: "size_t \<Rightarrow> string option" where
  "new_buffer len = Some (replicate (unat len) CHR 0x00)"

text \<open>What \<^verbatim>\<open>Pack\<close> returns is not looked at.\<close>

definition SendMsg ::
    "u8 \<Rightarrow> string \<Rightarrow> string \<Rightarrow> string \<Rightarrow> string \<Rightarrow> scope \<Rightarrow> c_int \<Rightarrow> discovery \<Rightarrow> event list res" where
  "SendMsg ty topic a c n sc flags d =
     (let header = Header_ctor Version (pUuid d) ty (ucast flags)
      in if ty = AdvType \<or> ty = UnadvType \<or> ty = AdvSrvType \<or> ty = UnadvSrvType then
           let m = AdvertiseMsg_ctor header topic a c n sc ''not used''
           in rbind (AdvertiseMsg_Pack m (new_buffer (AdvertiseMsg_GetMsgLength m)))
                (\<lambda>(_, buffer). transmit (AdvertiseMsg_GetMsgLength m) buffer)
         else if ty = SubType \<or> ty = SubSrvType then
           let m = SubscriptionMsg_ctor header topic
           in rbind (SubscriptionMsg_Pack m (new_buffer (SubscriptionMsg_GetMsgLength m)))
                (\<lambda>(_, buffer). transmit (SubscriptionMsg_GetMsgLength m) buffer)
         else if ty = HeartbeatType \<or> ty = ByeType then
           rbind (Header_Pack header (new_buffer (scast (GetHeaderLength header))))
             (\<lambda>(_, buffer). transmit (scast (GetHeaderLength header)) buffer)
         else Inr [])"

subsection \<open>Requests of the client\<close>

definition Advertise ::
    "msg_kind \<Rightarrow> string \<Rightarrow> string \<Rightarrow> string \<Rightarrow> string \<Rightarrow> scope \<Rightarrow> discovery
      \<Rightarrow> (discovery \<times> event list) res" where
  "Advertise k topic a c n sc d =
     (let d = set_info k (snd (AddAddress topic a c (pUuid d) n sc (info k d))) d
      in if sc = Process then Inr (d, [])
         else rbind (SendMsg (adv_type k) topic a c n sc 0 d) (\<lambda>e. Inr (d, e)))"

definition Unadvertise ::
    "msg_kind \<Rightarrow> string \<Rightarrow> string \<Rightarrow> discovery \<Rightarrow> (discovery \<times> event list) res" where
  "Unadvertise k topic n d =
     (case GetAddress topic (pUuid d) n (info k d) of
        None \<Rightarrow> Inr (d, [])
      | Some found \<Rightarrow>
          let d = set_info k (snd (DelAddressByNode topic (pUuid d) n (info k d))) d
          in if scope found = Process then Inr (d, [])
             else rbind (SendMsg (unadv_type k) topic (addr found) (ctrl found) n (scope found) 0 d)
                    (\<lambda>e. Inr (d, e)))"

definition Discover :: "string \<Rightarrow> bool \<Rightarrow> discovery \<Rightarrow> event list res" where
  "Discover topic isSrv d =
     (let k = (if isSrv then Srv else Msg)
      in rbind (SendMsg (sub_type k) topic '''' '''' '''' All 0 d) (\<lambda>sent.
         Inr (sent @
           (if HasTopic topic (info k d) then
              case GetAddresses topic (info k d) of
                None \<Rightarrow> []
              | Some addresses \<Rightarrow>
                  concat (map (\<lambda>proc.
                    concat (map (\<lambda>node.
                      notify (conn_cb k) d topic (addr node) (ctrl node) (fst proc) (nUuid node)
                        (scope node)) (snd proc))) addresses)
            else []))))"

definition GetMsgAddresses :: "string \<Rightarrow> discovery \<Rightarrow> addresses_m option" where
  "GetMsgAddresses topic d = GetAddresses topic (infoMsg d)"

definition GetSrvAddresses :: "string \<Rightarrow> discovery \<Rightarrow> addresses_m option" where
  "GetSrvAddresses topic d = GetAddresses topic (infoSrv d)"

definition Discovery_GetTopicList :: "discovery \<Rightarrow> string list \<Rightarrow> string list" where
  "Discovery_GetTopicList d topics = TopicStorage_GetTopicList (infoMsg d) topics"

definition Discovery_GetServiceList :: "discovery \<Rightarrow> string list \<Rightarrow> string list" where
  "Discovery_GetServiceList d services = TopicStorage_GetTopicList (infoSrv d) services"

definition GetHostAddr :: "discovery \<Rightarrow> string" where
  "GetHostAddr d = hostAddr d"

definition GetActivityInterval :: "discovery \<Rightarrow> u32" where
  "GetActivityInterval d = activityInterval d"

definition GetHeartbeatInterval :: "discovery \<Rightarrow> u32" where
  "GetHeartbeatInterval d = heartbeatInterval d"

definition GetAdvertiseInterval :: "discovery \<Rightarrow> u32" where
  "GetAdvertiseInterval d = advertiseInterval d"

definition GetSilenceInterval :: "discovery \<Rightarrow> u32" where
  "GetSilenceInterval d = silenceInterval d"

definition SetActivityInterval :: "u32 \<Rightarrow> discovery \<Rightarrow> discovery" where
  "SetActivityInterval ms d = d\<lparr>activityInterval := ms\<rparr>"

definition SetHeartbeatInterval :: "u32 \<Rightarrow> discovery \<Rightarrow> discovery" where
  "SetHeartbeatInterval ms d = d\<lparr>heartbeatInterval := ms\<rparr>"

definition SetAdvertiseInterval :: "u32 \<Rightarrow> discovery \<Rightarrow> discovery" where
  "SetAdvertiseInterval ms d = d\<lparr>advertiseInterval := ms\<rparr>"

definition SetSilenceInterval :: "u32 \<Rightarrow> discovery \<Rightarrow> discovery" where
  "SetSilenceInterval ms d = d\<lparr>silenceInterval := ms\<rparr>"

text \<open>The four \<^verbatim>\<open>Set...Cb\<close> functions; \<open>present\<close> is false when the function given is empty.\<close>

definition SetConnectionsCb :: "bool \<Rightarrow> discovery \<Rightarrow> discovery" where
  "SetConnectionsCb present d = d\<lparr>connectionCb := present\<rparr>"

definition SetDisconnectionsCb :: "bool \<Rightarrow> discovery \<Rightarrow> discovery" where
  "SetDisconnectionsCb present d = d\<lparr>disconnectionCb := present\<rparr>"

definition SetConnectionsSrvCb :: "bool \<Rightarrow> discovery \<Rightarrow> discovery" where
  "SetConnectionsSrvCb present d = d\<lparr>connectionSrvCb := present\<rparr>"

definition SetDisconnectionsSrvCb :: "bool \<Rightarrow> discovery \<Rightarrow> discovery" where
  "SetDisconnectionsSrvCb present d = d\<lparr>disconnectionSrvCb := present\<rparr>"

subsection \<open>Receiving\<close>

definition hidden :: "string \<Rightarrow> scope \<Rightarrow> discovery \<Rightarrow> bool" where
  "hidden fromIp sc d \<longleftrightarrow> sc = Process \<or> (sc = Host \<and> fromIp \<noteq> hostAddr d)"

text \<open>The cases of the \<^verbatim>\<open>switch\<close> of \<^verbatim>\<open>DispatchDiscoveryMsg\<close>, on the fields read from the body.\<close>

definition on_advertise ::
    "msg_kind \<Rightarrow> string \<Rightarrow> string \<Rightarrow> string \<Rightarrow> string \<Rightarrow> string \<Rightarrow> string \<Rightarrow> scope \<Rightarrow> discovery
      \<Rightarrow> discovery \<times> event list" where
  "on_advertise k fromIp recvPUuid topic a c n sc d =
     (if hidden fromIp sc d then (d, [])
      else let (added, s) = AddAddress topic a c recvPUuid n sc (info k d)
           in (set_info k s d,
               if added then notify (conn_cb k) d topic a c recvPUuid n sc else []))"

definition on_subscribe :: "msg_kind \<Rightarrow> string \<Rightarrow> string \<Rightarrow> discovery \<Rightarrow> event list res" where
  "on_subscribe k fromIp topic d =
     (if HasAnyAddresses topic (pUuid d) (info k d) then
        case GetAddresses topic (info k d) of
          None \<Rightarrow> Inr []
        | Some addresses \<Rightarrow>
            rconcat (\<lambda>node.
              if hidden fromIp (scope node) d then Inr []
              else SendMsg (adv_type k) topic (addr node) (ctrl node) (nUuid node) (scope node) 0 d)
              (case map_of addresses (pUuid d) of Some v \<Rightarrow> v | None \<Rightarrow> [])
      else Inr [])"

definition on_bye :: "string \<Rightarrow> discovery \<Rightarrow> discovery \<times> event list" where
  "on_bye recvPUuid d =
     (let d = d\<lparr>activity := map_erase recvPUuid (activity d)\<rparr>;
          calls = notify DisconnectionCb d '''' '''' '''' recvPUuid '''' All @
                  notify DisconnectionSrvCb d '''' '''' '''' recvPUuid '''' All
      in (d\<lparr>infoMsg := snd (DelAddressesByProc recvPUuid (infoMsg d)),
            infoSrv := snd (DelAddressesByProc recvPUuid (infoSrv d))\<rparr>, calls))"

definition on_unadvertise ::
    "msg_kind \<Rightarrow> string \<Rightarrow> string \<Rightarrow> string \<Rightarrow> string \<Rightarrow> string \<Rightarrow> string \<Rightarrow> scope \<Rightarrow> discovery
      \<Rightarrow> discovery \<times> event list" where
  "on_unadvertise k fromIp recvPUuid topic a c n sc d =
     (if hidden fromIp sc d then (d, [])
      else (set_info k (snd (DelAddressByNode topic recvPUuid n (info k d))) d,
            notify (disc_cb k) d topic a c recvPUuid n sc))"

text \<open>The \<^verbatim>\<open>switch\<close> on the type of the message; \<open>pBody\<close> points behind the header.\<close>

definition dispatch_body ::
    "string \<Rightarrow> string \<Rightarrow> u8 \<Rightarrow> string \<Rightarrow> discovery \<Rightarrow> (discovery \<times> event list) res" where
  "dispatch_body fromIp recvPUuid ty pBody d =
     (if ty = AdvType \<or> ty = AdvSrvType then
        rbind (AdvertiseMsg_UnpackBody AdvertiseMsg_default (Some pBody)) (\<lambda>(_, m).
        Inr (on_advertise (if ty = AdvType then Msg else Srv) fromIp recvPUuid
          (AdvertiseBase_GetTopic m) (AdvertiseBase_GetAddress m) (AdvertiseBase_GetControlAddress m)
          (AdvertiseBase_GetNodeUuid m) (AdvertiseBase_GetScope m) d))
      else if ty = SubType \<or> ty = SubSrvType then
        rbind (SubscriptionMsg_UnpackBody SubscriptionMsg_default (Some pBody)) (\<lambda>(_, m).
        rbind (on_subscribe (if ty = SubType then Msg else Srv) fromIp (SubscriptionMsg_GetTopic m) d)
          (\<lambda>e. Inr (d, e)))
      else if ty = HeartbeatType then Inr (d, [])
      else if ty = ByeType then Inr (on_bye recvPUuid d)
      else if ty = UnadvType \<or> ty = UnadvSrvType then
        rbind (AdvertiseMsg_UnpackBody AdvertiseMsg_default (Some pBody)) (\<lambda>(_, m).
        Inr (on_unadvertise (if ty = UnadvType then Msg else Srv) fromIp recvPUuid
          (AdvertiseBase_GetTopic m) (AdvertiseBase_GetAddress m) (AdvertiseBase_GetControlAddress m)
          (AdvertiseBase_GetNodeUuid m) (AdvertiseBase_GetScope m) d))
      else Inr (d, []))"

definition DispatchDiscoveryMsg ::
    "int \<Rightarrow> string \<Rightarrow> string \<Rightarrow> discovery \<Rightarrow> (discovery \<times> event list) res" where
  "DispatchDiscoveryMsg now fromIp msg d =
     rbind (Header_Unpack Header_default (Some msg)) (\<lambda>(_, header).
     rbind (advance (scast (GetHeaderLength header)) (Some msg)) (\<lambda>(_, pBody).
     if Header_GetPUuid header = pUuid d then Inr (d, [])
     else
       dispatch_body fromIp (Header_GetPUuid header) (Header_GetType header) pBody
         (d\<lparr>activity := map_put (Header_GetPUuid header) now (activity d)\<rparr>)))"

text \<open>
  A datagram received into \<^verbatim>\<open>rcvStr\<close>, whose earlier contents are \<open>stack\<close>: the number of bytes
  received is not passed on.  \<open>None\<close> is a \<^verbatim>\<open>recvfrom\<close> that fails.
\<close>

definition RecvDiscoveryUpdate ::
    "int \<Rightarrow> string \<Rightarrow> (string \<times> string) option \<Rightarrow> discovery \<Rightarrow> (discovery \<times> event list) res" where
  "RecvDiscoveryUpdate now stack recvd d =
     (case recvd of
        None \<Rightarrow> Inr (d, [])
      | Some (srcAddr, datagram) \<Rightarrow>
          let bytes = take MaxRcvStr datagram;
              rcvStr = bytes @ drop (length bytes) stack
          in DispatchDiscoveryMsg now srcAddr rcvStr d)"

subsection \<open>The periodic tasks\<close>

text \<open>
  One round of \<^verbatim>\<open>RunActivityTask\<close>.  \<open>to_ms\<close> is the conversion of a duration to milliseconds, which
  the code makes through a \<^verbatim>\<open>double\<close> number of seconds and then truncates.
\<close>

fun sweep_loop ::
    "(int \<Rightarrow> int) \<Rightarrow> int \<Rightarrow> (string \<times> int) list \<Rightarrow> discovery \<Rightarrow> (discovery \<times> event list) res" where
  "sweep_loop to_ms now [] d = Inr (d, [])"
| "sweep_loop to_ms now ((p, t) # rest) d =
     (if to_ms (now - t) > int (unat (silenceInterval d)) then
        let d = d\<lparr>infoMsg := snd (DelAddressesByProc p (infoMsg d)),
                  infoSrv := snd (DelAddressesByProc p (infoSrv d))\<rparr>
        in if \<not> disconnectionCb d then Inl Exn_bad_function_call
           else
             let d = d\<lparr>activity := map_erase p (activity d)\<rparr>
             in rbind (sweep_loop to_ms now rest d) (\<lambda>(d, e).
                Inr (d, Call DisconnectionCb '''' '''' '''' p '''' All # e))
      else sweep_loop to_ms now rest d)"

definition activity_sweep ::
    "(int \<Rightarrow> int) \<Rightarrow> int \<Rightarrow> discovery \<Rightarrow> (discovery \<times> event list) res" where
  "activity_sweep to_ms now d = sweep_loop to_ms now (activity d) d"

text \<open>One round of \<^verbatim>\<open>RunHeartbeatTask\<close>.\<close>

definition readvertise :: "msg_kind \<Rightarrow> discovery \<Rightarrow> event list res" where
  "readvertise k d =
     rconcat (\<lambda>topic. rconcat (\<lambda>node.
       SendMsg (adv_type k) (fst topic) (addr node) (ctrl node) (nUuid node) (scope node) 0 d)
       (snd topic)) (GetAddressesByProc (pUuid d) (info k d))"

definition heartbeat :: "discovery \<Rightarrow> event list res" where
  "heartbeat d =
     rbind (SendMsg HeartbeatType '''' '''' '''' '''' All 0 d) (\<lambda>e0.
     rbind (readvertise Msg d) (\<lambda>e1.
     rbind (readvertise Srv d) (\<lambda>e2.
     Inr (e0 @ e1 @ e2))))"

text \<open>The destructor sets the exit flag, waits for the threads and says good-bye.\<close>

definition Discovery_dtor :: "discovery \<Rightarrow> (discovery \<times> event list) res" where
  "Discovery_dtor d =
     (let d = d\<lparr>exit_flag := True\<rparr>
      in rbind (SendMsg ByeType '''' '''' '''' '''' All 0 d) (\<lambda>e. Inr (d, e)))"

end
