(* ===== verification/HandlerStorage.thy ===== *)
theory HandlerStorage
  imports StdMap
begin

text \<open>
  \<^verbatim>\<open>include/ignition/transport/HandlerStorage.hh\<close>: the handlers registered for a topic or a
  service, by node and by handler UUID.  The class is a template over the handler type; so are
  the definitions, with \<open>getHandlerUuid\<close> for the only method of the handler that the class calls.
\<close>

type_synonym 'h uuid_handlers = "(string, 'h) std_map"
type_synonym 'h handler_collection = "(string, 'h uuid_handlers) std_map"
type_synonym 'h handler_storage = "(string, 'h handler_collection) std_map"

subsection \<open>Operations\<close>

definition GetHandlers :: "string \<Rightarrow> 'h handler_storage \<Rightarrow> 'h handler_collection option" where
  "GetHandlers topic data = map_of data topic"

text \<open>
  The first handler: \<^verbatim>\<open>begin()\<close> is dereferenced without looking whether the maps are empty.
\<close>

definition GetHandler_first :: "string \<Rightarrow> 'h handler_storage \<Rightarrow> 'h option res" where
  "GetHandler_first topic data =
     (case map_of data topic of
        None \<Rightarrow> Inr None
      | Some [] \<Rightarrow> Inl BadIterator
      | Some ((_, m) # _) \<Rightarrow>
          (case m of [] \<Rightarrow> Inl BadIterator | (_, h) # _ \<Rightarrow> Inr (Some h)))"

definition GetHandler :: "string \<Rightarrow> string \<Rightarrow> string \<Rightarrow> 'h handler_storage \<Rightarrow> 'h option" where
  "GetHandler topic n hUuid data =
     (case map_of data topic of
        None \<Rightarrow> None
      | Some m \<Rightarrow> (case map_of m n of None \<Rightarrow> None | Some hs \<Rightarrow> map_of hs hUuid))"

definition AddHandler ::
    "('h \<Rightarrow> string) \<Rightarrow> string \<Rightarrow> string \<Rightarrow> 'h \<Rightarrow> 'h handler_storage \<Rightarrow> 'h handler_storage" where
  "AddHandler getHandlerUuid topic n handler data =
     (let data = (if map_of data topic = None then map_put topic [] data else data);
          c = (case map_of data topic of Some c \<Rightarrow> c | None \<Rightarrow> []);
          c = (if map_of c n = None then map_put n [] c else c);
          m = (case map_of c n of Some m \<Rightarrow> m | None \<Rightarrow> []);
          m = map_insert (getHandlerUuid handler) handler m
      in map_put topic (map_put n m c) data)"

definition HasHandlersForTopic :: "string \<Rightarrow> 'h handler_storage \<Rightarrow> bool" where
  "HasHandlersForTopic topic data =
     (case map_of data topic of None \<Rightarrow> False | Some c \<Rightarrow> c \<noteq> [])"

definition HasHandlersForNode :: "string \<Rightarrow> string \<Rightarrow> 'h handler_storage \<Rightarrow> bool" where
  "HasHandlersForNode topic n data =
     (case map_of data topic of None \<Rightarrow> False | Some c \<Rightarrow> map_of c n \<noteq> None)"

definition RemoveHandler ::
    "string \<Rightarrow> string \<Rightarrow> string \<Rightarrow> 'h handler_storage \<Rightarrow> bool \<times> 'h handler_storage" where
  "RemoveHandler topic n reqUuid data =
     (case map_of data topic of
        None \<Rightarrow> (False, data)
      | Some c \<Rightarrow>
          (case map_of c n of
             None \<Rightarrow> (False, data)
           | Some m \<Rightarrow>
               let m = map_erase reqUuid m;
                   c = map_put n m c;
                   counter = (if m = [] then map_count n c else 0);
                   c = (if m = [] then map_erase n c else c);
                   data = map_put topic c data;
                   data = (if c = [] then map_erase topic data else data)
               in (counter > 0, data)))"

definition RemoveHandlersForNode ::
    "string \<Rightarrow> string \<Rightarrow> 'h handler_storage \<Rightarrow> bool \<times> 'h handler_storage" where
  "RemoveHandlersForNode topic n data =
     (case map_of data topic of
        None \<Rightarrow> (False, data)
      | Some c \<Rightarrow>
          let counter = map_count n c;
              c = map_erase n c;
              data = map_put topic c data;
              data = (if c = [] then map_erase topic data else data)
          in (counter > 0, data))"

subsection \<open>Well-formed storages\<close>

definition handlers_ok :: "'h handler_storage \<Rightarrow> bool" where
  "handlers_ok data \<longleftrightarrow> nested_ok (nested_ok map_ok) data"

definition node_handlers :: "'h handler_storage \<Rightarrow> string \<Rightarrow> string \<Rightarrow> 'h uuid_handlers" where
  "node_handlers data t n = inner (inner data t) n"

definition handler_at :: "'h handler_storage \<Rightarrow> string \<Rightarrow> string \<Rightarrow> string \<Rightarrow> 'h option" where
  "handler_at data t n = map_of (node_handlers data t n)"

lemma handlers_ok_Nil [simp, wf_intros]: "handlers_ok []"
  by (simp add: handlers_ok_def)

lemma handler_at_Nil [simp]: "handler_at [] t n h = None"
  by (simp add: handler_at_def node_handlers_def)

lemma collection_ok: "handlers_ok data \<Longrightarrow> nested_ok map_ok (inner data t)"
  by (simp add: handlers_ok_def nested_ok_inner)

lemma node_handlers_ok: "handlers_ok data \<Longrightarrow> map_ok (node_handlers data t n)"
  using nested_ok_inner [OF collection_ok] by (simp add: node_handlers_def)

lemma handlers_ok_restore:
  "handlers_ok data \<Longrightarrow> nested_ok map_ok c \<Longrightarrow> handlers_ok (restore t c data)"
  by (simp add: handlers_ok_def nested_ok_restore)

lemma handlers_ext:
  assumes "handlers_ok s" and "handlers_ok s'"
    and "\<And>t n. handler_at s t n = handler_at s' t n"
  shows "s = s'"
proof (rule nested_ext)
  show "nested_ok (nested_ok map_ok) s" "nested_ok (nested_ok map_ok) s'"
    using assms(1,2) by (simp_all add: handlers_ok_def)
  show "inner s t = inner s' t" for t
  proof (rule nested_ext)
    show "nested_ok map_ok (inner s t)" "nested_ok map_ok (inner s' t)"
      using assms(1,2) by (simp_all add: collection_ok)
    show "inner (inner s t) n = inner (inner s' t) n" for n
      using map_ok_ext [OF node_handlers_ok [OF assms(1), of t n]
          node_handlers_ok [OF assms(2), of t n]] assms(3) [of t n]
      by (simp add: handler_at_def node_handlers_def)
  qed
qed

lemma handlers_lookup:
  "handlers_ok data \<Longrightarrow> map_of data t = (if inner data t = [] then None else Some (inner data t))"
  by (simp add: handlers_ok_def nested_lookup)

lemma collection_lookup:
  "handlers_ok data \<Longrightarrow>
     map_of (inner data t) n = (if node_handlers data t n = [] then None else Some (node_handlers data t n))"
  unfolding node_handlers_def by (rule nested_lookup [OF collection_ok])

lemma node_handlers_Nil_iff: "node_handlers data t n = [] \<longleftrightarrow> (\<forall>h. handler_at data t n h = None)"
  by (auto simp: handler_at_def) (metis map_of_eq_empty_iff)

subsection \<open>What each operation does to the handlers\<close>

lemma AddHandler_eq:
  "handlers_ok data \<Longrightarrow> AddHandler f t n x data =
     restore t (restore n (map_insert (f x) x (node_handlers data t n)) (inner data t)) data"
  by (simp add: AddHandler_def Let_def handlers_lookup collection_lookup restore_def map_put_put
      map_insert_def node_handlers_def split: option.split)

lemma RemoveHandler_eq:
  assumes "handlers_ok data"
  shows "RemoveHandler t n r data =
     (let m = node_handlers data t n; m' = map_erase r m
      in (m \<noteq> [] \<and> m' = [], restore t (restore n m' (inner data t)) data))"
proof (cases "node_handlers data t n = []")
  case True
  moreover have "restore n [] (inner data t) = inner data t"
    using True restore_same [OF collection_ok [OF assms], of n t] by (simp add: node_handlers_def)
  moreover have "restore t (inner data t) data = data"
    using assms by (simp add: handlers_ok_def restore_same)
  ultimately show ?thesis
    using assms
    by (simp add: RemoveHandler_def handlers_lookup collection_lookup map_erase_def Let_def)
next
  case False
  then have "inner data t \<noteq> []" by (auto simp: node_handlers_def)
  with False assms show ?thesis
    by (simp add: RemoveHandler_def handlers_lookup collection_lookup Let_def restore_def
        map_erase_put map_count_def)
qed

lemma RemoveHandlersForNode_eq:
  assumes "handlers_ok data"
  shows "RemoveHandlersForNode t n data =
     (node_handlers data t n \<noteq> [], restore t (restore n [] (inner data t)) data)"
proof (cases "inner data t = []")
  case True
  then show ?thesis
    using assms restore_same [of "nested_ok map_ok" data t]
    by (simp add: RemoveHandlersForNode_def handlers_lookup restore_def node_handlers_def
        handlers_ok_def map_erase_def)
next
  case False
  then show ?thesis
    using assms
    by (simp add: RemoveHandlersForNode_def handlers_lookup Let_def restore_def map_erase_put
        map_count_def collection_lookup)
qed

lemma node_handlers_restore:
  "node_handlers (restore t (restore n m (inner data t)) data) t' n' =
     (if t' = t \<and> n' = n then m else node_handlers data t' n')"
  by (simp add: node_handlers_def inner_restore)

lemma handlers_ok_node:
  "handlers_ok data \<Longrightarrow> map_ok m \<Longrightarrow> handlers_ok (restore t (restore n m (inner data t)) data)"
  by (simp add: handlers_ok_restore nested_ok_restore collection_ok)

lemma handlers_ok_AddHandler [wf_intros]:
  "handlers_ok data \<Longrightarrow> handlers_ok (AddHandler f t n x data)"
  by (simp add: AddHandler_eq handlers_ok_node map_ok_insert node_handlers_ok)

lemma handlers_ok_RemoveHandler [wf_intros]:
  "handlers_ok data \<Longrightarrow> handlers_ok (snd (RemoveHandler t n r data))"
  by (simp add: RemoveHandler_eq Let_def handlers_ok_node map_ok_erase node_handlers_ok)

lemma handlers_ok_RemoveHandlersForNode [wf_intros]:
  "handlers_ok data \<Longrightarrow> handlers_ok (snd (RemoveHandlersForNode t n data))"
  by (simp add: RemoveHandlersForNode_eq handlers_ok_node)

lemma handler_at_AddHandler:
  "handlers_ok data \<Longrightarrow> handler_at (AddHandler f t n x data) t' n' h =
     (if t' = t \<and> n' = n \<and> h = f x \<and> handler_at data t n h = None then Some x
      else handler_at data t' n' h)"
  by (auto simp: handler_at_def AddHandler_eq node_handlers_restore)

lemma handler_at_RemoveHandler:
  "handlers_ok data \<Longrightarrow> handler_at (snd (RemoveHandler t n r data)) t' n' h =
     (if t' = t \<and> n' = n \<and> h = r then None else handler_at data t' n' h)"
  by (simp add: handler_at_def RemoveHandler_eq Let_def node_handlers_restore)

lemma handler_at_RemoveHandlersForNode:
  "handlers_ok data \<Longrightarrow> handler_at (snd (RemoveHandlersForNode t n data)) t' n' h =
     (if t' = t \<and> n' = n then None else handler_at data t' n' h)"
  by (simp add: handler_at_def RemoveHandlersForNode_eq node_handlers_restore)

subsection \<open>The contract the clients rely on\<close>

locale handler_table =
  fixes uuid :: "'h \<Rightarrow> string"
    and new :: 's
    and add :: "string \<Rightarrow> string \<Rightarrow> 'h \<Rightarrow> 's \<Rightarrow> 's"
    and remove :: "string \<Rightarrow> string \<Rightarrow> string \<Rightarrow> 's \<Rightarrow> bool \<times> 's"
    and remove_node :: "string \<Rightarrow> string \<Rightarrow> 's \<Rightarrow> bool \<times> 's"
    and at :: "'s \<Rightarrow> string \<Rightarrow> string \<Rightarrow> string \<Rightarrow> 'h option"
    and ok :: "'s \<Rightarrow> bool"
  assumes ok_new: "ok new"
    and ok_add: "ok s \<Longrightarrow> ok (add t n x s)"
    and ok_remove: "ok s \<Longrightarrow> ok (snd (remove t n r s))"
    and ok_remove_node: "ok s \<Longrightarrow> ok (snd (remove_node t n s))"
    and at_new: "at new t n h = None"
    and at_add: "ok s \<Longrightarrow> at (add t n x s) t' n' h =
      (if t' = t \<and> n' = n \<and> h = uuid x \<and> at s t n h = None then Some x else at s t' n' h)"
    and at_remove: "ok s \<Longrightarrow> at (snd (remove t n r s)) t' n' h =
      (if t' = t \<and> n' = n \<and> h = r then None else at s t' n' h)"
    and at_remove_node: "ok s \<Longrightarrow> at (snd (remove_node t n s)) t' n' h =
      (if t' = t \<and> n' = n then None else at s t' n' h)"
    and at_ext: "ok s \<Longrightarrow> ok s' \<Longrightarrow> (\<And>t n h. at s t n h = at s' t n h) \<Longrightarrow> s = s'"
begin

text \<open>Every handler is filed under its own UUID.\<close>

definition keyed :: "'s \<Rightarrow> bool" where
  "keyed s \<longleftrightarrow> (\<forall>t n h x. at s t n h = Some x \<longrightarrow> uuid x = h)"

lemma keyed_new: "keyed new"
  by (simp add: keyed_def at_new)

lemma keyed_add: "ok s \<Longrightarrow> keyed s \<Longrightarrow> keyed (add t n x s)"
  by (auto simp: keyed_def at_add)

lemma keyed_remove: "ok s \<Longrightarrow> keyed s \<Longrightarrow> keyed (snd (remove t n r s))"
  by (auto simp: keyed_def at_remove)

lemma keyed_remove_node: "ok s \<Longrightarrow> keyed s \<Longrightarrow> keyed (snd (remove_node t n s))"
  by (auto simp: keyed_def at_remove_node)

lemma add_present: "ok s \<Longrightarrow> at s t n (uuid x) \<noteq> None \<Longrightarrow> add t n x s = s"
  by (rule at_ext) (auto simp: ok_add at_add)

lemma add_again: "ok s \<Longrightarrow> uuid y = uuid x \<Longrightarrow> add t n y (add t n x s) = add t n x s"
  by (rule add_present) (auto simp: ok_add at_add)

lemma remove_added:
  "ok s \<Longrightarrow> at s t n (uuid x) = None \<Longrightarrow> snd (remove t n (uuid x) (add t n x s)) = s"
  by (rule at_ext) (auto simp: ok_add ok_remove at_add at_remove)

lemma remove_commute:
  "ok s \<Longrightarrow> snd (remove t n r (snd (remove t' n' r' s))) = snd (remove t' n' r' (snd (remove t n r s)))"
  by (rule at_ext) (auto simp: ok_remove at_remove)

lemma remove_node_absorbs:
  "ok s \<Longrightarrow> snd (remove_node t n (snd (remove t n r s))) = snd (remove_node t n s)"
  by (rule at_ext) (auto simp: ok_remove ok_remove_node at_remove at_remove_node)

end

interpretation hs: handler_table f "[]" "AddHandler f" RemoveHandler RemoveHandlersForNode
  handler_at handlers_ok for f
proof unfold_locales
  show "s = s'" if "handlers_ok s" "handlers_ok s'" "\<And>t n h. handler_at s t n h = handler_at s' t n h"
    for s s' :: "'a handler_storage"
    using that by (intro handlers_ext) (simp_all add: fun_eq_iff)
qed (simp_all add: wf_intros handler_at_AddHandler handler_at_RemoveHandler
    handler_at_RemoveHandlersForNode)

subsection \<open>Queries\<close>

lemma GetHandler_at: "GetHandler t n h data = handler_at data t n h"
  by (simp add: GetHandler_def handler_at_def node_handlers_def inner_def split: option.split)

lemma HasHandlersForNode_iff:
  "handlers_ok data \<Longrightarrow> HasHandlersForNode t n data \<longleftrightarrow> (\<exists>h. handler_at data t n h \<noteq> None)"
  using node_handlers_Nil_iff [of data t n]
  by (auto simp: HasHandlersForNode_def handlers_lookup collection_lookup node_handlers_def
      split: option.splits)

lemma HasHandlersForTopic_iff:
  assumes "handlers_ok data"
  shows "HasHandlersForTopic t data \<longleftrightarrow> (\<exists>n h. handler_at data t n h \<noteq> None)"
  using assms nested_eq_Nil_iff [OF collection_ok [OF assms], of t] node_handlers_Nil_iff [of data t]
  by (auto simp: HasHandlersForTopic_def handlers_lookup node_handlers_def)

lemma RemoveHandler_flag:
  assumes "handlers_ok data"
  shows "fst (RemoveHandler t n r data) \<longleftrightarrow> {h. handler_at data t n h \<noteq> None} = {r}"
proof -
  have "fst (RemoveHandler t n r data) \<longleftrightarrow>
      node_handlers data t n \<noteq> [] \<and> dom (map_of (node_handlers data t n)) \<subseteq> {r}"
    using assms by (simp add: RemoveHandler_eq Let_def map_erase_eq_Nil_iff)
  then show ?thesis
    unfolding node_handlers_Nil_iff handler_at_def dom_def by blast
qed

lemma RemoveHandlersForNode_flag:
  "handlers_ok data \<Longrightarrow>
     fst (RemoveHandlersForNode t n data) \<longleftrightarrow> (\<exists>h. handler_at data t n h \<noteq> None)"
  by (simp add: RemoveHandlersForNode_eq node_handlers_Nil_iff)

lemma GetHandler_first_ok:
  assumes "handlers_ok data"
  shows "(\<forall>n h. handler_at data t n h = None) \<and> GetHandler_first t data = Inr None \<or>
    (\<exists>n h x. handler_at data t n h = Some x \<and> GetHandler_first t data = Inr (Some x) \<and>
      (\<forall>n' h'. handler_at data t n' h' \<noteq> None \<longrightarrow> n \<le> n' \<and> (n' = n \<longrightarrow> h \<le> h')))"
proof (cases "inner data t")
  case Nil
  then show ?thesis
    using assms
    by (simp add: GetHandler_first_def handlers_lookup handler_at_def node_handlers_def)
next
  case (Cons e c)
  obtain n m where e: "e = (n, m)" by (cases e)
  have c: "nested_ok map_ok (inner data t)" using assms by (rule collection_ok)
  have "map_of (inner data t) n = Some m" by (simp add: Cons e)
  with c have m: "m \<noteq> []" "map_ok m" "node_handlers data t n = m"
    by (auto simp: nested_ok_def node_handlers_def inner_def)
  then obtain h x m' where m_eq: "m = (h, x) # m'" by (cases m) auto
  have at_n: "handler_at data t n h = Some x" using m m_eq by (simp add: handler_at_def)
  have "n \<le> n' \<and> (n' = n \<longrightarrow> h \<le> h')" if some: "handler_at data t n' h' \<noteq> None" for n' h'
  proof -
    have "node_handlers data t n' \<noteq> []" using some node_handlers_Nil_iff by metis
    then have "map_of (inner data t) n' = Some (node_handlers data t n')"
      using assms by (simp add: collection_lookup)
    then have "n \<le> n'"
      using least_entry [OF nested_ok_map_ok [OF c], of n m] by (simp add: Cons e)
    moreover have "h \<le> h'" if "n' = n"
      using that some least_entry [OF m(2), of h x h'] m(3) m_eq by (auto simp: handler_at_def)
    ultimately show ?thesis by blast
  qed
  moreover have "GetHandler_first t data = Inr (Some x)"
    using assms by (simp add: GetHandler_first_def handlers_lookup Cons e m_eq)
  ultimately show ?thesis using at_n by blast
qed

subsection \<open>Histories of operations\<close>

datatype 'h handler_op =
    HAdd string string 'h
  | HRemove string string string
  | HRemoveNode string string

fun handler_step :: "('h \<Rightarrow> string) \<Rightarrow> 'h handler_op \<Rightarrow> 'h handler_storage \<Rightarrow> 'h handler_storage" where
  "handler_step f (HAdd t n x) s = AddHandler f t n x s"
| "handler_step f (HRemove t n r) s = snd (RemoveHandler t n r s)"
| "handler_step f (HRemoveNode t n) s = snd (RemoveHandlersForNode t n s)"

text \<open>The specification: a partial table over topic, node and handler UUID, where the first
  handler registered under a key stays until it is removed.\<close>

type_synonym 'h handler_spec = "string \<Rightarrow> string \<Rightarrow> string \<Rightarrow> 'h option"

fun handler_spec_step :: "('h \<Rightarrow> string) \<Rightarrow> 'h handler_op \<Rightarrow> 'h handler_spec \<Rightarrow> 'h handler_spec" where
  "handler_spec_step f (HAdd t n x) g =
     (if g t n (f x) = None then g(t := (g t)(n := (g t n)(f x \<mapsto> x))) else g)"
| "handler_spec_step f (HRemove t n r) g = g(t := (g t)(n := (g t n)(r := None)))"
| "handler_spec_step f (HRemoveNode t n) g = g(t := (g t)(n := Map.empty))"

lemma handler_step_ok: "handlers_ok s \<Longrightarrow> handlers_ok (handler_step f x s)"
  by (cases x) (simp_all add: wf_intros)

lemma handler_step_at:
  "handlers_ok s \<Longrightarrow> handler_at (handler_step f x s) = handler_spec_step f x (handler_at s)"
  by (cases x) (auto simp: fun_eq_iff hs.at_add hs.at_remove hs.at_remove_node)

lemma handler_run:
  "handlers_ok s \<Longrightarrow> handlers_ok (fold (handler_step f) ops s) \<and>
     handler_at (fold (handler_step f) ops s) = fold (handler_spec_step f) ops (handler_at s)"
  by (induction ops arbitrary: s) (simp_all add: handler_step_ok handler_step_at)

lemma handler_at_empty: "handler_at [] = (\<lambda>_ _. Map.empty)"
  by (simp add: fun_eq_iff)

subsection \<open>Properties\<close>

text \<open>C33 Whatever sequence of registrations and removals is applied to an empty
  handler storage, it is well formed (no topic without a node, no node without a handler) and the
  handler found under a topic, node and handler UUID is the one the table specification holds.\<close>
theorem handler_storage_refines:
  "handlers_ok (fold (handler_step f) ops []) \<and>
   (\<forall>t n h. GetHandler t n h (fold (handler_step f) ops []) =
      fold (handler_spec_step f) ops (\<lambda>_ _. Map.empty) t n h)"
  using handler_run [OF handlers_ok_Nil, of f ops] by (simp add: GetHandler_at handler_at_empty)

text \<open>Asking for the first handler of a topic never dereferences the end of a map,
  whatever the history: it finds nothing exactly when the topic has no handler, and otherwise gives
  the handler with the least node UUID and, in that node, the least handler UUID.\<close>
theorem GetHandler_first_spec:
  "let s = fold (handler_step f) ops [] in
    ((\<forall>n h. GetHandler t n h s = None) \<and> GetHandler_first t s = Inr None) \<or>
    (\<exists>n h x. GetHandler t n h s = Some x \<and> GetHandler_first t s = Inr (Some x) \<and>
      (\<forall>n' h'. GetHandler t n' h' s \<noteq> None \<longrightarrow> n \<le> n' \<and> (n' = n \<longrightarrow> h \<le> h')))"
  using GetHandler_first_ok [OF conjunct1 [OF handler_run [OF handlers_ok_Nil, of f ops]], of t]
  by (simp add: Let_def GetHandler_at)

text \<open>Handlers here are pairs of UUID and contents.\<close>

definition sample_ops :: "(string \<times> nat) handler_op list" where
  "sample_ops =
     [HAdd ''@/a'' ''n2'' (''h1'', 1), HAdd ''@/a'' ''n2'' (''h2'', 2), HAdd ''@/a'' ''n1'' (''h9'', 9)]"

definition sample_handlers :: "(string \<times> nat) handler_storage" where
  "sample_handlers = fold (handler_step fst) sample_ops []"

lemma set_neqI: "x \<in> A \<Longrightarrow> x \<notin> B \<Longrightarrow> A \<noteq> B"
  by blast

lemma sample_handlers_ok: "handlers_ok sample_handlers"
  unfolding sample_handlers_def by (rule conjunct1 [OF handler_run]) simp

lemma GetHandler_first_spec_witness:
  "GetHandler_first ''@/a'' sample_handlers = Inr (Some (''h9'', 9)) \<and>
   (\<exists>n h x. GetHandler ''@/a'' n h sample_handlers = Some x \<and>
      GetHandler_first ''@/a'' sample_handlers = Inr (Some x))"
proof -
  have first: "GetHandler_first ''@/a'' sample_handlers = Inr (Some (''h9'', 9))"
    by code_simp
  then show ?thesis
    using GetHandler_first_spec [where t = "''@/a''" and f = fst and ops = sample_ops]
    unfolding sample_handlers_def [symmetric] Let_def by auto
qed

text \<open>Removing a handler removes it and nothing else, but the flag is true only when
  it was the last handler of its node: removing one of several handlers of a node reports failure.\<close>
theorem RemoveHandler_spec:
  assumes "handlers_ok data"
  shows "(fst (RemoveHandler t n r data) \<longleftrightarrow> {h. GetHandler t n h data \<noteq> None} = {r}) \<and>
    GetHandler t' n' h (snd (RemoveHandler t n r data)) =
      (if t' = t \<and> n' = n \<and> h = r then None else GetHandler t' n' h data)"
  using assms by (simp add: GetHandler_at RemoveHandler_flag hs.at_remove)

lemma RemoveHandler_spec_witness:
  "\<not> fst (RemoveHandler ''@/a'' ''n2'' ''h1'' sample_handlers) \<and>
   GetHandler ''@/a'' ''n2'' ''h1'' sample_handlers = Some (''h1'', 1) \<and>
   GetHandler ''@/a'' ''n2'' ''h1'' (snd (RemoveHandler ''@/a'' ''n2'' ''h1'' sample_handlers)) = None"
proof -
  have at: "GetHandler ''@/a'' ''n2'' ''h1'' sample_handlers = Some (''h1'', 1)"
    by code_simp
  have "GetHandler ''@/a'' ''n2'' ''h2'' sample_handlers = Some (''h2'', 2)"
    by code_simp
  then have "''h2'' \<in> {h. GetHandler ''@/a'' ''n2'' h sample_handlers \<noteq> None}" by simp
  moreover have "''h2'' \<notin> {''h1''}" by simp
  ultimately have "{h. GetHandler ''@/a'' ''n2'' h sample_handlers \<noteq> None} \<noteq> {''h1''}"
    by (rule set_neqI)
  with at show ?thesis
    using RemoveHandler_spec [OF sample_handlers_ok, of "''@/a''" "''n2''" "''h1''" "''@/a''" "''n2''" "''h1''"]
    by simp
qed

text \<open>Registering a handler under a UUID that the node already has for the topic leaves
  the storage as it was: the first handler is kept, not replaced.\<close>
theorem AddHandler_keeps_first:
  assumes "handlers_ok data" and "getHandlerUuid y = getHandlerUuid x"
  shows "AddHandler getHandlerUuid t n y (AddHandler getHandlerUuid t n x data) =
    AddHandler getHandlerUuid t n x data"
  using assms by (rule hs.add_again)

lemma AddHandler_keeps_first_witness:
  "AddHandler fst ''@/a'' ''n'' (''h'', 2) (AddHandler fst ''@/a'' ''n'' (''h'', 1::nat) []) =
     AddHandler fst ''@/a'' ''n'' (''h'', 1) []"
  by (rule AddHandler_keeps_first) simp_all

end
