(* ===== verification/TopicUtils.thy ===== *)
theory TopicUtils
  imports Prelude
begin

text \<open>
  \<^verbatim>\<open>src/TopicUtils.cc\<close>: which namespaces and topics are valid, and how a partition, a
  namespace and a topic make a fully qualified topic name \<^verbatim>\<open>@partition@/ns/topic\<close>; with the
  two inverse idioms that the rest of the program uses on such names: the removal of the
  partition part (\<^verbatim>\<open>erase(0, find_last_of("@") + 1)\<close>, in \<^verbatim>\<open>Node.cc\<close> and the handlers) and the
  extraction of the partition (\<^verbatim>\<open>substr(1, find_last_of("@") - 1)\<close>, in \<^verbatim>\<open>Node.cc\<close>).
\<close>

text \<open>\<^verbatim>\<open>s.find(sub) != npos\<close>.\<close>

fun str_contains :: "string \<Rightarrow> string \<Rightarrow> bool" where
  "str_contains sub [] = (sub = [])"
| "str_contains sub (c # s) = (take (length sub) (c # s) = sub \<or> str_contains sub s)"

definition IsValidNamespace :: "string \<Rightarrow> bool" where
  "IsValidNamespace ns =
     (if ns = ''/'' then False
      else if str_contains ''~'' ns then False
      else if str_contains '' '' ns then False
      else if str_contains ''//'' ns then False
      else if str_contains ''@'' ns then False
      else True)"

definition IsValidTopic :: "string \<Rightarrow> bool" where
  "IsValidTopic topic \<longleftrightarrow> IsValidNamespace topic \<and> topic \<noteq> []"

definition front_is :: "char \<Rightarrow> string \<Rightarrow> bool" where
  "front_is c s \<longleftrightarrow> s \<noteq> [] \<and> hd s = c"

definition back_is :: "char \<Rightarrow> string \<Rightarrow> bool" where
  "back_is c s \<longleftrightarrow> s \<noteq> [] \<and> last s = c"

text \<open>The three rewritings of \<^verbatim>\<open>GetFullyQualifiedName\<close>, each in the order of its statements.\<close>

definition norm_partition :: "string \<Rightarrow> string" where
  "norm_partition part =
     (let p = (if part \<noteq> [] \<and> \<not> front_is CHR ''/'' part
               then CHR ''/'' # part else part)
      in if p \<noteq> [] \<and> back_is CHR ''/'' p then butlast p else p)"

definition norm_ns :: "string \<Rightarrow> string" where
  "norm_ns ns =
     (let n = (if ns = [] \<or> \<not> back_is CHR ''/'' ns then ns @ ''/'' else ns)
      in if n = [] \<or> \<not> front_is CHR ''/'' n then CHR ''/'' # n else n)"

definition norm_topic :: "string \<Rightarrow> string" where
  "norm_topic topic = (if topic \<noteq> [] \<and> back_is CHR ''/'' topic then butlast topic else topic)"

text \<open>
  \<open>None\<close> is the result \<^verbatim>\<open>false\<close>, which leaves the output parameter alone; \<open>Some name\<close> is
  \<^verbatim>\<open>true\<close> with the name stored.
\<close>

definition GetFullyQualifiedName :: "string \<Rightarrow> string \<Rightarrow> string \<Rightarrow> string option" where
  "GetFullyQualifiedName part ns topic =
     (if \<not> IsValidNamespace part \<or> \<not> IsValidNamespace ns \<or> \<not> IsValidTopic topic
      then None
      else
        let t = norm_topic topic;
            name = (if t \<noteq> [] \<and> front_is CHR ''/'' t then t else norm_ns ns @ t)
        in Some (''@'' @ norm_partition part @ ''@'' @ name))"

text \<open>
  \<^verbatim>\<open>find_last_of("@")\<close>; \<open>None\<close> is \<^verbatim>\<open>npos\<close>.  As \<^verbatim>\<open>npos\<close> is the largest \<^verbatim>\<open>size_t\<close>,
  \<^verbatim>\<open>npos + 1\<close> is 0 and \<^verbatim>\<open>npos - 1\<close> and \<^verbatim>\<open>0 - 1\<close> are larger than the length of any string.
\<close>

fun find_last_of :: "char \<Rightarrow> string \<Rightarrow> nat option" where
  "find_last_of c [] = None"
| "find_last_of c (x # s) =
     (case find_last_of c s of
        Some i \<Rightarrow> Some (Suc i)
      | None \<Rightarrow> if x = c then Some 0 else None)"

definition strip_partition :: "string \<Rightarrow> string" where
  "strip_partition topic =
     (case find_last_of CHR ''@'' topic of None \<Rightarrow> topic | Some i \<Rightarrow> drop (i + 1) topic)"

definition topic_partition :: "string \<Rightarrow> string res" where
  "topic_partition topic =
     (if length topic < 1 then Inl Exn_out_of_range
      else
        let rest = drop 1 topic;
            part = (case find_last_of CHR ''@'' topic of
                           None \<Rightarrow> rest
                         | Some 0 \<Rightarrow> rest
                         | Some (Suc i) \<Rightarrow> take i rest)
        in Inr (if part \<noteq> [] then tl part else part))"

subsection \<open>Substrings\<close>

lemma str_contains_iff: "str_contains sub s \<longleftrightarrow> (\<exists>a b. s = a @ sub @ b)"
proof (induction s)
  case Nil
  then show ?case by auto
next
  case (Cons c s)
  have "take (length sub) (c # s) = sub \<longleftrightarrow> (\<exists>b. c # s = sub @ b)"
    by (metis append_eq_conv_conj append_take_drop_id)
  moreover have "(\<exists>a b. c # s = a @ sub @ b) \<longleftrightarrow>
      (\<exists>b. c # s = sub @ b) \<or> (\<exists>a b. s = a @ sub @ b)"
    by (auto simp: Cons_eq_append_conv)
  ultimately show ?case using Cons by simp
qed

lemma str_contains_char [simp]: "str_contains [c] s \<longleftrightarrow> c \<in> set s"
  by (auto simp: str_contains_iff in_set_conv_decomp)

text \<open>Two consecutive slashes, by position: the form the concatenation lemmas use.\<close>

fun no_double_slash :: "string \<Rightarrow> bool" where
  "no_double_slash (a # b # s) \<longleftrightarrow> \<not> (a = CHR ''/'' \<and> b = CHR ''/'') \<and> no_double_slash (b # s)"
| "no_double_slash s \<longleftrightarrow> True"

lemma str_contains_double_slash: "str_contains ''//'' s \<longleftrightarrow> \<not> no_double_slash s"
  by (induction s rule: no_double_slash.induct) auto

lemma no_double_slash_append:
  "no_double_slash (s @ t) \<longleftrightarrow>
     no_double_slash s \<and> no_double_slash t \<and> \<not> (back_is CHR ''/'' s \<and> front_is CHR ''/'' t)"
proof (induction s rule: no_double_slash.induct)
  case (1 a b s)
  then show ?case by (auto simp: back_is_def)
qed (cases t; simp add: back_is_def front_is_def; blast)+

text \<open>The characters a valid name is made of.\<close>

definition clean :: "string \<Rightarrow> bool" where
  "clean s \<longleftrightarrow> CHR ''~'' \<notin> set s \<and> CHR '' '' \<notin> set s \<and> CHR ''@'' \<notin> set s \<and> no_double_slash s"

lemma IsValidNamespace_iff: "IsValidNamespace s \<longleftrightarrow> s \<noteq> ''/'' \<and> clean s"
  by (auto simp: IsValidNamespace_def clean_def str_contains_double_slash)

lemma clean_append:
  "clean (s @ t) \<longleftrightarrow> clean s \<and> clean t \<and> \<not> (back_is CHR ''/'' s \<and> front_is CHR ''/'' t)"
  by (auto simp: clean_def no_double_slash_append)

lemma clean_Nil [simp]: "clean []"
  and clean_slash [simp]: "clean ''/''"
  by (simp_all add: clean_def)

lemma clean_butlast: "clean s \<Longrightarrow> clean (butlast s)"
  by (cases s rule: rev_cases) (simp_all add: clean_append)

lemma clean_Cons_slash: "clean s \<Longrightarrow> \<not> front_is CHR ''/'' s \<Longrightarrow> clean (CHR ''/'' # s)"
  using clean_append [of "''/''" s] by simp

subsection \<open>The parts of a qualified name\<close>

lemma front_is_append [simp]: "s \<noteq> [] \<Longrightarrow> front_is c (s @ t) = front_is c s"
  by (simp add: front_is_def)

lemma back_is_append [simp]: "t \<noteq> [] \<Longrightarrow> back_is c (s @ t) = back_is c t"
  by (simp add: back_is_def)

lemma front_is_Cons [simp]: "front_is c (x # s) \<longleftrightarrow> x = c"
  by (simp add: front_is_def)

lemma front_is_Nil [simp]: "\<not> front_is c []"
  and back_is_Nil [simp]: "\<not> back_is c []"
  by (simp_all add: front_is_def back_is_def)

lemma back_is_single [simp]: "back_is c [x] \<longleftrightarrow> x = c"
  by (simp add: back_is_def)

lemma back_is_snoc [simp]: "back_is c (s @ [x]) \<longleftrightarrow> x = c"
  by (simp add: back_is_def)

lemma back_is_Cons: "back_is c (x # s) \<longleftrightarrow> (if s = [] then x = c else back_is c s)"
  by (simp add: back_is_def)

lemma front_is_butlast: "front_is c (butlast s) \<Longrightarrow> front_is c s"
  by (cases s) (auto simp: front_is_def)

lemma clean_back_butlast:
  assumes "clean s" and "back_is CHR ''/'' s"
  shows "\<not> back_is CHR ''/'' (butlast s)"
  using assms by (cases s rule: rev_cases) (auto simp: clean_append back_is_def)

text \<open>An absolute name: what follows the partition in a qualified name.\<close>

definition abs_name :: "string \<Rightarrow> bool" where
  "abs_name s \<longleftrightarrow> clean s \<and> front_is CHR ''/'' s \<and> \<not> back_is CHR ''/'' s"

lemma norm_topic_valid:
  assumes "IsValidTopic t"
  shows "norm_topic t \<noteq> []" and "clean (norm_topic t)" and "\<not> back_is CHR ''/'' (norm_topic t)"
proof -
  have t: "clean t" "t \<noteq> []" "t \<noteq> ''/''"
    using assms by (auto simp: IsValidTopic_def IsValidNamespace_iff)
  show "norm_topic t \<noteq> []"
    using t by (cases t rule: rev_cases) (auto simp: norm_topic_def)
  show "clean (norm_topic t)"
    using t by (simp add: norm_topic_def clean_butlast)
  show "\<not> back_is CHR ''/'' (norm_topic t)"
    using t clean_back_butlast [of t] by (simp add: norm_topic_def)
qed

lemma norm_ns_valid:
  assumes "IsValidNamespace ns"
  shows "clean (norm_ns ns)" and "front_is CHR ''/'' (norm_ns ns)" and "back_is CHR ''/'' (norm_ns ns)"
proof -
  have ns: "clean ns" using assms by (simp add: IsValidNamespace_iff)
  show "clean (norm_ns ns)"
    using ns by (auto simp: norm_ns_def Let_def clean_append intro!: clean_Cons_slash)
  show "front_is CHR ''/'' (norm_ns ns)"
    by (simp add: norm_ns_def Let_def)
  show "back_is CHR ''/'' (norm_ns ns)"
    by (auto simp: norm_ns_def Let_def back_is_Cons)
qed

lemma norm_partition_clean:
  assumes "IsValidNamespace p"
  shows "clean (norm_partition p)"
  using assms
  by (auto simp: norm_partition_def Let_def IsValidNamespace_iff
      intro!: clean_butlast clean_Cons_slash dest: front_is_butlast)

lemma abs_name_append:
  assumes "clean n" and "front_is CHR ''/'' n" and "back_is CHR ''/'' n"
    and "t \<noteq> []" and "clean t" and "\<not> front_is CHR ''/'' t" and "\<not> back_is CHR ''/'' t"
  shows "abs_name (n @ t)"
proof -
  have "n \<noteq> []" using assms(2) by auto
  with assms show ?thesis by (simp add: abs_name_def clean_append)
qed

text \<open>The absolute name a namespace and a topic stand for.\<close>

definition abs_topic :: "string \<Rightarrow> string \<Rightarrow> string" where
  "abs_topic ns topic =
     (let t = norm_topic topic
      in if front_is CHR ''/'' t then t else norm_ns ns @ t)"

lemma abs_name_abs_topic:
  "IsValidNamespace ns \<Longrightarrow> IsValidTopic t \<Longrightarrow> abs_name (abs_topic ns t)"
  using norm_topic_valid [of t] norm_ns_valid [of ns]
  by (auto simp: abs_topic_def Let_def abs_name_append) (simp add: abs_name_def)

lemma GetFullyQualifiedName_Some_iff:
  "GetFullyQualifiedName p ns t = Some name \<longleftrightarrow>
     IsValidNamespace p \<and> IsValidNamespace ns \<and> IsValidTopic t \<and>
     name = ''@'' @ norm_partition p @ ''@'' @ abs_topic ns t"
  by (auto simp: GetFullyQualifiedName_def abs_topic_def Let_def front_is_def)

text \<open>An absolute name is a valid topic and qualifies to itself, whatever the namespace.\<close>

lemma abs_name_valid: "abs_name a \<Longrightarrow> IsValidTopic a"
  by (auto simp: abs_name_def IsValidTopic_def IsValidNamespace_iff)

lemma abs_name_norm_topic: "abs_name a \<Longrightarrow> norm_topic a = a"
  by (simp add: abs_name_def norm_topic_def)

lemma abs_name_abs_topic_id: "abs_name a \<Longrightarrow> abs_topic ns a = a"
  by (simp add: abs_topic_def abs_name_norm_topic) (simp add: abs_name_def)

subsection \<open>Looking for the last delimiter\<close>

lemma find_last_of_None: "find_last_of c s = None \<longleftrightarrow> c \<notin> set s"
  by (induction s) (auto split: option.splits)

lemma find_last_of_append:
  "c \<notin> set s \<Longrightarrow> find_last_of c (r @ c # s) = Some (length r)"
  by (induction r) (simp_all add: find_last_of_None [THEN iffD2])

lemma find_last_of_less: "find_last_of c s = Some i \<Longrightarrow> i < length s"
  by (induction s arbitrary: i) (auto split: option.splits if_splits)

lemma strip_partition_qualified:
  "CHR ''@'' \<notin> set a \<Longrightarrow> strip_partition (r @ CHR ''@'' # a) = a"
  by (simp add: strip_partition_def find_last_of_append)

lemma topic_partition_qualified:
  "CHR ''@'' \<notin> set a \<Longrightarrow> topic_partition (CHR ''@'' # q @ CHR ''@'' # a) = Inr (tl q)"
  using find_last_of_append [of "CHR ''@''" a "CHR ''@'' # q"]
  by (cases q) (simp_all add: topic_partition_def Let_def)

subsection \<open>Qualified names\<close>

lemma norm_partition_cases:
  assumes "IsValidNamespace p"
  obtains "p = []" and "norm_partition p = []"
  | r c where "norm_partition p = CHR ''/'' # r @ [c]" and "c \<noteq> CHR ''/''" and "p \<noteq> []"
proof -
  define q where "q = (if p \<noteq> [] \<and> \<not> front_is CHR ''/'' p then CHR ''/'' # p else p)"
  have np: "norm_partition p = (if back_is CHR ''/'' q then butlast q else q)"
    by (simp add: norm_partition_def Let_def q_def back_is_def)
  have clean: "clean (norm_partition p)" using assms by (rule norm_partition_clean)
  show thesis
  proof (cases "p = []")
    case True
    then show ?thesis using that(1) by (simp add: norm_partition_def)
  next
    case False
    have q: "clean q" "q \<noteq> ''/''" "front_is CHR ''/'' q"
      using assms False by (auto simp: q_def IsValidNamespace_iff front_is_def intro: clean_Cons_slash)
    then obtain s where s: "q = CHR ''/'' # s" "s \<noteq> []"
      by (cases q) auto
    then obtain r c where rc: "s = r @ [c]" by (cases s rule: rev_cases) auto
    show ?thesis
    proof (cases "c = CHR ''/''")
      case False
      with np s rc \<open>p \<noteq> []\<close> show ?thesis using that(2) [of r c] by (simp add: back_is_Cons)
    next
      case True
      then have n: "norm_partition p = CHR ''/'' # r" using np s rc by (simp add: back_is_Cons)
      moreover have "\<not> back_is CHR ''/'' (CHR ''/'' # r)"
        using clean_back_butlast [of q] q s rc True by (simp add: back_is_Cons)
      ultimately show ?thesis
        using that(2) [of "butlast r" "last r"] \<open>p \<noteq> []\<close> by (cases "r = []") (auto simp: back_is_def)
    qed
  qed
qed


lemma abs_name_no_at: "abs_name a \<Longrightarrow> CHR ''@'' \<notin> set a"
  by (simp add: abs_name_def clean_def)

lemma fqn_parts:
  assumes "GetFullyQualifiedName p ns t = Some name"
  shows "strip_partition name = abs_topic ns t"
    and "topic_partition name = Inr (tl (norm_partition p))"
    and "name = CHR ''@'' # norm_partition p @ CHR ''@'' # abs_topic ns t"
    and "abs_name (abs_topic ns t)"
proof -
  have valid: "IsValidNamespace p" "IsValidNamespace ns" "IsValidTopic t"
    and name: "name = CHR ''@'' # norm_partition p @ CHR ''@'' # abs_topic ns t"
    using assms by (simp_all add: GetFullyQualifiedName_Some_iff)
  show a: "abs_name (abs_topic ns t)"
    using valid by (simp add: abs_name_abs_topic)
  show "strip_partition name = abs_topic ns t"
    using strip_partition_qualified [OF abs_name_no_at [OF a], of "CHR ''@'' # norm_partition p"]
    by (simp add: name)
  show "topic_partition name = Inr (tl (norm_partition p))"
    using topic_partition_qualified [OF abs_name_no_at [OF a]] by (simp add: name)
  show "name = CHR ''@'' # norm_partition p @ CHR ''@'' # abs_topic ns t" by (rule name)
qed

text \<open>
  C37: A name is produced exactly for a valid partition, namespace and topic, and then it is
  \<^verbatim>\<open>@partition@absolute\<close> where the partition is empty or starts with a slash and does not end
  in one, and the absolute topic starts with a slash, does not end in one, and has no space,
  tilde, \<^verbatim>\<open>@\<close> or double slash.
\<close>
theorem fqn_form:
  "case GetFullyQualifiedName p ns t of
     None \<Rightarrow> \<not> (IsValidNamespace p \<and> IsValidNamespace ns \<and> IsValidTopic t)
   | Some name \<Rightarrow>
       IsValidNamespace p \<and> IsValidNamespace ns \<and> IsValidTopic t \<and>
       (\<exists>q a. name = ''@'' @ q @ ''@'' @ a \<and> abs_name a \<and> clean q \<and>
          (q = [] \<or> front_is CHR ''/'' q) \<and> \<not> back_is CHR ''/'' q)"
proof (cases "GetFullyQualifiedName p ns t")
  case None
  then show ?thesis by (simp add: GetFullyQualifiedName_def Let_def split: if_splits)
next
  case (Some name)
  then have valid: "IsValidNamespace p" "IsValidNamespace ns" "IsValidTopic t"
    by (simp_all add: GetFullyQualifiedName_Some_iff)
  have "(norm_partition p = [] \<or> front_is CHR ''/'' (norm_partition p)) \<and>
      \<not> back_is CHR ''/'' (norm_partition p)"
    using valid(1) by (cases rule: norm_partition_cases) (auto simp: back_is_Cons)
  then show ?thesis
    using Some valid fqn_parts [OF Some] norm_partition_clean [OF valid(1)] by auto
qed

lemma strip_requalify:
  assumes "GetFullyQualifiedName p ns t = Some name" and "IsValidNamespace ns'"
  shows "GetFullyQualifiedName p ns' (strip_partition name) = Some name"
  using assms fqn_parts [OF assms(1)]
  by (simp add: GetFullyQualifiedName_Some_iff abs_name_valid abs_name_abs_topic_id)

text \<open>
  Removing the partition from a qualified name and qualifying the rest again, in any
  namespace, gives the same name back: what \<^verbatim>\<open>Node\<close>'s lists of topics return can be handed to
  the operations that take a topic.
\<close>
theorem fqn_strip_requalify:
  assumes "GetFullyQualifiedName p ns t = Some name" and "IsValidNamespace ns'"
  shows "GetFullyQualifiedName p ns' (strip_partition name) = Some name"
  using assms by (rule strip_requalify)

theorem fqn_strip_requalify_witness:
  "GetFullyQualifiedName ''p/'' ''other'' (strip_partition ''@/p@/ns/topic'') = Some ''@/p@/ns/topic''"
proof (rule fqn_strip_requalify)
  show "GetFullyQualifiedName ''p/'' ''ns/'' ''topic'' = Some ''@/p@/ns/topic''" by code_simp
  show "IsValidNamespace ''other''" by code_simp
qed



lemma tl_norm_partition_id:
  assumes "p \<noteq> ''/''"
  shows "tl (norm_partition p) = p \<longleftrightarrow> \<not> front_is CHR ''/'' p \<and> \<not> back_is CHR ''/'' p"
proof (cases p rule: rev_cases)
  case Nil
  then show ?thesis by (simp add: norm_partition_def)
next
  case (snoc r c)
  have len: "length (tl p) < length p" "length (tl (butlast p)) < length p"
      "length (butlast p) < length p"
    using snoc by simp_all
  then have "tl p \<noteq> p" "tl (butlast p) \<noteq> p" "butlast p \<noteq> p" by (metis less_irrefl)+
  then show ?thesis
    using snoc by (auto simp: norm_partition_def Let_def back_is_Cons split: if_splits)
qed

text \<open>
  The partition that \<^verbatim>\<open>GetTopicList\<close> reads back from a qualified name is the partition the
  name was made with exactly when that one has no slash at either end; a node whose
  partition is written \<^verbatim>\<open>/p\<close> or \<^verbatim>\<open>p/\<close> does not recognise its own topics.
\<close>
theorem fqn_partition_readback:
  assumes "GetFullyQualifiedName p ns t = Some name"
  shows "topic_partition name = Inr p \<longleftrightarrow> \<not> front_is CHR ''/'' p \<and> \<not> back_is CHR ''/'' p"
proof -
  have "p \<noteq> ''/''"
    using assms by (auto simp: GetFullyQualifiedName_Some_iff IsValidNamespace_iff)
  then show ?thesis using fqn_parts(2) [OF assms] tl_norm_partition_id by simp
qed

theorem fqn_partition_readback_witness:
  "topic_partition ''@/p@/t'' \<noteq> Inr ''/p''"
proof -
  have "GetFullyQualifiedName ''/p'' '''' ''t'' = Some ''@/p@/t''" by code_simp
  from fqn_partition_readback [OF this] show ?thesis by simp
qed

end
