(* ===== verification/Handlers.thy ===== *)
theory Handlers
  imports HandlerStorage TopicUtils
begin

text \<open>
  \<^verbatim>\<open>SubscriptionHandler.hh\<close>, \<^verbatim>\<open>RepHandler.hh\<close> and \<^verbatim>\<open>ReqHandler.hh\<close>: the objects that hold a user's
  callback for a topic, for a service offered and for a service call in progress.

  The classes are templates over protobuf messages.  Here \<open>'m\<close> is the type of messages, and a
  handler carries what the generated classes of its message types do: parse a string, serialise a
  message, make a default message.  That a callback of the user is run is a \<open>call\<close>; the callback
  of a service is a function, because what it stores in its output parameters is used.
\<close>

datatype 'm call =
    SubCall string string 'm
  | ReqCall string string 'm bool
  | LocalReply string 'm bool

subsection \<open>Subscription handlers\<close>

record 'm sub_handler =
  sh_hUuid :: string
  sh_nUuid :: string
  sh_CreateMsg :: "string \<Rightarrow> 'm"
  sh_cb :: bool

definition SubscriptionHandler_ctor :: "string \<Rightarrow> string \<Rightarrow> (string \<Rightarrow> 'm) \<Rightarrow> 'm sub_handler" where
  "SubscriptionHandler_ctor hUuid n create =
     \<lparr>sh_hUuid = hUuid, sh_nUuid = n, sh_CreateMsg = create, sh_cb = False\<rparr>"

definition sub_GetNodeUuid :: "'m sub_handler \<Rightarrow> string" where
  [simp]: "sub_GetNodeUuid h = sh_nUuid h"

definition sub_GetHandlerUuid :: "'m sub_handler \<Rightarrow> string" where
  [simp]: "sub_GetHandlerUuid h = sh_hUuid h"

definition sub_SetCallback :: "bool \<Rightarrow> 'm sub_handler \<Rightarrow> 'm sub_handler" where
  "sub_SetCallback present h = h\<lparr>sh_cb := present\<rparr>"

definition sub_RunLocalCallback :: "string \<Rightarrow> 'm \<Rightarrow> 'm sub_handler \<Rightarrow> 'm call list \<times> bool" where
  "sub_RunLocalCallback topic msg h =
     (if sh_cb h then ([SubCall (sh_hUuid h) (strip_partition topic) msg], True) else ([], False))"

definition sub_RunCallback :: "string \<Rightarrow> string \<Rightarrow> 'm sub_handler \<Rightarrow> 'm call list \<times> bool" where
  "sub_RunCallback topic data h =
     (let msg = sh_CreateMsg h data
      in if sh_cb h then ([SubCall (sh_hUuid h) (strip_partition topic) msg], True) else ([], False))"

subsection \<open>Service handlers\<close>

text \<open>The callback gets the topic, the request, the response object and the result flag, and
  gives the last two back as it leaves them.\<close>

record 'm rep_handler =
  rh_hUuid :: string
  rh_CreateMsg :: "string \<Rightarrow> 'm"
  rh_NewRep :: 'm
  rh_SerializeRep :: "'m \<Rightarrow> string"
  rh_cb :: "(string \<Rightarrow> 'm \<Rightarrow> 'm \<Rightarrow> bool \<Rightarrow> 'm \<times> bool) option"

definition RepHandler_ctor ::
    "string \<Rightarrow> (string \<Rightarrow> 'm) \<Rightarrow> 'm \<Rightarrow> ('m \<Rightarrow> string) \<Rightarrow> 'm rep_handler" where
  "RepHandler_ctor hUuid create new serialize =
     \<lparr>rh_hUuid = hUuid, rh_CreateMsg = create, rh_NewRep = new, rh_SerializeRep = serialize,
      rh_cb = None\<rparr>"

definition rep_GetHandlerUuid :: "'m rep_handler \<Rightarrow> string" where
  [simp]: "rep_GetHandlerUuid h = rh_hUuid h"

definition rep_SetCallback ::
    "(string \<Rightarrow> 'm \<Rightarrow> 'm \<Rightarrow> bool \<Rightarrow> 'm \<times> bool) option \<Rightarrow> 'm rep_handler \<Rightarrow> 'm rep_handler" where
  "rep_SetCallback cb h = h\<lparr>rh_cb := cb\<rparr>"

definition rep_RunLocalCallback ::
    "string \<Rightarrow> 'm \<Rightarrow> 'm \<Rightarrow> bool \<Rightarrow> 'm rep_handler \<Rightarrow> 'm \<times> bool" where
  "rep_RunLocalCallback topic msgReq msgRep result h =
     (case rh_cb h of
        Some cb \<Rightarrow> cb (strip_partition topic) msgReq msgRep result
      | None \<Rightarrow> (msgRep, False))"

definition rep_RunCallback ::
    "string \<Rightarrow> string \<Rightarrow> string \<Rightarrow> bool \<Rightarrow> 'm rep_handler \<Rightarrow> string \<times> bool" where
  "rep_RunCallback topic req rep result h =
     (case rh_cb h of
        Some cb \<Rightarrow>
          let msgReq = rh_CreateMsg h req;
              (msgRep, result) = cb (strip_partition topic) msgReq (rh_NewRep h) result
          in (rh_SerializeRep h msgRep, result)
      | None \<Rightarrow> (rep, False))"

subsection \<open>Request handlers\<close>

record 'm req_handler =
  rq_hUuid :: string
  rq_nUuid :: string
  rq_CreateMsg :: "string \<Rightarrow> 'm"
  rq_SerializeReq :: "'m \<Rightarrow> string"
  rq_reqMsg :: 'm
  rq_cb :: bool
  rq_rep :: string
  rq_result :: bool
  rq_requested :: bool
  rq_repAvailable :: bool

definition ReqHandler_ctor ::
    "string \<Rightarrow> string \<Rightarrow> (string \<Rightarrow> 'm) \<Rightarrow> ('m \<Rightarrow> string) \<Rightarrow> 'm \<Rightarrow> 'm req_handler" where
  "ReqHandler_ctor hUuid n create serialize new =
     \<lparr>rq_hUuid = hUuid, rq_nUuid = n, rq_CreateMsg = create, rq_SerializeReq = serialize,
      rq_reqMsg = new, rq_cb = False, rq_rep = '''', rq_result = False, rq_requested = False,
      rq_repAvailable = False\<rparr>"

definition req_GetNodeUuid :: "'m req_handler \<Rightarrow> string" where
  [simp]: "req_GetNodeUuid h = rq_nUuid h"

definition req_GetHandlerUuid :: "'m req_handler \<Rightarrow> string" where
  [simp]: "req_GetHandlerUuid h = rq_hUuid h"

definition req_GetRep :: "'m req_handler \<Rightarrow> string" where
  [simp]: "req_GetRep h = rq_rep h"

definition req_GetResult :: "'m req_handler \<Rightarrow> bool" where
  [simp]: "req_GetResult h = rq_result h"

definition req_Requested :: "'m req_handler \<Rightarrow> bool" where
  [simp]: "req_Requested h = rq_requested h"

definition req_SetCallback :: "bool \<Rightarrow> 'm req_handler \<Rightarrow> 'm req_handler" where
  "req_SetCallback present h = h\<lparr>rq_cb := present\<rparr>"

definition req_SetMessage :: "'m \<Rightarrow> 'm req_handler \<Rightarrow> 'm req_handler" where
  "req_SetMessage msg h = h\<lparr>rq_reqMsg := msg\<rparr>"

definition SetRequested :: "bool \<Rightarrow> 'm req_handler \<Rightarrow> 'm req_handler" where
  "SetRequested v h = h\<lparr>rq_requested := v\<rparr>"

definition req_Serialize :: "'m req_handler \<Rightarrow> string" where
  "req_Serialize h = rq_SerializeReq h (rq_reqMsg h)"

definition NotifyResult :: "string \<Rightarrow> string \<Rightarrow> bool \<Rightarrow> 'm req_handler \<Rightarrow> 'm req_handler \<times> 'm call list" where
  "NotifyResult topic rep result h =
     (let (h, calls) =
        (if rq_cb h
         then (h, [ReqCall (rq_hUuid h) (strip_partition topic) (rq_CreateMsg h rep) result])
         else (h\<lparr>rq_rep := rep, rq_result := result\<rparr>, []))
      in (h\<lparr>rq_repAvailable := True\<rparr>, calls))"

text \<open>\<^verbatim>\<open>WaitUntil\<close> returns the predicate it waits for, as it is when the thread wakes up.\<close>

definition WaitUntil_result :: "'m req_handler \<Rightarrow> bool" where
  "WaitUntil_result h = rq_repAvailable h"

end
