(* ===== verification/NodeShared.thy ===== *)
theory NodeShared
  imports Discovery Handlers
begin

text \<open>
  \<^verbatim>\<open>src/NodeShared.cc\<close>: what the nodes of a process share.  The state holds the discovery of the
  process, the connections to remote publishers, the remote subscribers, and the handlers; the
  request handlers are objects that the requester and the storage both point to, so they live in
  a heap and the storage holds references.

  The sockets are outside the program.  What is asked of them is an event; the argument \<open>fails\<close>
  tells for which requests the 0MQ binding throws, and each operation follows its own \<^verbatim>\<open>catch\<close>
  blocks.  A message of several frames is one event.  Every operation holds the mutex of the
  shared node, so it is one step of the state.
\<close>

datatype 'm io =
    Datagram string
  | ConnectSub string
  | DisconnectSub string
  | AddFilter string
  | RemoveFilter string
  | ConnectReq string
  | ConnectRep string
  | ConnectControl string
  | PublishFrames "string list"
  | ControlFrames string "string list"
  | RequestFrames "string list"
  | ReplyFrames "string list"
  | UserCall "'m call"

record 'm node_shared =
  ns_pUuid :: string
  myAddress :: string
  myControlAddress :: string
  myRequesterAddress :: string
  myReplierAddress :: string
  responseReceiverId :: string
  replierId :: string
  disc :: discovery
  connections :: topic_storage
  srvConnections :: "string list"
  remoteSubscribers :: topic_storage
  localSubscriptions :: "'m sub_handler handler_storage"
  repliers :: "'m rep_handler handler_storage"
  requests :: "nat handler_storage"
  heap :: "'m req_handler list"

text \<open>The constructor; the addresses are the end points that the sockets are bound to.\<close>

definition NodeShared_ctor ::
    "string \<Rightarrow> string \<Rightarrow> string \<Rightarrow> string \<Rightarrow> string \<Rightarrow> string \<Rightarrow> string \<Rightarrow> string \<Rightarrow> 'm node_shared" where
  "NodeShared_ctor u host a_pub a_ctrl a_req a_rep id_resp id_rep =
     \<lparr>ns_pUuid = u, myAddress = a_pub, myControlAddress = a_ctrl, myRequesterAddress = a_req,
      myReplierAddress = a_rep, responseReceiverId = id_resp, replierId = id_rep,
      disc =
        SetDisconnectionsSrvCb True (SetConnectionsSrvCb True (SetDisconnectionsCb True
          (SetConnectionsCb True (Discovery_ctor u False host)))),
      connections = [], srvConnections = [], remoteSubscribers = [], localSubscriptions = [],
      repliers = [], requests = [], heap = []\<rparr>"

text \<open>All handlers of a topic, in the order in which the two nested loops meet them.\<close>

definition handlers_of :: "string \<Rightarrow> 'h handler_storage \<Rightarrow> 'h list" where
  "handlers_of topic data =
     (case GetHandlers topic data of
        None \<Rightarrow> []
      | Some handlers \<Rightarrow> concat (map (\<lambda>node. map snd (snd node)) handlers))"

subsection \<open>Decimal numbers\<close>

text \<open>\<^verbatim>\<open>std::stoi\<close>: white space, a sign, digits, then anything.\<close>

definition is_space :: "char \<Rightarrow> bool" where
  "is_space c \<longleftrightarrow> c = CHR '' '' \<or> (9 \<le> (of_char c :: nat) \<and> (of_char c :: nat) \<le> 13)"

definition is_digit :: "char \<Rightarrow> bool" where
  "is_digit c \<longleftrightarrow> 48 \<le> (of_char c :: nat) \<and> (of_char c :: nat) \<le> 57"

definition digits_value :: "string \<Rightarrow> int" where
  "digits_value ds = fold (\<lambda>c v. 10 * v + (of_char c - 48)) ds 0"

definition stoi :: "string \<Rightarrow> int res" where
  "stoi s =
     (let s = dropWhile is_space s;
          neg = (s \<noteq> [] \<and> hd s = CHR ''-'');
          s = (if s \<noteq> [] \<and> (hd s = CHR ''-'' \<or> hd s = CHR ''+'') then tl s else s);
          ds = takeWhile is_digit s;
          v = (if neg then - digits_value ds else digits_value ds)
      in if ds = [] then Inl Exn_invalid_argument
         else if v < - (2 ^ 31) \<or> 2 ^ 31 \<le> v then Inl Exn_out_of_range
         else Inr v)"

text \<open>\<^verbatim>\<open>std::to_string\<close> of a \<^verbatim>\<open>uint8_t\<close>.\<close>

definition to_string :: "u8 \<Rightarrow> string" where
  "to_string b = show_nat (unat b)"

subsection \<open>Topics\<close>

definition Publish :: "('m io \<Rightarrow> bool) \<Rightarrow> string \<Rightarrow> string \<Rightarrow> 'm node_shared \<Rightarrow> bool \<times> 'm io list" where
  "Publish fails topic data s =
     (let msg = PublishFrames [topic, myAddress s, data]
      in if fails msg then (False, []) else (True, [msg]))"

text \<open>The frames of a message received; \<open>None\<close> when the socket gives nothing or throws.\<close>

definition RecvMsgUpdate :: "(string \<times> string \<times> string) option \<Rightarrow> 'm node_shared \<Rightarrow> 'm io list" where
  "RecvMsgUpdate frames s =
     (case frames of
        None \<Rightarrow> []
      | Some (topic, sender, data) \<Rightarrow>
          concat (map (\<lambda>h. map UserCall (fst (sub_RunCallback topic data h)))
            (handlers_of topic (localSubscriptions s))))"

definition RecvControlUpdate ::
    "(string \<times> string \<times> string \<times> string) option \<Rightarrow> 'm node_shared \<Rightarrow> 'm node_shared res" where
  "RecvControlUpdate frames s =
     (case frames of
        None \<Rightarrow> Inr s
      | Some (topic, procUuid, nodeUuid, data) \<Rightarrow>
          rbind (stoi data) (\<lambda>v.
          if v = int (unat NewConnection) then
            Inr (s\<lparr>remoteSubscribers :=
              snd (AddAddress topic '''' '''' procUuid nodeUuid All (remoteSubscribers s))\<rparr>)
          else if v = int (unat EndConnection) then
            Inr (s\<lparr>remoteSubscribers :=
              snd (DelAddressByNode topic procUuid nodeUuid (remoteSubscribers s))\<rparr>)
          else Inr s))"

text \<open>
  The callback for a new publisher.  Whatever throws in the \<^verbatim>\<open>try\<close> block ends it; what was done
  before stays.
\<close>

definition OnNewConnection ::
    "('m io \<Rightarrow> bool) \<Rightarrow> string \<Rightarrow> string \<Rightarrow> string \<Rightarrow> string \<Rightarrow> string \<Rightarrow> scope \<Rightarrow> 'm node_shared
      \<Rightarrow> 'm node_shared \<times> 'm io list" where
  "OnNewConnection fails topic a c p n sc s =
     (if HasHandlersForTopic topic (localSubscriptions s) \<and> ns_pUuid s \<noteq> p then
        let conn = (if \<not> HasAddress a (connections s) then [ConnectSub a] else [])
        in if \<exists>x \<in> set conn. fails x then (s, [])
           else if fails (AddFilter topic) then (s, conn)
           else
             let s = s\<lparr>connections := snd (AddAddress topic a c p n sc (connections s))\<rparr>
             in if fails (ConnectControl c) then (s, conn @ [AddFilter topic])
                else
                  (s, conn @ [AddFilter topic, ConnectControl c] @
                    takeWhile (\<lambda>x. \<not> fails x)
                      (map (\<lambda>h. ControlFrames c [topic, ns_pUuid s, sub_GetNodeUuid h, to_string NewConnection])
                        (handlers_of topic (localSubscriptions s))))
      else (s, []))"

definition OnNewDisconnection ::
    "('m io \<Rightarrow> bool) \<Rightarrow> string \<Rightarrow> string \<Rightarrow> string \<Rightarrow> 'm node_shared
      \<Rightarrow> ('m node_shared \<times> 'm io list) res" where
  "OnNewDisconnection fails topic p n s =
     (if topic \<noteq> '''' \<and> n \<noteq> '''' then
        let s = s\<lparr>remoteSubscribers := snd (DelAddressByNode topic p n (remoteSubscribers s))\<rparr>
        in case GetAddress topic p n (connections s) of
             None \<Rightarrow> Inr (s, [])
           | Some connection \<Rightarrow>
               if fails (DisconnectSub (addr connection)) then Inl Exn_zmq
               else
                 Inr (s\<lparr>connections := snd (DelAddressByNode topic p n (connections s))\<rparr>,
                      [DisconnectSub (addr connection)])
      else
        let s = s\<lparr>remoteSubscribers := snd (DelAddressesByProc p (remoteSubscribers s))\<rparr>
        in case GetAddresses topic (connections s) of
             None \<Rightarrow> Inr (s, [])
           | Some inform \<Rightarrow>
               let calls = map (\<lambda>connection. DisconnectSub (addr connection))
                     (case map_of inform p of Some v \<Rightarrow> v | None \<Rightarrow> [])
               in if \<exists>x \<in> set calls. fails x then Inl Exn_zmq
                  else Inr (s\<lparr>connections := snd (DelAddressesByProc p (connections s))\<rparr>, calls))"

subsection \<open>Services\<close>

text \<open>
  A service request: \<open>result0\<close> is what the uninitialised variable \<^verbatim>\<open>result\<close> holds.  The
  connection to the requester is made outside the \<^verbatim>\<open>try\<close> block.
\<close>

definition RecvSrvRequest ::
    "('m io \<Rightarrow> bool) \<Rightarrow> bool \<Rightarrow> (string \<times> string \<times> string \<times> string \<times> string \<times> string) option \<Rightarrow> 'm node_shared
      \<Rightarrow> ('m node_shared \<times> 'm io list) res" where
  "RecvSrvRequest fails result0 frames s =
     (case frames of
        None \<Rightarrow> Inr (s, [])
      | Some (topic, sender, dstId, nodeUuid, reqUuid, req) \<Rightarrow>
          rbind (GetHandler_first topic (repliers s)) (\<lambda>found.
          case found of
            None \<Rightarrow> Inr (s, [])
          | Some h \<Rightarrow>
              let (rep, result) = rep_RunCallback topic req '''' result0 h;
                  resultStr = (if result then ''1'' else ''0'');
                  conn = (if sender \<notin> set (srvConnections s) then [ConnectRep sender] else [])
              in if \<exists>x \<in> set conn. fails x then Inl Exn_zmq
                 else
                   let s = (if conn \<noteq> [] then s\<lparr>srvConnections := srvConnections s @ [sender]\<rparr> else s);
                       response = ReplyFrames [dstId, topic, nodeUuid, reqUuid, rep, resultStr]
                   in Inr (s, conn @ (if fails response then [] else [response]))))"

definition RecvSrvResponse ::
    "(string \<times> string \<times> string \<times> string \<times> string) option \<Rightarrow> 'm node_shared
      \<Rightarrow> 'm node_shared \<times> 'm io list" where
  "RecvSrvResponse frames s =
     (case frames of
        None \<Rightarrow> (s, [])
      | Some (topic, nodeUuid, reqUuid, rep, resultStr) \<Rightarrow>
          let result = (resultStr = ''1'')
          in case GetHandler topic nodeUuid reqUuid (requests s) of
               None \<Rightarrow> (s, [])
             | Some r \<Rightarrow>
                 let (h, calls) = NotifyResult topic rep result (heap s ! r)
                 in (s\<lparr>heap := (heap s)[r := h],
                       requests := snd (RemoveHandler topic nodeUuid reqUuid (requests s))\<rparr>,
                     map UserCall calls))"

text \<open>
  The loop over the requests of a topic.  A request is marked before it is sent, and stays marked
  when sending throws.
\<close>

definition request_frames :: "string \<Rightarrow> string \<Rightarrow> 'm node_shared \<Rightarrow> 'm req_handler \<Rightarrow> 'm io" where
  "request_frames topic responserId s h =
     RequestFrames [responserId, topic, myRequesterAddress s, responseReceiverId s,
       req_GetNodeUuid h, req_GetHandlerUuid h, req_Serialize h]"

fun send_pending ::
    "('m io \<Rightarrow> bool) \<Rightarrow> string \<Rightarrow> string \<Rightarrow> nat list \<Rightarrow> 'm node_shared \<Rightarrow> 'm node_shared \<times> 'm io list" where
  "send_pending fails topic responserId [] s = (s, [])"
| "send_pending fails topic responserId (r # rs) s =
     (if req_Requested (heap s ! r) then send_pending fails topic responserId rs s
      else
        let s = s\<lparr>heap := (heap s)[r := SetRequested True (heap s ! r)]\<rparr>;
            msg = request_frames topic responserId s (heap s ! r);
            (s', e) = send_pending fails topic responserId rs s
        in (s', (if fails msg then [] else [msg]) @ e))"

definition SendPendingRemoteReqs ::
    "('m io \<Rightarrow> bool) \<Rightarrow> string \<Rightarrow> 'm node_shared \<Rightarrow> ('m node_shared \<times> 'm io list) res" where
  "SendPendingRemoteReqs fails topic s =
     (case GetSrvAddresses topic (disc s) of
        None \<Rightarrow> Inr (s, [])
      | Some [] \<Rightarrow> Inr (s, [])
      | Some ((_, v) # _) \<Rightarrow>
          (case v of
             [] \<Rightarrow> Inl Exn_out_of_range
           | first # _ \<Rightarrow>
               (case GetHandlers topic (requests s) of
                  None \<Rightarrow> Inr (s, [])
                | Some reqs \<Rightarrow>
                    Inr (send_pending fails topic (ctrl first) (handlers_of topic (requests s)) s))))"

definition OnNewSrvConnection ::
    "('m io \<Rightarrow> bool) \<Rightarrow> string \<Rightarrow> string \<Rightarrow> 'm node_shared \<Rightarrow> ('m node_shared \<times> 'm io list) res" where
  "OnNewSrvConnection fails topic a s =
     (let conn = (if a \<notin> set (srvConnections s) then [ConnectReq a] else [])
      in if \<exists>x \<in> set conn. fails x then Inl Exn_zmq
         else
           let s = (if conn \<noteq> [] then s\<lparr>srvConnections := srvConnections s @ [a]\<rparr> else s)
           in rbind (SendPendingRemoteReqs fails topic s) (\<lambda>(s, e). Inr (s, conn @ e)))"

definition OnNewSrvDisconnection :: "string \<Rightarrow> 'm node_shared \<Rightarrow> 'm node_shared" where
  "OnNewSrvDisconnection a s = s\<lparr>srvConnections := filter (\<lambda>x. x \<noteq> a) (srvConnections s)\<rparr>"

text \<open>One round of \<^verbatim>\<open>RunReceptionTask\<close>: what each socket that polling finds ready gives is
  processed, in this order.\<close>

definition reception_round ::
    "('m io \<Rightarrow> bool) \<Rightarrow> bool \<Rightarrow> (string \<times> string \<times> string) option
      \<Rightarrow> (string \<times> string \<times> string \<times> string) option
      \<Rightarrow> (string \<times> string \<times> string \<times> string \<times> string \<times> string) option
      \<Rightarrow> (string \<times> string \<times> string \<times> string \<times> string) option \<Rightarrow> 'm node_shared
      \<Rightarrow> ('m node_shared \<times> 'm io list) res" where
  "reception_round fails result0 msg control req rep s =
     (let e1 = RecvMsgUpdate msg s
      in rbind (RecvControlUpdate control s) (\<lambda>s.
         rbind (RecvSrvRequest fails result0 req s) (\<lambda>(s, e2).
         let (s, e3) = RecvSrvResponse rep s in Inr (s, e1 @ e2 @ e3))))"

subsection \<open>The callbacks of the discovery\<close>

text \<open>
  The constructor registers the four callbacks, so what an operation of the discovery emits is
  either a datagram or a call of one of these, in the order in which they are made.
\<close>

fun handle_event ::
    "('m io \<Rightarrow> bool) \<Rightarrow> event \<Rightarrow> 'm node_shared \<Rightarrow> ('m node_shared \<times> 'm io list) res" where
  "handle_event fails (Send b) s = Inr (s, [Datagram b])"
| "handle_event fails (Call ConnectionCb t a c p n sc) s = Inr (OnNewConnection fails t a c p n sc s)"
| "handle_event fails (Call DisconnectionCb t a c p n sc) s = OnNewDisconnection fails t p n s"
| "handle_event fails (Call ConnectionSrvCb t a c p n sc) s = OnNewSrvConnection fails t a s"
| "handle_event fails (Call DisconnectionSrvCb t a c p n sc) s = Inr (OnNewSrvDisconnection a s, [])"

fun handle_events ::
    "('m io \<Rightarrow> bool) \<Rightarrow> event list \<Rightarrow> 'm node_shared \<Rightarrow> ('m node_shared \<times> 'm io list) res" where
  "handle_events fails [] s = Inr (s, [])"
| "handle_events fails (x # xs) s =
     rbind (handle_event fails x s) (\<lambda>(s, e).
     rbind (handle_events fails xs s) (\<lambda>(s, e'). Inr (s, e @ e')))"

definition with_discovery ::
    "('m io \<Rightarrow> bool) \<Rightarrow> (discovery \<Rightarrow> (discovery \<times> event list) res) \<Rightarrow> 'm node_shared
      \<Rightarrow> ('m node_shared \<times> 'm io list) res" where
  "with_discovery fails f s =
     rbind (f (disc s)) (\<lambda>(d, events). handle_events fails events (s\<lparr>disc := d\<rparr>))"

end
