(* ===== verification/Node.thy ===== *)
theory Node
  imports NodeShared
begin

text \<open>
  \<^verbatim>\<open>src/Node.cc\<close> and the templates of \<^verbatim>\<open>Node.hh\<close>: the operations a user calls.  A node has its own
  record and works on the shared node of its process; an operation gives both, the events, and
  what it returns.  An \<^verbatim>\<open>unordered_set\<close> is a list without repetitions, whose order stands for the
  unspecified order of iteration.  The UUIDs that an operation generates are arguments.

  A callback of a subscription or of a request is the flag that it is not empty: that it is run is an
  event.  The callback of a service is a function.
\<close>

record node =
  topicsSubscribed :: "string list"
  topicsAdvertised :: "string list"
  srvsAdvertised :: "string list"
  nd_nUuid :: string
  nd_partition :: string
  nd_ns :: string

type_synonym 'm node_result = "(node \<times> 'm node_shared \<times> 'm io list \<times> bool) res"

definition set_insert :: "'a \<Rightarrow> 'a list \<Rightarrow> 'a list" where
  "set_insert x xs = (if x \<in> set xs then xs else xs @ [x])"

text \<open>The constructors; \<open>env\<close> is the environment variable \<^verbatim>\<open>IGN_PARTITION\<close>.\<close>

definition Node_ctor :: "string option \<Rightarrow> string \<Rightarrow> node" where
  "Node_ctor env u =
     \<lparr>topicsSubscribed = [], topicsAdvertised = [], srvsAdvertised = [], nd_nUuid = u,
      nd_partition = (case env of None \<Rightarrow> '''' | Some v \<Rightarrow> if IsValidNamespace v then v else ''''),
      nd_ns = ''''\<rparr>"

definition Node_ctor_with :: "string option \<Rightarrow> string \<Rightarrow> string \<Rightarrow> string \<Rightarrow> string \<Rightarrow> node" where
  "Node_ctor_with env u0 part ns u =
     (let nd = Node_ctor env u0;
          nd = (if IsValidNamespace ns then nd\<lparr>nd_ns := ns\<rparr> else nd);
          nd = (if IsValidNamespace part then nd\<lparr>nd_partition := part\<rparr> else nd)
      in nd\<lparr>nd_nUuid := u\<rparr>)"

definition fqn :: "node \<Rightarrow> string \<Rightarrow> string option" where
  "fqn nd topic = GetFullyQualifiedName (nd_partition nd) (nd_ns nd) topic"

subsection \<open>Topics\<close>

definition Node_Advertise ::
    "('m io \<Rightarrow> bool) \<Rightarrow> string \<Rightarrow> scope \<Rightarrow> node \<Rightarrow> 'm node_shared \<Rightarrow> 'm node_result" where
  "Node_Advertise fails topic sc nd s =
     (case fqn nd topic of
        None \<Rightarrow> Inr (nd, s, [], False)
      | Some t \<Rightarrow>
          let nd = nd\<lparr>topicsAdvertised := set_insert t (topicsAdvertised nd)\<rparr>
          in rbind (with_discovery fails
               (Advertise Msg t (myAddress s) (myControlAddress s) (nd_nUuid nd) sc) s)
               (\<lambda>(s, e). Inr (nd, s, e, True)))"

definition AdvertisedTopics :: "node \<Rightarrow> string list" where
  "AdvertisedTopics nd = map strip_partition (topicsAdvertised nd)"

definition Node_Unadvertise ::
    "('m io \<Rightarrow> bool) \<Rightarrow> string \<Rightarrow> node \<Rightarrow> 'm node_shared \<Rightarrow> 'm node_result" where
  "Node_Unadvertise fails topic nd s =
     (case fqn nd topic of
        None \<Rightarrow> Inr (nd, s, [], False)
      | Some t \<Rightarrow>
          let nd = nd\<lparr>topicsAdvertised := removeAll t (topicsAdvertised nd)\<rparr>
          in rbind (with_discovery fails (Unadvertise Msg t (nd_nUuid nd)) s)
               (\<lambda>(s, e). Inr (nd, s, e, True)))"

definition Node_Publish ::
    "('m io \<Rightarrow> bool) \<Rightarrow> ('m \<Rightarrow> string) \<Rightarrow> string \<Rightarrow> 'm \<Rightarrow> node \<Rightarrow> 'm node_shared \<Rightarrow> 'm io list \<times> bool" where
  "Node_Publish fails serialize topic msg nd s =
     (case fqn nd topic of
        None \<Rightarrow> ([], False)
      | Some t \<Rightarrow>
          if t \<notin> set (topicsAdvertised nd) then ([], False)
          else
            (concat (map (\<lambda>h. map UserCall (fst (sub_RunLocalCallback t msg h)))
               (handlers_of t (localSubscriptions s))) @
             (if HasTopic t (remoteSubscribers s) then snd (Publish fails t (serialize msg) s) else []),
             True))"

definition Node_Subscribe ::
    "('m io \<Rightarrow> bool) \<Rightarrow> string \<Rightarrow> string \<Rightarrow> (string \<Rightarrow> 'm) \<Rightarrow> bool \<Rightarrow> node \<Rightarrow> 'm node_shared
      \<Rightarrow> 'm node_result" where
  "Node_Subscribe fails topic hUuid create cb nd s =
     (case fqn nd topic of
        None \<Rightarrow> Inr (nd, s, [], False)
      | Some t \<Rightarrow>
          let h = sub_SetCallback cb (SubscriptionHandler_ctor hUuid (nd_nUuid nd) create);
              s = s\<lparr>localSubscriptions :=
                    AddHandler sh_hUuid t (nd_nUuid nd) h (localSubscriptions s)\<rparr>;
              nd = nd\<lparr>topicsSubscribed := set_insert t (topicsSubscribed nd)\<rparr>
          in rbind (with_discovery fails (\<lambda>d. rbind (Discover t False d) (\<lambda>e. Inr (d, e))) s)
               (\<lambda>(s, e). Inr (nd, s, e, True)))"

text \<open>The overload for a member function.\<close>

definition Node_Subscribe_method ::
    "('m io \<Rightarrow> bool) \<Rightarrow> string \<Rightarrow> string \<Rightarrow> (string \<Rightarrow> 'm) \<Rightarrow> node \<Rightarrow> 'm node_shared \<Rightarrow> 'm node_result" where
  "Node_Subscribe_method fails topic hUuid create nd s =
     (case fqn nd topic of
        None \<Rightarrow> Inr (nd, s, [], False)
      | Some t \<Rightarrow>
          let h = sub_SetCallback True (SubscriptionHandler_ctor hUuid (nd_nUuid nd) create);
              s = s\<lparr>localSubscriptions :=
                    AddHandler sh_hUuid t (nd_nUuid nd) h (localSubscriptions s)\<rparr>;
              nd = nd\<lparr>topicsSubscribed := set_insert t (topicsSubscribed nd)\<rparr>
          in rbind (with_discovery fails (\<lambda>d. rbind (Discover t False d) (\<lambda>e. Inr (d, e))) s)
               (\<lambda>(s, e). Inr (nd, s, e, True)))"

lemma Node_Subscribe_method_eq:
  "Node_Subscribe_method fails topic hUuid create = Node_Subscribe fails topic hUuid create True"
  by (simp add: fun_eq_iff Node_Subscribe_method_def Node_Subscribe_def)

definition SubscribedTopics :: "node \<Rightarrow> string list" where
  "SubscribedTopics nd = map strip_partition (topicsSubscribed nd)"

text \<open>Nothing that the sockets throw is caught here.\<close>

definition Node_Unsubscribe ::
    "('m io \<Rightarrow> bool) \<Rightarrow> string \<Rightarrow> node \<Rightarrow> 'm node_shared \<Rightarrow> 'm node_result" where
  "Node_Unsubscribe fails topic nd s =
     (case fqn nd topic of
        None \<Rightarrow> Inr (nd, s, [], False)
      | Some t \<Rightarrow>
          let s = s\<lparr>localSubscriptions :=
                snd (RemoveHandlersForNode t (nd_nUuid nd) (localSubscriptions s))\<rparr>;
              nd = nd\<lparr>topicsSubscribed := removeAll t (topicsSubscribed nd)\<rparr>;
              unfilter = (if \<not> HasHandlersForTopic t (localSubscriptions s) then [RemoveFilter t] else [])
          in if \<exists>x \<in> set unfilter. fails x then Inl Exn_zmq
             else
               case GetMsgAddresses t (disc s) of
                 None \<Rightarrow> Inr (nd, s, unfilter, False)
               | Some addresses \<Rightarrow>
                   let msgs = concat (map (\<lambda>proc. concat (map (\<lambda>node.
                         [ConnectControl (ctrl node),
                          ControlFrames (ctrl node)
                            [t, myAddress s, nd_nUuid nd, to_string EndConnection]])
                         (snd proc))) addresses)
                   in if \<exists>x \<in> set msgs. fails x then Inl Exn_zmq
                      else Inr (nd, s, unfilter @ msgs, True))"

subsection \<open>Services\<close>

definition Node_AdvertiseSrv ::
    "('m io \<Rightarrow> bool) \<Rightarrow> string \<Rightarrow> string \<Rightarrow> (string \<Rightarrow> 'm) \<Rightarrow> 'm \<Rightarrow> ('m \<Rightarrow> string)
      \<Rightarrow> (string \<Rightarrow> 'm \<Rightarrow> 'm \<Rightarrow> bool \<Rightarrow> 'm \<times> bool) option \<Rightarrow> scope \<Rightarrow> node \<Rightarrow> 'm node_shared \<Rightarrow> 'm node_result" where
  "Node_AdvertiseSrv fails topic hUuid create new serialize cb sc nd s =
     (case fqn nd topic of
        None \<Rightarrow> Inr (nd, s, [], False)
      | Some t \<Rightarrow>
          let nd = nd\<lparr>srvsAdvertised := set_insert t (srvsAdvertised nd)\<rparr>;
              h = rep_SetCallback cb (RepHandler_ctor hUuid create new serialize);
              s = s\<lparr>repliers := AddHandler rh_hUuid t (nd_nUuid nd) h (repliers s)\<rparr>
          in rbind (with_discovery fails
               (Advertise Srv t (myReplierAddress s) (replierId s) (nd_nUuid nd) sc) s)
               (\<lambda>(s, e). Inr (nd, s, e, True)))"

text \<open>The overload for a member function \<open>m\<close> of an object \<open>obj\<close>; a bound function is never empty.\<close>

definition Node_AdvertiseSrv_method ::
    "('m io \<Rightarrow> bool) \<Rightarrow> string \<Rightarrow> string \<Rightarrow> (string \<Rightarrow> 'm) \<Rightarrow> 'm \<Rightarrow> ('m \<Rightarrow> string)
      \<Rightarrow> ('c \<Rightarrow> string \<Rightarrow> 'm \<Rightarrow> 'm \<Rightarrow> bool \<Rightarrow> 'm \<times> bool) \<Rightarrow> 'c \<Rightarrow> scope \<Rightarrow> node \<Rightarrow> 'm node_shared
      \<Rightarrow> 'm node_result" where
  "Node_AdvertiseSrv_method fails topic hUuid create new serialize m obj sc nd s =
     (case fqn nd topic of
        None \<Rightarrow> Inr (nd, s, [], False)
      | Some t \<Rightarrow>
          let nd = nd\<lparr>srvsAdvertised := set_insert t (srvsAdvertised nd)\<rparr>;
              h = rep_SetCallback (Some (\<lambda>name req rep result. m obj name req rep result))
                    (RepHandler_ctor hUuid create new serialize);
              s = s\<lparr>repliers := AddHandler rh_hUuid t (nd_nUuid nd) h (repliers s)\<rparr>
          in rbind (with_discovery fails
               (Advertise Srv t (myReplierAddress s) (replierId s) (nd_nUuid nd) sc) s)
               (\<lambda>(s, e). Inr (nd, s, e, True)))"

lemma Node_AdvertiseSrv_method_eq:
  "Node_AdvertiseSrv_method fails topic hUuid create new serialize m obj =
     Node_AdvertiseSrv fails topic hUuid create new serialize (Some (m obj))"
  by (simp add: fun_eq_iff Node_AdvertiseSrv_method_def Node_AdvertiseSrv_def)

definition AdvertisedServices :: "node \<Rightarrow> string list" where
  "AdvertisedServices nd = map strip_partition (srvsAdvertised nd)"

text \<open>The discovery is asked to unadvertise a \<open>Msg\<close>, as the code has it.\<close>

definition Node_UnadvertiseSrv ::
    "('m io \<Rightarrow> bool) \<Rightarrow> string \<Rightarrow> node \<Rightarrow> 'm node_shared \<Rightarrow> 'm node_result" where
  "Node_UnadvertiseSrv fails topic nd s =
     (case fqn nd topic of
        None \<Rightarrow> Inr (nd, s, [], False)
      | Some t \<Rightarrow>
          let nd = nd\<lparr>srvsAdvertised := removeAll t (srvsAdvertised nd)\<rparr>;
              s = s\<lparr>repliers := snd (RemoveHandlersForNode t (nd_nUuid nd) (repliers s))\<rparr>
          in rbind (with_discovery fails (Unadvertise Msg t (nd_nUuid nd)) s)
               (\<lambda>(s, e). Inr (nd, s, e, True)))"

text \<open>The second half of every \<open>Request\<close>: file the new request handler \<open>h\<close> and look for a
  responder.\<close>

definition file_request ::
    "('m io \<Rightarrow> bool) \<Rightarrow> string \<Rightarrow> 'm req_handler \<Rightarrow> node \<Rightarrow> 'm node_shared
      \<Rightarrow> ('m node_shared \<times> 'm io list) res" where
  "file_request fails t h nd s =
     (let objects = heap s @ [h];
          s = s\<lparr>heap := objects,
                requests := AddHandler (\<lambda>r. rq_hUuid (objects ! r)) t (nd_nUuid nd) (length (heap s))
                  (requests s)\<rparr>
      in case GetSrvAddresses t (disc s) of
           Some _ \<Rightarrow> SendPendingRemoteReqs fails t s
         | None \<Rightarrow> with_discovery fails (\<lambda>d. rbind (Discover t True d) (\<lambda>e. Inr (d, e))) s)"

text \<open>
  The request with a callback.  \<open>create\<close>, \<open>serialize\<close> and \<open>new\<close> belong to the message types;
  \<open>rep0\<close> and \<open>result0\<close> are the local variables that the responder of the same process fills in.
\<close>

definition Node_Request ::
    "('m io \<Rightarrow> bool) \<Rightarrow> string \<Rightarrow> 'm \<Rightarrow> string \<Rightarrow> (string \<Rightarrow> 'm) \<Rightarrow> ('m \<Rightarrow> string) \<Rightarrow> 'm \<Rightarrow> bool \<Rightarrow> 'm \<Rightarrow> bool
      \<Rightarrow> node \<Rightarrow> 'm node_shared \<Rightarrow> 'm node_result" where
  "Node_Request fails topic req hUuid create serialize new cb rep0 result0 nd s =
     (case fqn nd topic of
        None \<Rightarrow> Inr (nd, s, [], False)
      | Some t \<Rightarrow>
          rbind (GetHandler_first t (repliers s)) (\<lambda>found.
          case found of
            Some h \<Rightarrow>
              let (rep, result) = rep_RunLocalCallback t req rep0 result0 h
              in Inr (nd, s, [UserCall (LocalReply (strip_partition t) rep result)], True)
          | None \<Rightarrow>
              let h = req_SetCallback cb (req_SetMessage req
                    (ReqHandler_ctor hUuid (nd_nUuid nd) create serialize new))
              in rbind (file_request fails t h nd s) (\<lambda>(s, e). Inr (nd, s, e, True))))"

text \<open>The overload for a member function.\<close>

definition Node_Request_method ::
    "('m io \<Rightarrow> bool) \<Rightarrow> string \<Rightarrow> 'm \<Rightarrow> string \<Rightarrow> (string \<Rightarrow> 'm) \<Rightarrow> ('m \<Rightarrow> string) \<Rightarrow> 'm \<Rightarrow> 'm \<Rightarrow> bool
      \<Rightarrow> node \<Rightarrow> 'm node_shared \<Rightarrow> 'm node_result" where
  "Node_Request_method fails topic req hUuid create serialize new rep0 result0 nd s =
     (case fqn nd topic of
        None \<Rightarrow> Inr (nd, s, [], False)
      | Some t \<Rightarrow>
          rbind (GetHandler_first t (repliers s)) (\<lambda>found.
          case found of
            Some h \<Rightarrow>
              let (rep, result) = rep_RunLocalCallback t req rep0 result0 h
              in Inr (nd, s, [UserCall (LocalReply (strip_partition t) rep result)], True)
          | None \<Rightarrow>
              let h = req_SetCallback True (req_SetMessage req
                    (ReqHandler_ctor hUuid (nd_nUuid nd) create serialize new))
              in rbind (file_request fails t h nd s) (\<lambda>(s, e). Inr (nd, s, e, True))))"

lemma Node_Request_method_eq:
  "Node_Request_method fails topic req hUuid create serialize new =
     Node_Request fails topic req hUuid create serialize new True"
  by (simp add: fun_eq_iff Node_Request_method_def Node_Request_def)

text \<open>The blocking request, up to the wait and after it.\<close>

datatype 'm started = Rejected | Answered 'm bool | Waiting nat

definition Node_Request_start ::
    "('m io \<Rightarrow> bool) \<Rightarrow> string \<Rightarrow> 'm \<Rightarrow> string \<Rightarrow> (string \<Rightarrow> 'm) \<Rightarrow> ('m \<Rightarrow> string) \<Rightarrow> 'm \<Rightarrow> 'm \<Rightarrow> bool
      \<Rightarrow> node \<Rightarrow> 'm node_shared \<Rightarrow> ('m started \<times> 'm node_shared \<times> 'm io list) res" where
  "Node_Request_start fails topic req hUuid create serialize new rep0 result0 nd s =
     (case fqn nd topic of
        None \<Rightarrow> Inr (Rejected, s, [])
      | Some t \<Rightarrow>
          rbind (GetHandler_first t (repliers s)) (\<lambda>found.
          case found of
            Some h \<Rightarrow>
              let (rep, result) = rep_RunLocalCallback t req rep0 result0 h
              in Inr (Answered rep result, s, [])
          | None \<Rightarrow>
              let h = req_SetMessage req (ReqHandler_ctor hUuid (nd_nUuid nd) create serialize new)
              in rbind (file_request fails t h nd s) (\<lambda>(s', e). Inr (Waiting (length (heap s)), s', e))))"

definition Node_Request_finish ::
    "(string \<Rightarrow> 'm) \<Rightarrow> 'm \<Rightarrow> bool \<Rightarrow> nat \<Rightarrow> 'm node_shared \<Rightarrow> bool \<times> 'm \<times> bool" where
  "Node_Request_finish from_string rep0 result0 r s =
     (let h = heap s ! r; executed = WaitUntil_result h
      in if executed
         then (executed, if req_GetResult h then from_string (req_GetRep h) else rep0, req_GetResult h)
         else (executed, rep0, result0))"

subsection \<open>Lists and the destructor\<close>

fun list_loop :: "string \<Rightarrow> string list \<Rightarrow> string list res" where
  "list_loop part [] = Inr []"
| "list_loop part (topic # rest) =
     rbind (topic_partition topic) (\<lambda>p.
     if p \<noteq> part then list_loop part rest
     else rbind (list_loop part rest) (\<lambda>topics. Inr (strip_partition topic # topics)))"

definition Node_GetTopicList :: "node \<Rightarrow> 'm node_shared \<Rightarrow> string list res" where
  "Node_GetTopicList nd s = list_loop (nd_partition nd) (Discovery_GetTopicList (disc s) [])"

definition Node_GetServiceList :: "node \<Rightarrow> 'm node_shared \<Rightarrow> string list res" where
  "Node_GetServiceList nd s = list_loop (nd_partition nd) (Discovery_GetServiceList (disc s) [])"

definition Node_Partition :: "node \<Rightarrow> string" where
  "Node_Partition nd = nd_partition nd"

text \<open>The destructor.\<close>

fun for_each ::
    "(string \<Rightarrow> node \<Rightarrow> 'm node_shared \<Rightarrow> 'm node_result) \<Rightarrow> string list \<Rightarrow> node \<Rightarrow> 'm node_shared
      \<Rightarrow> (node \<times> 'm node_shared \<times> 'm io list) res" where
  "for_each f [] nd s = Inr (nd, s, [])"
| "for_each f (x # xs) nd s =
     rbind (f x nd s) (\<lambda>(nd, s, e, _).
     rbind (for_each f xs nd s) (\<lambda>(nd, s, e'). Inr (nd, s, e @ e')))"

definition Node_dtor ::
    "('m io \<Rightarrow> bool) \<Rightarrow> node \<Rightarrow> 'm node_shared \<Rightarrow> (node \<times> 'm node_shared \<times> 'm io list) res" where
  "Node_dtor fails nd s =
     rbind (for_each (Node_Unsubscribe fails) (SubscribedTopics nd) nd s) (\<lambda>(nd, s, e1).
     if SubscribedTopics nd \<noteq> [] then Inl AssertFailed else
     rbind (for_each (Node_Unadvertise fails) (AdvertisedTopics nd) nd s) (\<lambda>(nd, s, e2).
     if AdvertisedTopics nd \<noteq> [] then Inl AssertFailed else
     rbind (for_each (Node_UnadvertiseSrv fails) (AdvertisedServices nd) nd s) (\<lambda>(nd, s, e3).
     if AdvertisedServices nd \<noteq> [] then Inl AssertFailed else
     Inr (nd, s, e1 @ e2 @ e3))))"

end
