(* ===== verification/DiscoveryProtocol.thy ===== *)
theory DiscoveryProtocol
  imports Discovery
begin

text \<open>
  The messages of the discovery protocol without their bytes.  \<open>dmsg\<close> is what a process says,
  \<open>dmsg_wire\<close> the datagram that says it, and \<open>deliver\<close> what the receiver does about it.  The
  lemmas show that \<open>SendMsg\<close> sends exactly these datagrams, and that \<open>DispatchDiscoveryMsg\<close>, which
  works on bytes, does exactly what \<open>deliver\<close> says.
\<close>

datatype dmsg =
    Advertised msg_kind string string string string scope
  | Unadvertised msg_kind string string string string scope
  | Requested msg_kind string
  | Heartbeat
  | Bye

fun dmsg_type :: "dmsg \<Rightarrow> u8" where
  "dmsg_type (Advertised k t a c n sc) = adv_type k"
| "dmsg_type (Unadvertised k t a c n sc) = unadv_type k"
| "dmsg_type (Requested k t) = sub_type k"
| "dmsg_type Heartbeat = HeartbeatType"
| "dmsg_type Bye = ByeType"

definition adv_body :: "string \<Rightarrow> string \<Rightarrow> string \<Rightarrow> string \<Rightarrow> scope \<Rightarrow> string" where
  "adv_body t a c n sc =
     base_wire (AdvertiseMsg_ctor Header_default t a c n sc '''') @ str_bytes ''not used''"

fun dmsg_body :: "dmsg \<Rightarrow> string" where
  "dmsg_body (Advertised k t a c n sc) = adv_body t a c n sc"
| "dmsg_body (Unadvertised k t a c n sc) = adv_body t a c n sc"
| "dmsg_body (Requested k t) = str_bytes t"
| "dmsg_body Heartbeat = []"
| "dmsg_body Bye = []"

definition dmsg_header :: "string \<Rightarrow> dmsg \<Rightarrow> header" where
  "dmsg_header p m = Header_ctor Version p (dmsg_type m) 0"

definition dmsg_wire :: "string \<Rightarrow> dmsg \<Rightarrow> string" where
  "dmsg_wire p m = header_wire (dmsg_header p m) @ dmsg_body m"

text \<open>What can be sent: no mandatory field is empty and the sizes do not wrap.\<close>

fun dmsg_complete :: "dmsg \<Rightarrow> bool" where
  "dmsg_complete (Advertised k t a c n sc) \<longleftrightarrow> t \<noteq> [] \<and> a \<noteq> [] \<and> n \<noteq> [] \<and> scope_ok sc"
| "dmsg_complete (Unadvertised k t a c n sc) \<longleftrightarrow> t \<noteq> [] \<and> a \<noteq> [] \<and> n \<noteq> [] \<and> scope_ok sc"
| "dmsg_complete (Requested k t) \<longleftrightarrow> t \<noteq> []"
| "dmsg_complete Heartbeat \<longleftrightarrow> True"
| "dmsg_complete Bye \<longleftrightarrow> True"

definition sendable :: "string \<Rightarrow> dmsg \<Rightarrow> bool" where
  "sendable p m \<longleftrightarrow> p \<noteq> [] \<and> dmsg_complete m \<and> fits (dmsg_wire p m)"

text \<open>The call of \<open>SendMsg\<close> that says a message.\<close>

fun say :: "dmsg \<Rightarrow> discovery \<Rightarrow> event list res" where
  "say (Advertised k t a c n sc) d = SendMsg (adv_type k) t a c n sc 0 d"
| "say (Unadvertised k t a c n sc) d = SendMsg (unadv_type k) t a c n sc 0 d"
| "say (Requested k t) d = SendMsg (sub_type k) t '''' '''' '''' All 0 d"
| "say Heartbeat d = SendMsg HeartbeatType '''' '''' '''' '''' All 0 d"
| "say Bye d = SendMsg ByeType '''' '''' '''' '''' All 0 d"

subsection \<open>What is sent\<close>

lemma ucast_of_nat_32:
  assumes "n < 2 ^ 31"
  shows "(ucast (of_nat n :: size_t) :: c_int) = of_nat n"
  by (simp only: unsigned_of_nat of_nat_take_bit) (simp add: take_bit_word_eq_self)

lemma transmit_all:
  assumes "fits w"
  shows "transmit (of_nat (length w)) (Some w) = Inr [Send w]"
proof -
  have "length w < 2 ^ 31" using assms by (simp add: fits_def)
  then have "scast (ucast (of_nat (length w) :: size_t) :: c_int) = (of_nat (length w) :: size_t)"
    by (simp only: ucast_of_nat_32 scast_of_nat_32)
  then show ?thesis
    using fits_64 [OF assms] advance_prefix [of "of_nat (length w)" w "[]"]
    by (simp add: transmit_def Let_def)
qed

lemma new_buffer_of_nat: "n < 2 ^ 64 \<Longrightarrow> new_buffer (of_nat n) = Some (replicate n CHR 0x00)"
  by (simp add: new_buffer_def unat_of_nat_64)

lemma AdvertiseMsg_GetMsgLength_wire:
  assumes "header_fits (adv_header m)"
  shows "AdvertiseMsg_GetMsgLength m = of_nat (length (AdvertiseMsg_wire m))"
  by (simp add: AdvertiseMsg_GetMsgLength_def AdvertiseBase_GetMsgLength_wire [OF assms]
      AdvertiseMsg_wire_def str_len_def)

lemma SubscriptionMsg_GetMsgLength_wire:
  assumes "header_fits (sub_header m)"
  shows "SubscriptionMsg_GetMsgLength m = of_nat (length (SubscriptionMsg_wire m))"
  using header_len_64 [OF assms]
  by (simp add: SubscriptionMsg_GetMsgLength_def SubscriptionMsg_wire_def str_len_def)

lemma adv_wire:
  "AdvertiseMsg_wire (AdvertiseMsg_ctor h t a c n sc ''not used'') = header_wire h @ adv_body t a c n sc"
  by (simp add: AdvertiseMsg_wire_def AdvertiseBase_wire_def adv_body_def AdvertiseMsg_ctor_def
      AdvertiseBase_ctor_def AdvertiseMsg_default_def base_wire_def)

lemma kind_type_complete:
  "adv_type k \<noteq> 0" "unadv_type k \<noteq> 0" "sub_type k \<noteq> 0"
  by (cases k; simp add: msg_type_defs)+

lemma type_complete: "dmsg_type m \<noteq> Uninitialized"
  by (cases m rule: dmsg_type.cases) (simp_all add: kind_type_complete msg_type_defs)

lemma dmsg_header_complete: "p \<noteq> [] \<Longrightarrow> header_complete (dmsg_header p m)"
  using type_complete [of m]
  by (simp add: header_complete_def dmsg_header_def Header_ctor_simps Version_def)

lemma SendMsg_adv:
  assumes p: "pUuid d \<noteq> []" and nonempty: "t \<noteq> []" "a \<noteq> []" "n \<noteq> []"
    and ty: "ty = AdvType \<or> ty = UnadvType \<or> ty = AdvSrvType \<or> ty = UnadvSrvType"
    and fits: "fits (header_wire (Header_ctor Version (pUuid d) ty 0) @ adv_body t a c n sc)"
  shows "SendMsg ty t a c n sc 0 d =
    Inr [Send (header_wire (Header_ctor Version (pUuid d) ty 0) @ adv_body t a c n sc)]"
proof -
  let ?h = "Header_ctor Version (pUuid d) ty 0"
  let ?m = "AdvertiseMsg_ctor ?h t a c n sc ''not used''"
  define w where "w = AdvertiseMsg_wire ?m"
  have w: "fits w" "w = header_wire ?h @ adv_body t a c n sc"
    using fits by (simp_all add: adv_wire w_def)
  have [simp]: "adv_header ?m = ?h" "adv_msgTypeName ?m = ''not used''"
    by (simp_all add: AdvertiseMsg_ctor_def AdvertiseBase_ctor_def AdvertiseMsg_default_def)
  have hf: "header_fits ?h" using fits fits_append fits_header_wire by blast
  have hc: "header_complete ?h"
    using p ty by (auto simp: header_complete_def Header_ctor_simps Version_def msg_type_defs)
  have bc: "base_complete ?m"
    using nonempty by (simp add: base_complete_def AdvertiseMsg_ctor_def AdvertiseBase_ctor_def
        AdvertiseMsg_default_def)
  have len: "AdvertiseMsg_GetMsgLength ?m = of_nat (length w)"
    using hf by (simp add: AdvertiseMsg_GetMsgLength_wire w_def)
  have "AdvertiseMsg_Pack ?m (new_buffer (of_nat (length w))) =
      Inr (of_nat (length w), Some (w @ drop (length w) (replicate (length w) CHR 0x00)))"
    using AdvertiseMsg_Pack_wire [of ?m "replicate (length w) CHR 0x00"] hc bc w(1)
    by (simp add: new_buffer_of_nat [OF fits_64 [OF w(1)]] flip: w_def)
  then have "SendMsg ty t a c n sc 0 d = Inr [Send w]"
    using ty by (simp add: SendMsg_def Let_def len transmit_all [OF w(1)])
  then show ?thesis by (simp only: w(2))
qed

lemma SendMsg_sub:
  assumes p: "pUuid d \<noteq> []" and nonempty: "t \<noteq> []" and ty: "ty = SubType \<or> ty = SubSrvType"
    and fits: "fits (header_wire (Header_ctor Version (pUuid d) ty 0) @ str_bytes t)"
  shows "SendMsg ty t a c n sc 0 d =
    Inr [Send (header_wire (Header_ctor Version (pUuid d) ty 0) @ str_bytes t)]"
proof -
  let ?h = "Header_ctor Version (pUuid d) ty 0"
  let ?m = "SubscriptionMsg_ctor ?h t"
  define w where "w = SubscriptionMsg_wire ?m"
  have [simp]: "sub_header ?m = ?h" "sub_topic ?m = t"
    by (simp_all add: SubscriptionMsg_ctor_def SubscriptionMsg_default_def)
  have w: "fits w" "w = header_wire ?h @ str_bytes t"
    using fits by (simp_all add: SubscriptionMsg_wire_def w_def)
  have hf: "header_fits ?h" using fits fits_append fits_header_wire by blast
  have hc: "header_complete ?h"
    using p ty by (auto simp: header_complete_def Header_ctor_simps Version_def msg_type_defs)
  have len: "SubscriptionMsg_GetMsgLength ?m = of_nat (length w)"
    using hf by (simp add: SubscriptionMsg_GetMsgLength_wire w_def)
  have "SubscriptionMsg_Pack ?m (new_buffer (of_nat (length w))) =
      Inr (of_nat (length w), Some (w @ drop (length w) (replicate (length w) CHR 0x00)))"
    using SubscriptionMsg_Pack_wire [of ?m "replicate (length w) CHR 0x00"] hc w(1) nonempty
    by (simp add: new_buffer_of_nat [OF fits_64 [OF w(1)]] flip: w_def)
  then have "SendMsg ty t a c n sc 0 d = Inr [Send w]"
    using ty by (auto simp: SendMsg_def Let_def len transmit_all [OF w(1)] msg_type_defs)
  then show ?thesis by (simp only: w(2))
qed

lemma SendMsg_plain:
  assumes p: "pUuid d \<noteq> []" and ty: "ty = HeartbeatType \<or> ty = ByeType"
    and fits: "fits (header_wire (Header_ctor Version (pUuid d) ty 0))"
  shows "SendMsg ty t a c n sc 0 d = Inr [Send (header_wire (Header_ctor Version (pUuid d) ty 0))]"
proof -
  let ?h = "Header_ctor Version (pUuid d) ty 0"
  define w where "w = header_wire ?h"
  have hf: "header_fits ?h" using fits fits_header_wire by blast
  have hc: "header_complete ?h"
    using p ty by (auto simp: header_complete_def Header_ctor_simps Version_def msg_type_defs)
  have len: "scast (GetHeaderLength ?h) = (of_nat (length w) :: size_t)"
    using header_len_64(1) [OF hf] by (simp add: w_def)
  have "Header_Pack ?h (new_buffer (of_nat (length w))) = Inr (of_nat (length w), Some w)"
    unfolding new_buffer_of_nat [OF fits_64 [OF fits, folded w_def]]
    using hc hf header_len_64(1) [OF hf]
    by (simp add: header_complete_def Header_Pack_wire header_fits_str_ok w_def)
  then have "SendMsg ty t a c n sc 0 d = Inr [Send w]"
    using ty fits by (auto simp: SendMsg_def Let_def len transmit_all msg_type_defs simp flip: w_def)
  then show ?thesis by (simp only: w_def)
qed

lemma say_wire:
  assumes "sendable (pUuid d) m"
  shows "say m d = Inr [Send (dmsg_wire (pUuid d) m)]"
proof (cases m)
  case (Advertised k t a c n sc)
  with assms show ?thesis
    by (cases k) (simp_all add: sendable_def dmsg_wire_def dmsg_header_def SendMsg_adv)
next
  case (Unadvertised k t a c n sc)
  with assms show ?thesis
    by (cases k) (simp_all add: sendable_def dmsg_wire_def dmsg_header_def SendMsg_adv)
next
  case (Requested k t)
  with assms show ?thesis
    by (cases k) (simp_all add: sendable_def dmsg_wire_def dmsg_header_def SendMsg_sub)
next
  case Heartbeat
  with assms show ?thesis
    by (simp add: sendable_def dmsg_wire_def dmsg_header_def SendMsg_plain)
next
  case Bye
  with assms show ?thesis
    by (simp add: sendable_def dmsg_wire_def dmsg_header_def SendMsg_plain)
qed

subsection \<open>What is done on reception\<close>

text \<open>The reaction to a message of process \<open>p\<close> that comes from the host \<open>fromIp\<close>.\<close>

definition deliver ::
    "int \<Rightarrow> string \<Rightarrow> string \<Rightarrow> dmsg \<Rightarrow> discovery \<Rightarrow> (discovery \<times> event list) res" where
  "deliver now fromIp p m d =
     (if p = pUuid d then Inr (d, [])
      else
        let d = d\<lparr>activity := map_put p now (activity d)\<rparr>
        in case m of
             Advertised k t a c n sc \<Rightarrow> Inr (on_advertise k fromIp p t a c n sc d)
           | Unadvertised k t a c n sc \<Rightarrow> Inr (on_unadvertise k fromIp p t a c n sc d)
           | Requested k t \<Rightarrow> rbind (on_subscribe k fromIp t d) (\<lambda>e. Inr (d, e))
           | Heartbeat \<Rightarrow> Inr (d, [])
           | Bye \<Rightarrow> Inr (on_bye p d))"

text \<open>The sizes that make the bytes of a message decodable; empty fields are no obstacle.\<close>

fun body_ok :: "dmsg \<Rightarrow> bool" where
  "body_ok (Advertised k t a c n sc) \<longleftrightarrow> scope_ok sc"
| "body_ok (Unadvertised k t a c n sc) \<longleftrightarrow> scope_ok sc"
| "body_ok _ \<longleftrightarrow> True"

definition readable :: "string \<Rightarrow> dmsg \<Rightarrow> bool" where
  "readable p m \<longleftrightarrow> body_ok m \<and> fits (dmsg_wire p m)"

lemma sendable_readable: "sendable p m \<Longrightarrow> readable p m"
  by (cases m) (simp_all add: sendable_def readable_def)

lemma adv_body_unpack:
  assumes "fits (adv_body t a c n sc)" and "scope_ok sc"
  shows "AdvertiseMsg_UnpackBody AdvertiseMsg_default (Some (adv_body t a c n sc @ r)) =
    Inr (of_nat (length (adv_body t a c n sc)),
         AdvertiseMsg_ctor Header_default t a c n sc ''not used'')"
proof -
  let ?m = "AdvertiseMsg_ctor Header_default t a c n sc ''''"
  have f: "fits (base_wire ?m)" using assms(1) fits_append unfolding adv_body_def by blast
  then have "base_ok ?m"
    using assms(2) fits_base_wire [OF f]
    by (simp add: base_ok_def AdvertiseMsg_ctor_def AdvertiseBase_ctor_def)
  then show ?thesis
    using f AdvertiseMsg_UnpackBody_wire [of ?m "''not used''" AdvertiseMsg_default r]
    by (simp add: adv_body_def str_ok_def)
      (simp add: AdvertiseMsg_ctor_def AdvertiseBase_ctor_def AdvertiseMsg_default_def)
qed

lemma adv_ctor_fields [simp]:
  "adv_topic (AdvertiseMsg_ctor h t a c n sc ty) = t"
  "adv_addr (AdvertiseMsg_ctor h t a c n sc ty) = a"
  "adv_ctrl (AdvertiseMsg_ctor h t a c n sc ty) = c"
  "adv_nUuid (AdvertiseMsg_ctor h t a c n sc ty) = n"
  "adv_scope (AdvertiseMsg_ctor h t a c n sc ty) = sc"
  by (simp_all add: AdvertiseMsg_ctor_def AdvertiseBase_ctor_def)

lemma type_dispatch:
  "adv_type k = AdvType \<or> adv_type k = AdvSrvType"
  "(if adv_type k = AdvType then Msg else Srv) = k"
  "sub_type k \<noteq> AdvType \<and> sub_type k \<noteq> AdvSrvType \<and> (sub_type k = SubType \<or> sub_type k = SubSrvType)"
  "(if sub_type k = SubType then Msg else Srv) = k"
  "unadv_type k \<noteq> AdvType \<and> unadv_type k \<noteq> AdvSrvType \<and> unadv_type k \<noteq> SubType \<and>
   unadv_type k \<noteq> SubSrvType \<and> unadv_type k \<noteq> HeartbeatType \<and> unadv_type k \<noteq> ByeType \<and>
   (unadv_type k = UnadvType \<or> unadv_type k = UnadvSrvType)"
  "(if unadv_type k = UnadvType then Msg else Srv) = k"
  by (cases k; simp add: msg_type_defs)+

lemma dispatch_body_wire:
  assumes "fits (dmsg_body m)" and "body_ok m"
  shows "dispatch_body fromIp p (dmsg_type m) (dmsg_body m @ r) d =
    (case m of
       Advertised k t a c n sc \<Rightarrow> Inr (on_advertise k fromIp p t a c n sc d)
     | Unadvertised k t a c n sc \<Rightarrow> Inr (on_unadvertise k fromIp p t a c n sc d)
     | Requested k t \<Rightarrow> rbind (on_subscribe k fromIp t d) (\<lambda>e. Inr (d, e))
     | Heartbeat \<Rightarrow> Inr (d, [])
     | Bye \<Rightarrow> Inr (on_bye p d))"
proof (cases m)
  case (Advertised k t a c n sc)
  then show ?thesis
    using assms by (simp add: dispatch_body_def type_dispatch adv_body_unpack)
next
  case (Unadvertised k t a c n sc)
  then show ?thesis
    using assms by (simp add: dispatch_body_def type_dispatch adv_body_unpack)
next
  case (Requested k t)
  then show ?thesis
    using assms fits_str_bytes [of t]
    by (simp add: dispatch_body_def type_dispatch SubscriptionMsg_UnpackBody_wire)
qed (simp_all add: dispatch_body_def msg_type_defs)

text \<open>Header version and flags are not looked at, nor what follows the message.\<close>

lemma Dispatch_wire:
  assumes "readable p m" and "fits (header_wire (Header_ctor v p (dmsg_type m) f))"
  shows "DispatchDiscoveryMsg now fromIp
      (header_wire (Header_ctor v p (dmsg_type m) f) @ dmsg_body m @ r) d = deliver now fromIp p m d"
proof -
  let ?h = "Header_ctor v p (dmsg_type m) f"
  have hf: "header_fits ?h" using assms(2) fits_header_wire by blast
  have [simp]: "hdr_pUuid ?h = p" "hdr_type ?h = dmsg_type m" by (simp_all add: Header_ctor_simps)
  have so: "str_ok p" using header_fits_str_ok [OF hf] by simp
  have "DispatchDiscoveryMsg now fromIp (header_wire ?h @ dmsg_body m @ r) d =
    (if p = pUuid d then Inr (d, []) else
       dispatch_body fromIp p (dmsg_type m) (dmsg_body m @ r)
         (d\<lparr>activity := map_put p now (activity d)\<rparr>))"
    using header_len_64(1) [OF hf] fits_64 [OF assms(2)]
    by (simp add: DispatchDiscoveryMsg_def Header_Unpack_wire so advance_prefix)
  moreover have "fits (dmsg_body m)"
    using assms(1) fits_append unfolding readable_def dmsg_wire_def by blast
  ultimately show ?thesis
    using assms(1) by (simp add: dispatch_body_wire readable_def deliver_def Let_def)
qed

lemma Dispatch_dmsg_wire:
  assumes "readable p m"
  shows "DispatchDiscoveryMsg now fromIp (dmsg_wire p m @ r) d = deliver now fromIp p m d"
proof -
  have "fits (header_wire (Header_ctor Version p (dmsg_type m) 0))"
    using assms fits_append unfolding readable_def dmsg_wire_def dmsg_header_def by blast
  from Dispatch_wire [OF assms this] show ?thesis by (simp add: dmsg_wire_def dmsg_header_def)
qed

end
