(* ===== verification/DiscoveryInvariant.thy ===== *)
theory DiscoveryInvariant
  imports DiscoveryProtocol
begin

text \<open>
  What holds of the state of a discovery at all times: the storages are well formed, a process
  never keeps itself in its activity table, every other process it holds a record of has an entry
  there (so that the record expires when the process falls silent), and no record of another
  process is local to that process.  Then what expiry and good-bye remove.
\<close>

subsection \<open>Reading and updating one component\<close>

lemma info_set_info: "info k (set_info k' s d) = (if k = k' then s else info k d)"
  by (cases k; cases k') simp_all

lemma set_info_frame [simp]:
  "pUuid (set_info k s d) = pUuid d" "hostAddr (set_info k s d) = hostAddr d"
  "activity (set_info k s d) = activity d" "silenceInterval (set_info k s d) = silenceInterval d"
  "has_callback cb (set_info k s d) = has_callback cb d"
  "disconnectionCb (set_info k s d) = disconnectionCb d"
  by (cases k; cases cb; simp)+

lemma set_info_same: "set_info k (info k d) d = d"
  by (cases k) simp_all

lemma info_activity [simp]: "info k (d\<lparr>activity := a\<rparr>) = info k d"
  by (cases k) simp_all

lemma hidden_activity [simp]: "hidden ip sc (d\<lparr>activity := a\<rparr>) = hidden ip sc d"
  by (simp add: hidden_def)

lemma has_callback_activity [simp]: "has_callback cb (d\<lparr>activity := a\<rparr>) = has_callback cb d"
  by (cases cb) simp_all

text \<open>The records of a process for a topic.\<close>

definition records :: "msg_kind \<Rightarrow> discovery \<Rightarrow> string \<Rightarrow> string \<Rightarrow> address list" where
  "records k d t p = vec (info k d) t p"

text \<open>All that a process knows about another one, dropped.\<close>

definition forget :: "string \<Rightarrow> discovery \<Rightarrow> discovery" where
  "forget p d =
     d\<lparr>infoMsg := snd (DelAddressesByProc p (infoMsg d)),
       infoSrv := snd (DelAddressesByProc p (infoSrv d)),
       activity := map_erase p (activity d)\<rparr>"

lemma forget_frame [simp]:
  "pUuid (forget p d) = pUuid d" "hostAddr (forget p d) = hostAddr d"
  "silenceInterval (forget p d) = silenceInterval d" "has_callback cb (forget p d) = has_callback cb d"
  "disconnectionCb (forget p d) = disconnectionCb d"
  "activity (forget p d) = map_erase p (activity d)"
  by (simp_all add: forget_def, cases cb, simp_all)

lemma info_forget: "info k (forget p d) = snd (DelAddressesByProc p (info k d))"
  by (cases k) (simp_all add: forget_def)

lemma on_bye_forget:
  "on_bye p d =
     (forget p d, notify DisconnectionCb d '''' '''' '''' p '''' All @
                  notify DisconnectionSrvCb d '''' '''' '''' p '''' All)"
  by (simp add: on_bye_def forget_def Let_def notify_def)

subsection \<open>The invariant\<close>

definition discovery_ok :: "discovery \<Rightarrow> bool" where
  "discovery_ok d \<longleftrightarrow>
     (\<forall>k. storage_ok (info k d)) \<and> map_ok (activity d) \<and> map_of (activity d) (pUuid d) = None \<and>
     (\<forall>k t p. p \<noteq> pUuid d \<longrightarrow> records k d t p \<noteq> [] \<longrightarrow> map_of (activity d) p \<noteq> None) \<and>
     (\<forall>k t p. p \<noteq> pUuid d \<longrightarrow> (\<forall>i \<in> set (records k d t p). scope i \<noteq> Process))"

lemma discovery_okD:
  assumes "discovery_ok d"
  shows "storage_ok (info k d)" "map_ok (activity d)" "map_of (activity d) (pUuid d) = None"
    "p \<noteq> pUuid d \<Longrightarrow> records k d t p \<noteq> [] \<Longrightarrow> map_of (activity d) p \<noteq> None"
    "p \<noteq> pUuid d \<Longrightarrow> i \<in> set (records k d t p) \<Longrightarrow> scope i \<noteq> Process"
  using assms unfolding discovery_ok_def by blast+

lemma discovery_okI:
  assumes "\<And>k. storage_ok (info k d)" and "map_ok (activity d)" and "map_of (activity d) (pUuid d) = None"
    and "\<And>k t p. p \<noteq> pUuid d \<Longrightarrow> records k d t p \<noteq> [] \<Longrightarrow> map_of (activity d) p \<noteq> None"
    and "\<And>k t p i. p \<noteq> pUuid d \<Longrightarrow> i \<in> set (records k d t p) \<Longrightarrow> scope i \<noteq> Process"
  shows "discovery_ok d"
  using assms unfolding discovery_ok_def by blast

lemma info_storages: "(\<forall>k. storage_ok (info k d)) \<longleftrightarrow> storage_ok (infoMsg d) \<and> storage_ok (infoSrv d)"
  using info.simps by (metis msg_kind.exhaust)

lemma info_ctor [simp]: "info k (Discovery_ctor u v h) = []"
  by (cases k) (simp_all add: Discovery_ctor_def)

lemma activity_ctor [simp]: "activity (Discovery_ctor u v h) = []"
  by (simp add: Discovery_ctor_def)

lemma discovery_ok_ctor [wf_intros]: "discovery_ok (Discovery_ctor u v h)"
  by (rule discovery_okI) (simp_all add: records_def)

text \<open>The activity table may only gain other processes.\<close>

lemma discovery_ok_activity [wf_intros]:
  assumes "discovery_ok d" and "p \<noteq> pUuid d"
  shows "discovery_ok (d\<lparr>activity := map_put p now (activity d)\<rparr>)"
  using discovery_okD [OF assms(1)] assms(2)
  by (intro discovery_okI) (auto simp: records_def map_ok_put)

text \<open>A storage may gain records of processes that are in the table, with a scope that is not
  local.\<close>

lemma discovery_ok_set_info:
  assumes d: "discovery_ok d" and s: "storage_ok s"
    and recs: "\<And>t p i. p \<noteq> pUuid d \<Longrightarrow> i \<in> set (vec s t p) \<Longrightarrow>
      i \<in> set (records k d t p) \<or> map_of (activity d) p \<noteq> None \<and> scope i \<noteq> Process"
  shows "discovery_ok (set_info k s d)"
proof (rule discovery_okI)
  show "storage_ok (info k' (set_info k s d))" for k'
    using discovery_okD(1) [OF d] s by (simp add: info_set_info)
  show "map_ok (activity (set_info k s d))" using discovery_okD(2) [OF d] by simp
  show "map_of (activity (set_info k s d)) (pUuid (set_info k s d)) = None"
    using discovery_okD(3) [OF d] by simp
next
  fix k' t p
  assume p: "p \<noteq> pUuid (set_info k s d)" and ne: "records k' (set_info k s d) t p \<noteq> []"
  then obtain i where "i \<in> set (records k' (set_info k s d) t p)"
    by (metis list.set_intros(1) list.exhaust)
  then have "i \<in> set (records k' d t p) \<or> map_of (activity d) p \<noteq> None"
    using recs [of p i t] p by (auto simp: records_def info_set_info split: if_splits)
  then have "records k' d t p \<noteq> [] \<or> map_of (activity d) p \<noteq> None" by auto
  then show "map_of (activity (set_info k s d)) p \<noteq> None"
    using discovery_okD(4) [OF d] p by auto
next
  fix k' t p i
  assume "p \<noteq> pUuid (set_info k s d)" and "i \<in> set (records k' (set_info k s d) t p)"
  then show "scope i \<noteq> Process"
    using recs [of p i t] discovery_okD(5) [OF d]
    by (auto simp: records_def info_set_info split: if_splits)
qed

lemma discovery_ok_add:
  assumes d: "discovery_ok d"
    and p: "p = pUuid d \<or> map_of (activity d) p \<noteq> None \<and> sc \<noteq> Process"
  shows "discovery_ok (set_info k (snd (AddAddress t a c p n sc (info k d))) d)"
proof (rule discovery_ok_set_info [OF d])
  note ok = discovery_okD(1) [OF d, of k]
  show "storage_ok (snd (AddAddress t a c p n sc (info k d)))" using ok by (rule ts.ok_add)
  show "i \<in> set (records k d t' q) \<or> map_of (activity d) q \<noteq> None \<and> scope i \<noteq> Process"
    if "q \<noteq> pUuid d" "i \<in> set (vec (snd (AddAddress t a c p n sc (info k d))) t' q)" for t' q i
    using that p by (auto simp: ts.recs_add [OF ok] records_def split: if_splits)
qed

lemma discovery_ok_del_node:
  assumes d: "discovery_ok d"
  shows "discovery_ok (set_info k (snd (DelAddressByNode t p n (info k d))) d)"
proof (rule discovery_ok_set_info [OF d])
  note ok = discovery_okD(1) [OF d, of k]
  show "storage_ok (snd (DelAddressByNode t p n (info k d)))" using ok by (rule ts.ok_del_node)
  show "i \<in> set (records k d t' q) \<or> map_of (activity d) q \<noteq> None \<and> scope i \<noteq> Process"
    if "q \<noteq> pUuid d" "i \<in> set (vec (snd (DelAddressByNode t p n (info k d))) t' q)" for t' q i
    using that by (auto simp: ts.recs_del_node [OF ok] records_def split: if_splits)
qed

lemma records_forget:
  "discovery_ok d \<Longrightarrow> records k (forget p d) t q = (if q = p then [] else records k d t q)"
  by (simp add: records_def info_forget ts.recs_del_proc discovery_okD)

lemma discovery_ok_forget [wf_intros]:
  assumes "discovery_ok d"
  shows "discovery_ok (forget p d)"
  using discovery_okD [OF assms]
  by (intro discovery_okI)
    (auto simp: info_forget records_forget [OF assms] wf_intros split: if_splits)

subsection \<open>Every operation keeps it\<close>

lemma Advertise_state:
  "Advertise k t a c n sc d = Inr (d', e) \<Longrightarrow>
     d' = set_info k (snd (AddAddress t a c (pUuid d) n sc (info k d))) d"
  by (auto simp: Advertise_def Let_def rbind_eq_Inr_iff split: if_splits)

lemma Unadvertise_state:
  "Unadvertise k t n d = Inr (d', e) \<Longrightarrow>
     d' = d \<or> d' = set_info k (snd (DelAddressByNode t (pUuid d) n (info k d))) d"
  by (auto simp: Unadvertise_def Let_def rbind_eq_Inr_iff split: option.splits if_splits)

lemma discovery_ok_Advertise:
  "discovery_ok d \<Longrightarrow> Advertise k t a c n sc d = Inr (d', e) \<Longrightarrow> discovery_ok d'"
  using Advertise_state [of k t a c n sc d d' e] discovery_ok_add [of d "pUuid d"] by simp

lemma discovery_ok_Unadvertise:
  "discovery_ok d \<Longrightarrow> Unadvertise k t n d = Inr (d', e) \<Longrightarrow> discovery_ok d'"
  using Unadvertise_state [of k t n d d' e] discovery_ok_del_node [of d k t "pUuid d" n] by auto

text \<open>Sending calls nobody back.\<close>

lemma SendMsg_only_sends: "SendMsg ty t a c n sc f d = Inr e \<Longrightarrow> \<exists>bs. e = map Send bs"
proof -
  assume "SendMsg ty t a c n sc f d = Inr e"
  then have "e = [] \<or> (\<exists>b. e = [Send b])"
    by (auto simp: SendMsg_def transmit_def Let_def rbind_eq_Inr_iff split: if_splits)
  then show ?thesis by (metis list.map(1) list.map(2))
qed

text \<open>What a reception may do to the state.\<close>

lemma on_advertise_state:
  "fst (on_advertise k ip p t a c n sc d) =
     (if hidden ip sc d then d else set_info k (snd (AddAddress t a c p n sc (info k d))) d)"
  by (simp add: on_advertise_def case_prod_unfold Let_def)

lemma on_unadvertise_state:
  "fst (on_unadvertise k ip p t a c n sc d) =
     (if hidden ip sc d then d else set_info k (snd (DelAddressByNode t p n (info k d))) d)"
  by (simp add: on_unadvertise_def)

lemma dispatch_body_cases:
  assumes "dispatch_body ip p ty b d = Inr (d', e)"
  obtains (advertised) k t a c n sc where "d' = fst (on_advertise k ip p t a c n sc d)"
  | (unadvertised) k t a c n sc where "d' = fst (on_unadvertise k ip p t a c n sc d)"
  | (bye) "d' = forget p d"
  | (unchanged) "d' = d"
  using assms unfolding dispatch_body_def
  by (auto simp: rbind_eq_Inr_iff on_bye_forget split: if_splits)
    (metis fst_conv)+

lemma dispatch_body_frame:
  assumes "dispatch_body ip p ty b d = Inr (d', e)"
  shows "pUuid d' = pUuid d" "hostAddr d' = hostAddr d" "silenceInterval d' = silenceInterval d"
    "disconnectionCb d' = disconnectionCb d"
  using assms
  by (cases rule: dispatch_body_cases; simp add: on_advertise_state on_unadvertise_state)+

lemma discovery_ok_dispatch_body:
  assumes "discovery_ok d" and "p \<noteq> pUuid d" and "map_of (activity d) p \<noteq> None"
    and "dispatch_body ip p ty b d = Inr (d', e)"
  shows "discovery_ok d'"
  using assms(4)
proof (cases rule: dispatch_body_cases)
  case (advertised k t a c n sc)
  then show ?thesis
    using assms discovery_ok_add [of d p sc k t a c n]
    by (simp add: on_advertise_state hidden_def split: if_splits)
next
  case (unadvertised k t a c n sc)
  then show ?thesis
    using assms by (simp add: on_unadvertise_state discovery_ok_del_node)
qed (use assms in \<open>simp_all add: discovery_ok_forget\<close>)

lemma Dispatch_cases:
  assumes "DispatchDiscoveryMsg now ip msg d = Inr (d', e)"
  obtains (own) "d' = d" "e = []"
  | (other) p ty b where "p \<noteq> pUuid d"
      "dispatch_body ip p ty b (d\<lparr>activity := map_put p now (activity d)\<rparr>) = Inr (d', e)"
  using assms unfolding DispatchDiscoveryMsg_def
  by (auto simp: rbind_eq_Inr_iff split: if_splits)

lemma Dispatch_frame:
  assumes "DispatchDiscoveryMsg now ip msg d = Inr (d', e)"
  shows "pUuid d' = pUuid d" "hostAddr d' = hostAddr d" "silenceInterval d' = silenceInterval d"
    "disconnectionCb d' = disconnectionCb d"
  using assms by (cases rule: Dispatch_cases; auto dest: dispatch_body_frame)+

lemma discovery_ok_Dispatch:
  assumes "discovery_ok d" and "DispatchDiscoveryMsg now ip msg d = Inr (d', e)"
  shows "discovery_ok d'"
  using assms(2)
proof (cases rule: Dispatch_cases)
  case own
  with assms(1) show ?thesis by simp
next
  case (other p ty b)
  show ?thesis
  proof (rule discovery_ok_dispatch_body)
    show "discovery_ok (d\<lparr>activity := map_put p now (activity d)\<rparr>)"
      using assms(1) other(1) by (rule discovery_ok_activity)
    show "p \<noteq> pUuid (d\<lparr>activity := map_put p now (activity d)\<rparr>)" using other(1) by simp
    show "map_of (activity (d\<lparr>activity := map_put p now (activity d)\<rparr>)) p \<noteq> None" by simp
  qed (rule other(2))
qed

lemma discovery_ok_Recv:
  "discovery_ok d \<Longrightarrow> RecvDiscoveryUpdate now stack r d = Inr (d', e) \<Longrightarrow> discovery_ok d'"
  by (auto simp: RecvDiscoveryUpdate_def Let_def discovery_ok_Dispatch split: option.splits)

subsection \<open>Expiry\<close>

definition expired :: "(int \<Rightarrow> int) \<Rightarrow> int \<Rightarrow> discovery \<Rightarrow> string \<times> int \<Rightarrow> bool" where
  "expired to_ms now d e \<longleftrightarrow> to_ms (now - snd e) > int (unat (silenceInterval d))"

definition gone :: "string \<Rightarrow> event" where
  "gone p = Call DisconnectionCb '''' '''' '''' p '''' All"

lemma expired_forget [simp]: "expired to_ms now (forget p d) = expired to_ms now d"
  by (simp add: expired_def fun_eq_iff)

lemma sweep_loop_forget:
  "sweep_loop to_ms now ((p, t) # rest) d =
     (if expired to_ms now d (p, t) then
        if \<not> disconnectionCb d then Inl Exn_bad_function_call
        else rbind (sweep_loop to_ms now rest (forget p d)) (\<lambda>(d, e). Inr (d, gone p # e))
      else sweep_loop to_ms now rest d)"
  by (simp add: expired_def forget_def gone_def Let_def)

lemma sweep_loop_eq:
  "disconnectionCb d \<Longrightarrow>
     sweep_loop to_ms now l d =
       Inr (fold forget (map fst (filter (expired to_ms now d) l)) d,
            map (gone \<circ> fst) (filter (expired to_ms now d) l))"
proof (induction l arbitrary: d)
  case Nil
  then show ?case by simp
next
  case (Cons e l)
  obtain p t where e: "e = (p, t)" by (cases e)
  show ?case
    using Cons.IH [of d] Cons.IH [of "forget p d"] Cons.prems
    unfolding e sweep_loop_forget by simp
qed

lemma sweep_loop_none:
  "filter (expired to_ms now d) l = [] \<Longrightarrow> sweep_loop to_ms now l d = Inr (d, [])"
  by (induction l) (auto simp: sweep_loop_forget split: if_splits simp del: sweep_loop.simps(2))

lemma sweep_loop_unset:
  "\<not> disconnectionCb d \<Longrightarrow> \<exists>e \<in> set l. expired to_ms now d e \<Longrightarrow>
     sweep_loop to_ms now l d = Inl Exn_bad_function_call"
proof (induction l)
  case Nil
  then show ?case by simp
next
  case (Cons e l)
  obtain p t where e: "e = (p, t)" by (cases e)
  show ?case
    using Cons unfolding e sweep_loop_forget by (cases "expired to_ms now d (p, t)") simp_all
qed

lemma fold_forget_frame [simp]:
  "pUuid (fold forget ps d) = pUuid d" "hostAddr (fold forget ps d) = hostAddr d"
  "silenceInterval (fold forget ps d) = silenceInterval d"
  "has_callback cb (fold forget ps d) = has_callback cb d"
  by (induction ps arbitrary: d) simp_all

lemma activity_fold_forget:
  "activity (fold forget ps d) = filter (\<lambda>e. fst e \<notin> set ps) (activity d)"
  by (induction ps arbitrary: d) (simp_all add: map_erase_def conj_commute)

lemma discovery_ok_fold_forget: "discovery_ok d \<Longrightarrow> discovery_ok (fold forget ps d)"
  by (induction ps arbitrary: d) (simp_all add: discovery_ok_forget)

lemma records_fold_forget:
  "discovery_ok d \<Longrightarrow>
     records k (fold forget ps d) t p = (if p \<in> set ps then [] else records k d t p)"
  by (induction ps arbitrary: d) (simp_all add: discovery_ok_forget records_forget)

lemma sweep_cases:
  assumes "activity_sweep to_ms now d = Inr (d', e)"
  shows "d' = fold forget (map fst (filter (expired to_ms now d) (activity d))) d"
proof (cases "disconnectionCb d \<or> filter (expired to_ms now d) (activity d) = []")
  case True
  then show ?thesis
    using assms sweep_loop_eq [of d to_ms now "activity d"] sweep_loop_none [of to_ms now d "activity d"]
    by (auto simp: activity_sweep_def)
next
  case False
  then have "\<exists>x \<in> set (activity d). expired to_ms now d x" by (auto simp: filter_empty_conv)
  then show ?thesis
    using False assms sweep_loop_unset [of d "activity d" to_ms now] by (simp add: activity_sweep_def)
qed

lemma discovery_ok_sweep:
  "discovery_ok d \<Longrightarrow> activity_sweep to_ms now d = Inr (d', e) \<Longrightarrow> discovery_ok d'"
  by (drule sweep_cases) (simp add: discovery_ok_fold_forget)

end
