(* ===== verification/DiscoveryCorrect.thy ===== *)
theory DiscoveryCorrect
  imports DiscoveryInvariant
begin

text \<open>
  The properties of one discovery instance: its datagrams, its reaction to every message, its
  periodic tasks, and the invariant over every sequence of its operations.
\<close>

subsection \<open>Sequences of operations\<close>

datatype discovery_op =
    DoAdvertise msg_kind string string string string scope
  | DoUnadvertise msg_kind string string
  | DoDiscover string bool
  | DoReceive int string "(string \<times> string) option"
  | DoSweep int
  | DoHeartbeat
  | DoSetActivityInterval u32
  | DoSetHeartbeatInterval u32
  | DoSetAdvertiseInterval u32
  | DoSetSilenceInterval u32
  | DoSetCallback callback bool

fun set_callback :: "callback \<Rightarrow> bool \<Rightarrow> discovery \<Rightarrow> discovery" where
  "set_callback ConnectionCb b d = SetConnectionsCb b d"
| "set_callback DisconnectionCb b d = SetDisconnectionsCb b d"
| "set_callback ConnectionSrvCb b d = SetConnectionsSrvCb b d"
| "set_callback DisconnectionSrvCb b d = SetDisconnectionsSrvCb b d"

fun discovery_step :: "(int \<Rightarrow> int) \<Rightarrow> discovery_op \<Rightarrow> discovery \<Rightarrow> (discovery \<times> event list) res" where
  "discovery_step to_ms (DoAdvertise k t a c n sc) d = Advertise k t a c n sc d"
| "discovery_step to_ms (DoUnadvertise k t n) d = Unadvertise k t n d"
| "discovery_step to_ms (DoDiscover t isSrv) d = rbind (Discover t isSrv d) (\<lambda>e. Inr (d, e))"
| "discovery_step to_ms (DoReceive now stack r) d = RecvDiscoveryUpdate now stack r d"
| "discovery_step to_ms (DoSweep now) d = activity_sweep to_ms now d"
| "discovery_step to_ms DoHeartbeat d = rbind (heartbeat d) (\<lambda>e. Inr (d, e))"
| "discovery_step to_ms (DoSetActivityInterval ms) d = Inr (SetActivityInterval ms d, [])"
| "discovery_step to_ms (DoSetHeartbeatInterval ms) d = Inr (SetHeartbeatInterval ms d, [])"
| "discovery_step to_ms (DoSetAdvertiseInterval ms) d = Inr (SetAdvertiseInterval ms d, [])"
| "discovery_step to_ms (DoSetSilenceInterval ms) d = Inr (SetSilenceInterval ms d, [])"
| "discovery_step to_ms (DoSetCallback cb b) d = Inr (set_callback cb b d, [])"

fun discovery_run ::
    "(int \<Rightarrow> int) \<Rightarrow> discovery_op list \<Rightarrow> discovery \<Rightarrow> (discovery \<times> event list) res" where
  "discovery_run to_ms [] d = Inr (d, [])"
| "discovery_run to_ms (x # xs) d =
     rbind (discovery_step to_ms x d) (\<lambda>(d, e).
     rbind (discovery_run to_ms xs d) (\<lambda>(d, e'). Inr (d, e @ e')))"

lemma discovery_ok_same:
  assumes "discovery_ok d" and "pUuid d' = pUuid d" and "activity d' = activity d"
    and "infoMsg d' = infoMsg d" and "infoSrv d' = infoSrv d"
  shows "discovery_ok d'"
proof -
  have "info k d' = info k d" for k using assms(4,5) by (cases k) simp_all
  then show ?thesis using assms(1-3) by (simp add: discovery_ok_def records_def)
qed

lemma discovery_ok_settings:
  assumes "discovery_ok d"
  shows "discovery_ok (SetActivityInterval ms d)" "discovery_ok (SetHeartbeatInterval ms d)"
    "discovery_ok (SetAdvertiseInterval ms d)" "discovery_ok (SetSilenceInterval ms d)"
    "discovery_ok (set_callback cb b d)"
  by (rule discovery_ok_same [OF assms];
      simp add: SetActivityInterval_def SetHeartbeatInterval_def SetAdvertiseInterval_def
        SetSilenceInterval_def)+
    (cases cb; rule discovery_ok_same [OF assms];
      simp add: SetConnectionsCb_def SetDisconnectionsCb_def SetConnectionsSrvCb_def
        SetDisconnectionsSrvCb_def)

lemma discovery_ok_step:
  "discovery_ok d \<Longrightarrow> discovery_step to_ms x d = Inr (d', e) \<Longrightarrow> discovery_ok d'"
  by (cases x)
    (auto simp: rbind_eq_Inr_iff discovery_ok_settings
      intro: discovery_ok_Advertise discovery_ok_Unadvertise discovery_ok_Recv discovery_ok_sweep)

lemma discovery_ok_run:
  "discovery_ok d \<Longrightarrow> discovery_run to_ms xs d = Inr (d', e) \<Longrightarrow> discovery_ok d'"
  by (induction xs arbitrary: d e) (auto simp: rbind_eq_Inr_iff dest: discovery_ok_step)

subsection \<open>The reaction to each message\<close>

lemma records_activity [simp]: "records k (d\<lparr>activity := x\<rparr>) t p = records k d t p"
  by (simp add: records_def)

definition duplicate :: "msg_kind \<Rightarrow> discovery \<Rightarrow> string \<Rightarrow> string \<Rightarrow> string \<Rightarrow> string \<Rightarrow> bool" where
  "duplicate k d t p a n \<longleftrightarrow> (\<exists>i \<in> set (records k d t p). addr i = a \<and> nUuid i = n)"

lemma records_add:
  "discovery_ok d \<Longrightarrow>
     records k' (set_info k (snd (AddAddress t a c p n sc (info k d))) d) t' q =
       (if k' = k \<and> t' = t \<and> q = p \<and> \<not> duplicate k d t p a n
        then records k d t p @ [\<lparr>addr = a, ctrl = c, nUuid = n, scope = sc\<rparr>] else records k' d t' q)"
  by (auto simp: records_def info_set_info ts.recs_add discovery_okD duplicate_def)

lemma records_del_node:
  "discovery_ok d \<Longrightarrow>
     records k' (set_info k (snd (DelAddressByNode t p n (info k d))) d) t' q =
       (if k' = k \<and> t' = t \<and> q = p then filter (\<lambda>i. nUuid i \<noteq> n) (records k d t p)
        else records k' d t' q)"
  by (auto simp: records_def info_set_info ts.recs_del_node discovery_okD)

lemma Unadvertise_removes:
  assumes "discovery_ok d" and "Unadvertise k t n d = Inr (d', e)"
  shows "records k' d' t' q = (if k' = k \<and> t' = t \<and> q = pUuid d then filter (\<lambda>i. nUuid i \<noteq> n) (records k d t q)
    else records k' d t' q)"
proof (cases "GetAddress t (pUuid d) n (info k d)")
  case None
  then have "filter (\<lambda>i. nUuid i \<noteq> n) (records k d t (pUuid d)) = records k d t (pUuid d)"
    by (auto simp: GetAddress_eq records_def filter_id_conv find_None_iff)
  moreover have "d' = d" using None assms(2) by (simp add: Unadvertise_def)
  ultimately show ?thesis by auto
next
  case (Some i)
  then have "d' = set_info k (snd (DelAddressByNode t (pUuid d) n (info k d))) d"
    using assms(2) by (auto simp: Unadvertise_def Let_def rbind_eq_Inr_iff split: if_splits)
  then show ?thesis using records_del_node [OF assms(1), of k' k t "pUuid d" n t' q] by auto
qed

lemma deliver_advertised:
  assumes "discovery_ok d" and "p \<noteq> pUuid d"
  shows "\<exists>d'. deliver now ip p (Advertised k t a c n sc) d =
      Inr (d', if hidden ip sc d \<or> duplicate k d t p a n then [] else notify (conn_cb k) d t a c p n sc) \<and>
    activity d' = map_put p now (activity d) \<and>
    (\<forall>k' t' q. records k' d' t' q =
      (if k' = k \<and> t' = t \<and> q = p \<and> \<not> hidden ip sc d \<and> \<not> duplicate k d t p a n
       then records k d t p @ [\<lparr>addr = a, ctrl = c, nUuid = n, scope = sc\<rparr>] else records k' d t' q))"
proof -
  let ?d = "d\<lparr>activity := map_put p now (activity d)\<rparr>"
  have ok: "discovery_ok ?d" using assms by (rule discovery_ok_activity)
  have flag: "fst (AddAddress t a c p n sc (info k d)) \<longleftrightarrow> \<not> duplicate k d t p a n"
    using assms(1) by (simp add: ts.add_flag discovery_okD duplicate_def records_def)
  have dup: "duplicate k ?d t p a n \<longleftrightarrow> duplicate k d t p a n" by (simp add: duplicate_def)
  show ?thesis
    using records_add [OF ok, of _ k t a c p n sc] assms(2) flag dup
    by (auto simp: deliver_def on_advertise_def case_prod_unfold Let_def notify_def)
qed

lemma deliver_unadvertised:
  assumes "discovery_ok d" and "p \<noteq> pUuid d"
  shows "\<exists>d'. deliver now ip p (Unadvertised k t a c n sc) d =
      Inr (d', if hidden ip sc d then [] else notify (disc_cb k) d t a c p n sc) \<and>
    activity d' = map_put p now (activity d) \<and>
    (\<forall>k' t' q. records k' d' t' q =
      (if k' = k \<and> t' = t \<and> q = p \<and> \<not> hidden ip sc d
       then filter (\<lambda>i. nUuid i \<noteq> n) (records k d t p) else records k' d t' q))"
  using records_del_node [OF discovery_ok_activity [OF assms, of now], of _ k t p n] assms(2)
  by (auto simp: deliver_def on_unadvertise_def notify_def)

lemma deliver_bye:
  assumes "discovery_ok d" and "p \<noteq> pUuid d"
  shows "\<exists>d'. deliver now ip p Bye d = Inr (d',
      notify DisconnectionCb d '''' '''' '''' p '''' All @
      notify DisconnectionSrvCb d '''' '''' '''' p '''' All) \<and>
    activity d' = map_erase p (activity d) \<and>
    (\<forall>k t q. records k d' t q = (if q = p then [] else records k d t q))"
  using records_forget [OF discovery_ok_activity [OF assms, of now]] assms(2)
  by (auto simp: deliver_def on_bye_forget notify_def map_erase_put)

subsection \<open>Answers to a request\<close>

definition own_dmsg :: "msg_kind \<Rightarrow> string \<Rightarrow> address \<Rightarrow> dmsg" where
  "own_dmsg k t i = Advertised k t (addr i) (ctrl i) (nUuid i) (scope i)"

lemma on_subscribe_eq:
  assumes "discovery_ok d"
    and "\<And>i. i \<in> set (records k d t (pUuid d)) \<Longrightarrow> sendable (pUuid d) (own_dmsg k t i)"
  shows "on_subscribe k ip t d =
    Inr (map (\<lambda>i. Send (dmsg_wire (pUuid d) (own_dmsg k t i)))
          (filter (\<lambda>i. \<not> hidden ip (scope i) d) (records k d t (pUuid d))))"
proof -
  let ?v = "records k d t (pUuid d)"
  have st: "storage_ok (info k d)" using assms(1) by (rule discovery_okD)
  have step: "(if hidden ip (scope i) d then Inr []
      else SendMsg (adv_type k) t (addr i) (ctrl i) (nUuid i) (scope i) 0 d) =
      Inr (if hidden ip (scope i) d then [] else [Send (dmsg_wire (pUuid d) (own_dmsg k t i))])"
    if "i \<in> set ?v" for i
    using say_wire [OF assms(2) [OF that]] by (simp add: own_dmsg_def)
  have loop: "rconcat (\<lambda>i. if hidden ip (scope i) d then Inr []
      else SendMsg (adv_type k) t (addr i) (ctrl i) (nUuid i) (scope i) 0 d) ?v =
    Inr (map (\<lambda>i. Send (dmsg_wire (pUuid d) (own_dmsg k t i)))
          (filter (\<lambda>i. \<not> hidden ip (scope i) d) ?v))"
    using rconcat_Inr [of ?v, OF step] by (simp add: concat_map_if)
  show ?thesis
  proof (cases "?v = []")
    case True
    then show ?thesis
      using st by (simp add: on_subscribe_def HasAnyAddresses_iff records_def)
  next
    case False
    then obtain m where m: "map_of (info k d) t = Some m" by (auto simp: records_def vec_def split: option.splits)
    have "map_of m (pUuid d) = Some ?v"
      using lookup_proc_iff [OF st m, of "pUuid d"] False by (simp add: records_def)
    then show ?thesis
      using st False m loop
      by (simp add: on_subscribe_def HasAnyAddresses_iff GetAddresses_eq records_def)
  qed
qed

subsection \<open>Heartbeats and requests of the client\<close>

text \<open>The process has a UUID and everything it advertises can be sent.\<close>

definition own_sendable :: "discovery \<Rightarrow> bool" where
  "own_sendable d \<longleftrightarrow> sendable (pUuid d) Heartbeat \<and>
     (\<forall>k t. \<forall>i \<in> set (records k d t (pUuid d)). sendable (pUuid d) (own_dmsg k t i))"

definition own_dmsgs :: "msg_kind \<Rightarrow> discovery \<Rightarrow> dmsg list" where
  "own_dmsgs k d =
     concat (map (\<lambda>e. map (own_dmsg k (fst e)) (snd e)) (GetAddressesByProc (pUuid d) (info k d)))"

lemma set_own_dmsgs:
  assumes "discovery_ok d"
  shows "set (own_dmsgs k d) = {m. \<exists>t. \<exists>i \<in> set (records k d t (pUuid d)). m = own_dmsg k t i}"
proof -
  have mem: "(t, v) \<in> set (GetAddressesByProc (pUuid d) (info k d)) \<longleftrightarrow>
      v = records k d t (pUuid d) \<and> v \<noteq> []" for t v
    using by_proc_in_set [OF discovery_okD(1) [OF assms]] by (simp add: records_def)
  show ?thesis
  proof (intro set_eqI iffI)
    fix m assume "m \<in> set (own_dmsgs k d)"
    then obtain t v i where "(t, v) \<in> set (GetAddressesByProc (pUuid d) (info k d))"
      "i \<in> set v" "m = own_dmsg k t i" by (auto simp: own_dmsgs_def)
    then show "m \<in> {m. \<exists>t. \<exists>i \<in> set (records k d t (pUuid d)). m = own_dmsg k t i}"
      unfolding mem by blast
  next
    fix m assume "m \<in> {m. \<exists>t. \<exists>i \<in> set (records k d t (pUuid d)). m = own_dmsg k t i}"
    then obtain t i where i: "i \<in> set (records k d t (pUuid d))" "m = own_dmsg k t i" by blast
    then have "(t, records k d t (pUuid d)) \<in> set (GetAddressesByProc (pUuid d) (info k d))"
      unfolding mem by auto
    with i show "m \<in> set (own_dmsgs k d)" by (force simp: own_dmsgs_def)
  qed
qed

definition datagrams :: "string \<Rightarrow> dmsg list \<Rightarrow> event list" where
  "datagrams p ms = map (\<lambda>m. Send (dmsg_wire p m)) ms"

lemma readvertise_eq:
  assumes "discovery_ok d" and "own_sendable d"
  shows "readvertise k d = Inr (datagrams (pUuid d) (own_dmsgs k d))"
proof -
  let ?send = "\<lambda>t i. SendMsg (adv_type k) t (addr i) (ctrl i) (nUuid i) (scope i) 0 d"
  have one: "rconcat (?send (fst e)) (snd e) =
      Inr (concat (map (\<lambda>i. [Send (dmsg_wire (pUuid d) (own_dmsg k (fst e) i))]) (snd e)))"
    if "e \<in> set (GetAddressesByProc (pUuid d) (info k d))" for e
  proof (rule rconcat_Inr)
    fix i assume "i \<in> set (snd e)"
    moreover have "snd e = records k d (fst e) (pUuid d)"
      using that by_proc_in_set [OF discovery_okD(1) [OF assms(1)], of "fst e" "snd e"]
      by (simp add: records_def)
    ultimately have "sendable (pUuid d) (own_dmsg k (fst e) i)"
      using assms(2) by (simp add: own_sendable_def)
    from say_wire [OF this] show "?send (fst e) i = Inr [Send (dmsg_wire (pUuid d) (own_dmsg k (fst e) i))]"
      by (simp add: own_dmsg_def)
  qed
  have "readvertise k d = Inr (concat (map (\<lambda>e. concat (map (\<lambda>i.
      [Send (dmsg_wire (pUuid d) (own_dmsg k (fst e) i))]) (snd e)))
      (GetAddressesByProc (pUuid d) (info k d))))"
    unfolding readvertise_def by (rule rconcat_Inr) (rule one)
  then show ?thesis by (simp add: datagrams_def own_dmsgs_def map_concat comp_def)
qed

lemma heartbeat_eq:
  assumes "discovery_ok d" and "own_sendable d"
  shows "heartbeat d = Inr (datagrams (pUuid d) (Heartbeat # own_dmsgs Msg d @ own_dmsgs Srv d))"
  using say_wire [of d Heartbeat] assms(2) readvertise_eq [OF assms]
  by (simp add: heartbeat_def own_sendable_def datagrams_def)

lemma Discover_eq:
  assumes "discovery_ok d" and "sendable (pUuid d) (Requested (if isSrv then Srv else Msg) t)"
  shows "\<exists>calls. Discover t isSrv d =
      Inr (Send (dmsg_wire (pUuid d) (Requested (if isSrv then Srv else Msg) t)) # calls) \<and>
    set calls = {x. has_callback (conn_cb (if isSrv then Srv else Msg)) d \<and>
      (\<exists>p. \<exists>i \<in> set (records (if isSrv then Srv else Msg) d t p).
        x = Call (conn_cb (if isSrv then Srv else Msg)) t (addr i) (ctrl i) p (nUuid i) (scope i))}"
proof -
  define k where "k = (if isSrv then Srv else Msg)"
  note st = discovery_okD(1) [OF assms(1), of k]
  let ?call = "\<lambda>p i. notify (conn_cb k) d t (addr i) (ctrl i) p (nUuid i) (scope i)"
  define calls where "calls = (case map_of (info k d) t of None \<Rightarrow> []
    | Some m \<Rightarrow> concat (map (\<lambda>e. concat (map (?call (fst e)) (snd e))) m))"
  have eq: "Discover t isSrv d = Inr (Send (dmsg_wire (pUuid d) (Requested k t)) # calls)"
    using say_wire [OF assms(2)]
    by (simp add: Discover_def Let_def calls_def HasTopic_def GetAddresses_eq k_def split: option.split)
  have mem: "(\<exists>m e. map_of (info k d) t = Some m \<and> e \<in> set m \<and> fst e = p \<and> i \<in> set (snd e)) \<longleftrightarrow>
      i \<in> set (records k d t p)" for p i
  proof (cases "map_of (info k d) t")
    case None
    then show ?thesis by (simp add: records_def vec_def)
  next
    case (Some m)
    have "map_ok m" using storage_okD [OF st Some] by (simp add: procs_ok_def)
    then have "(\<exists>e. e \<in> set m \<and> fst e = p \<and> i \<in> set (snd e)) \<longleftrightarrow> (\<exists>v. map_of m p = Some v \<and> i \<in> set v)"
      using map_ok_in_set_iff [of m p] by (metis fst_conv prod.collapse snd_conv)
    then show ?thesis using Some by (auto simp: records_def vec_def split: option.splits)
  qed
  have "x \<in> set calls \<longleftrightarrow> has_callback (conn_cb k) d \<and>
      (\<exists>p. \<exists>i \<in> set (records k d t p). x = Call (conn_cb k) t (addr i) (ctrl i) p (nUuid i) (scope i))" for x
  proof -
    have call: "x \<in> set (?call p i) \<longleftrightarrow> has_callback (conn_cb k) d \<and>
        x = Call (conn_cb k) t (addr i) (ctrl i) p (nUuid i) (scope i)" for p i
      by (auto simp: notify_def)
    have "x \<in> set calls \<longleftrightarrow> (\<exists>p i. (\<exists>m e. map_of (info k d) t = Some m \<and> e \<in> set m \<and> fst e = p \<and>
        i \<in> set (snd e)) \<and> x \<in> set (?call p i))"
    proof (cases "map_of (info k d) t")
      case None
      then show ?thesis by (simp add: calls_def)
    next
      case (Some m)
      then have "x \<in> set calls \<longleftrightarrow> (\<exists>e \<in> set m. \<exists>i \<in> set (snd e). x \<in> set (?call (fst e) i))"
        by (simp add: calls_def)
      then show ?thesis unfolding Some by blast
    qed
    then show ?thesis unfolding mem call by blast
  qed
  then show ?thesis using eq unfolding k_def by blast
qed

subsection \<open>Sizes, and a state to apply the properties to\<close>

lemma length_adv_body:
  "length (adv_body t a c n sc) = 49 + length t + length a + length c + length n"
  by (simp add: adv_body_def length_base_wire)

lemma length_dmsg_wire:
  "length (dmsg_wire p m) = 13 + length p + length (dmsg_body m)"
  by (simp add: dmsg_wire_def length_header_wire dmsg_header_def Header_ctor_simps)

lemmas size_simps =
  fits_def length_dmsg_wire length_adv_body sendable_def readable_def own_dmsg_def MaxRcvStr_def

text \<open>Process \<open>A\<close> advertises \<open>@/a\<close> and has heard of \<open>@/b\<close> from process \<open>B\<close>.\<close>

definition rec_a :: address where
  "rec_a = \<lparr>addr = ''tcp:1'', ctrl = ''c1'', nUuid = ''na'', scope = All\<rparr>"

definition rec_b :: address where
  "rec_b = \<lparr>addr = ''tcp:2'', ctrl = ''c2'', nUuid = ''nb'', scope = Host\<rparr>"

definition disc0 :: "string \<Rightarrow> discovery" where
  "disc0 u = SetDisconnectionsCb True (SetConnectionsCb True (Discovery_ctor u False ''10.0.0.1''))"

definition disc_a :: discovery where
  "disc_a = set_info Msg (snd (AddAddress ''@/a'' ''tcp:1'' ''c1'' ''A'' ''na'' All [])) (disc0 ''A'')"

definition disc_ab :: discovery where
  "disc_ab =
     (let d = disc_a\<lparr>activity := map_put ''B'' 5 (activity disc_a)\<rparr>
      in set_info Msg (snd (AddAddress ''@/b'' ''tcp:2'' ''c2'' ''B'' ''nb'' Host (info Msg d))) d)"

lemma disc0_ok: "discovery_ok (disc0 u)"
proof -
  have "discovery_ok (set_callback ConnectionCb True (Discovery_ctor u False ''10.0.0.1''))"
    by (rule discovery_ok_settings) (rule discovery_ok_ctor)
  from discovery_ok_settings(5) [OF this, of DisconnectionCb True] show ?thesis
    by (simp add: disc0_def)
qed

lemma info_disc0 [simp]: "info k (disc0 u) = []" and pUuid_disc0 [simp]: "pUuid (disc0 u) = u"
  by (cases k)
    (simp_all add: disc0_def SetDisconnectionsCb_def SetConnectionsCb_def Discovery_ctor_def)

lemma disc_a_ok: "discovery_ok disc_a"
  using discovery_ok_add [OF disc0_ok, of "''A''" "''A''" All Msg] by (simp add: disc_a_def)

lemma pUuid_disc_a [simp]: "pUuid disc_a = ''A''"
  by (simp add: disc_a_def)

lemma disc_ab_ok: "discovery_ok disc_ab"
proof -
  have "discovery_ok (disc_a\<lparr>activity := map_put ''B'' 5 (activity disc_a)\<rparr>)"
    using disc_a_ok by (rule discovery_ok_activity) simp
  from discovery_ok_add [OF this, of "''B''" Host Msg] show ?thesis
    by (simp add: disc_ab_def Let_def)
qed

lemma pUuid_disc_ab [simp]: "pUuid disc_ab = ''A''"
  by (simp add: disc_ab_def Let_def)

lemma records_disc_ab:
  "records Msg disc_ab ''@/a'' ''A'' = [rec_a]" "records Msg disc_ab ''@/b'' ''B'' = [rec_b]"
  by code_simp+

lemma activity_disc_ab: "activity disc_ab = [(''B'', 5)]" "silenceInterval disc_ab = 3000"
  "disconnectionCb disc_ab"
  by code_simp+

subsection \<open>Properties\<close>

text \<open>C27 Sending a complete message puts exactly one datagram on the socket, with exactly
  the bytes of the wire format: the lengths computed by the code, the allocated buffer, what is
  packed and what is sent all agree.\<close>
theorem SendMsg_datagram:
  assumes "sendable (pUuid d) m"
  shows "say m d = Inr [Send (dmsg_wire (pUuid d) m)]"
  using assms by (rule say_wire)

lemma SendMsg_datagram_witness:
  "say (own_dmsg Srv ''@/a'' rec_a) disc_a = Inr [Send (dmsg_wire ''A'' (own_dmsg Srv ''@/a'' rec_a))]"
  using SendMsg_datagram [of disc_a "own_dmsg Srv ''@/a'' rec_a"] by (simp add: size_simps rec_a_def)

text \<open>C11 The byte-level reception refines the protocol: for every message, whatever was
  in the receive buffer before, receiving its datagram has exactly the effect that the protocol
  gives to the message, and does not fault in decoding it.\<close>
theorem Recv_refines_deliver:
  assumes "readable p m" and "length (dmsg_wire p m) \<le> MaxRcvStr"
  shows "RecvDiscoveryUpdate now stack (Some (ip, dmsg_wire p m)) d = deliver now ip p m d"
  using assms Dispatch_dmsg_wire [OF assms(1)] by (simp add: RecvDiscoveryUpdate_def Let_def)

lemma Recv_refines_deliver_witness:
  "RecvDiscoveryUpdate 7 ''junk'' (Some (''10.0.0.9'', dmsg_wire ''B'' (own_dmsg Msg ''@/b'' rec_b))) disc_a =
     deliver 7 ''10.0.0.9'' ''B'' (own_dmsg Msg ''@/b'' rec_b) disc_a"
  by (rule Recv_refines_deliver) (simp_all add: size_simps rec_b_def)

text \<open>The number of bytes received is ignored: a datagram that is cut off anywhere is
  completed by whatever the stack buffer holds, and processed as if the whole message had been
  received.\<close>
theorem Recv_reads_stale_bytes:
  assumes "readable p m" and "length (dmsg_wire p m) \<le> MaxRcvStr"
    and "drop len stack = drop len (dmsg_wire p m) @ rest" and "len \<le> length (dmsg_wire p m)"
  shows "RecvDiscoveryUpdate now stack (Some (ip, take len (dmsg_wire p m))) d = deliver now ip p m d"
proof -
  have whole: "take len (dmsg_wire p m) @ drop len (dmsg_wire p m) @ rest = dmsg_wire p m @ rest"
    by (metis append.assoc append_take_drop_id)
  then show ?thesis
    using assms Dispatch_dmsg_wire [OF assms(1), of now ip rest d]
    by (simp add: RecvDiscoveryUpdate_def Let_def min_def whole)
qed

text \<open>An empty datagram received after a good-bye of \<open>B\<close> is that good-bye again.\<close>
lemma Recv_reads_stale_bytes_witness:
  "RecvDiscoveryUpdate 9 (dmsg_wire ''B'' Bye) (Some (''10.0.0.9'', '''')) disc_ab =
     deliver 9 ''10.0.0.9'' ''B'' Bye disc_ab"
  using Recv_reads_stale_bytes [of "''B''" Bye 0 "dmsg_wire ''B'' Bye" "''''" 9 "''10.0.0.9''" disc_ab]
  by (simp add: size_simps)

text \<open>C14 After any sequence of operations from the constructor, with any clock, any
  datagrams and any bytes in the receive buffer: both storages are well formed, the process is not
  in its own activity table, every other process it holds a record of is in that table (so its
  records will expire), and no record of another process has the scope of that process only.\<close>
theorem discovery_run_invariant:
  assumes "discovery_run to_ms ops (Discovery_ctor u verb host) = Inr (d, e)"
  shows "discovery_ok d"
  using discovery_ok_ctor assms by (rule discovery_ok_run)

lemma discovery_run_invariant_witness:
  "discovery_ok ((Discovery_ctor ''A'' False ''10.0.0.1'')\<lparr>silenceInterval := 20\<rparr>)"
  by (rule discovery_run_invariant [of "\<lambda>x. x div 1000000"
        "[DoSetSilenceInterval 20, DoUnadvertise Msg ''@/a'' ''na'', DoSweep 5]" "''A''" False "''10.0.0.1''" _ "[]"])
    code_simp

text \<open>The effect of an advertisement from another process.  When its scope hides it
  (local to the process, or to a host that is not ours), only the activity of the sender is noted;
  otherwise its record is appended to the sender's records of that topic unless the node has
  already registered the same address; the callback is called exactly when a record is added.\<close>
theorem advertisement_effect:
  assumes "discovery_ok d" and "p \<noteq> pUuid d"
  shows "\<exists>d'. deliver now ip p (Advertised k t a c n sc) d =
      Inr (d', if hidden ip sc d \<or> duplicate k d t p a n then [] else notify (conn_cb k) d t a c p n sc) \<and>
    activity d' = map_put p now (activity d) \<and>
    (\<forall>k' t' q. records k' d' t' q =
      (if k' = k \<and> t' = t \<and> q = p \<and> \<not> hidden ip sc d \<and> \<not> duplicate k d t p a n
       then records k d t p @ [\<lparr>addr = a, ctrl = c, nUuid = n, scope = sc\<rparr>] else records k' d t' q))"
  using assms by (rule deliver_advertised)

lemma advertisement_effect_witness:
  "\<exists>d'. deliver 9 ''10.0.0.1'' ''B'' (Advertised Msg ''@/b'' ''tcp:3'' ''c3'' ''nb'' Host) disc_ab =
      Inr (d', [Call ConnectionCb ''@/b'' ''tcp:3'' ''c3'' ''B'' ''nb'' Host]) \<and>
    records Msg d' ''@/b'' ''B'' = [rec_b, \<lparr>addr = ''tcp:3'', ctrl = ''c3'', nUuid = ''nb'', scope = Host\<rparr>]"
proof -
  have vis: "\<not> hidden ''10.0.0.1'' Host disc_ab" "\<not> duplicate Msg disc_ab ''@/b'' ''B'' ''tcp:3'' ''nb''"
    by (code_simp, simp add: duplicate_def records_disc_ab rec_b_def)
  have cb: "notify ConnectionCb disc_ab ''@/b'' ''tcp:3'' ''c3'' ''B'' ''nb'' Host =
      [Call ConnectionCb ''@/b'' ''tcp:3'' ''c3'' ''B'' ''nb'' Host]"
    by code_simp
  show ?thesis
    using advertisement_effect [OF disc_ab_ok, of "''B''" 9 "''10.0.0.1''" Msg "''@/b''" "''tcp:3''" "''c3''" "''nb''" Host]
      vis cb records_disc_ab by fastforce
qed

text \<open>A good-bye of another process, whatever was known of it, removes it from the
  activity table and all its records of topics and services, touches no other process, and calls
  the disconnection callbacks that are set, once each.\<close>
theorem bye_forgets_process:
  assumes "discovery_ok d" and "p \<noteq> pUuid d"
  shows "\<exists>d'. deliver now ip p Bye d = Inr (d',
      notify DisconnectionCb d '''' '''' '''' p '''' All @
      notify DisconnectionSrvCb d '''' '''' '''' p '''' All) \<and>
    activity d' = map_erase p (activity d) \<and>
    (\<forall>k t q. records k d' t q = (if q = p then [] else records k d t q))"
  using assms by (rule deliver_bye)

lemma bye_forgets_process_witness:
  "\<exists>d' e. deliver 9 ''10.0.0.9'' ''B'' Bye disc_ab = Inr (d', e) \<and>
     records Msg d' ''@/b'' ''B'' = [] \<and> records Msg d' ''@/a'' ''A'' = [rec_a]"
  using bye_forgets_process [OF disc_ab_ok, of "''B''" 9 "''10.0.0.9''"] records_disc_ab by auto

text \<open>An unadvertisement of another process within scope removes all records of the
  node for that topic and nothing else, and calls the disconnection callback; out of scope it
  changes only the activity of the sender.\<close>
theorem unadvertisement_effect:
  assumes "discovery_ok d" and "p \<noteq> pUuid d"
  shows "\<exists>d'. deliver now ip p (Unadvertised k t a c n sc) d =
      Inr (d', if hidden ip sc d then [] else notify (disc_cb k) d t a c p n sc) \<and>
    activity d' = map_put p now (activity d) \<and>
    (\<forall>k' t' q. records k' d' t' q =
      (if k' = k \<and> t' = t \<and> q = p \<and> \<not> hidden ip sc d
       then filter (\<lambda>i. nUuid i \<noteq> n) (records k d t p) else records k' d t' q))"
  using assms by (rule deliver_unadvertised)

lemma unadvertisement_effect_witness:
  "\<exists>d' e. deliver 9 ''10.0.0.1'' ''B'' (Unadvertised Msg ''@/b'' ''tcp:2'' ''c2'' ''nb'' Host) disc_ab =
      Inr (d', e) \<and> records Msg d' ''@/b'' ''B'' = []"
proof -
  have vis: "\<not> hidden ''10.0.0.1'' Host disc_ab" by code_simp
  show ?thesis
    using unadvertisement_effect [OF disc_ab_ok, of "''B''" 9 "''10.0.0.1''" Msg "''@/b''" "''tcp:2''" "''c2''" "''nb''" Host]
      vis records_disc_ab by (fastforce simp: rec_b_def)
qed

text \<open>A request for a topic or service is answered with one advertisement for each of
  the process's own records of it that the requester may see, in order, and with nothing else; the
  state changes only in the activity of the requester.\<close>
theorem request_answered:
  assumes "discovery_ok d" and "p \<noteq> pUuid d"
    and "\<forall>i \<in> set (records k d t (pUuid d)). sendable (pUuid d) (own_dmsg k t i)"
  shows "deliver now ip p (Requested k t) d =
    Inr (d\<lparr>activity := map_put p now (activity d)\<rparr>,
      datagrams (pUuid d) (map (own_dmsg k t)
        (filter (\<lambda>i. \<not> hidden ip (scope i) d) (records k d t (pUuid d)))))"
  using on_subscribe_eq [OF discovery_ok_activity [OF assms(1,2), of now], of k t ip] assms(2,3)
  by (simp add: deliver_def datagrams_def comp_def)

lemma request_answered_witness:
  "\<exists>d'. deliver 9 ''10.0.0.9'' ''B'' (Requested Msg ''@/a'') disc_ab =
     Inr (d', [Send (dmsg_wire ''A'' (own_dmsg Msg ''@/a'' rec_a))])"
proof -
  have "\<not> hidden ''10.0.0.9'' (scope rec_a) disc_ab" by code_simp
  then show ?thesis
    using request_answered [OF disc_ab_ok, of "''B''" Msg "''@/a''" 9 "''10.0.0.9''"]
    by (simp add: records_disc_ab datagrams_def) (simp add: size_simps rec_a_def)
qed

lemma ex_msg_kind: "(\<exists>k. P k) \<longleftrightarrow> P Msg \<or> P Srv"
  by (metis msg_kind.exhaust)

text \<open>A heartbeat is one heartbeat message followed by one advertisement for each record
  that the process holds of itself, of topics and of services, whatever its scope: records with
  scope \<open>Process\<close> are put on the network too, although \<open>Advertise\<close> keeps them off it.\<close>
theorem heartbeat_readvertises:
  assumes "discovery_ok d" and "own_sendable d"
  shows "\<exists>ms. heartbeat d = Inr (datagrams (pUuid d) (Heartbeat # ms)) \<and>
    set ms = {m. \<exists>k t. \<exists>i \<in> set (records k d t (pUuid d)). m = own_dmsg k t i}"
proof (intro exI conjI)
  show "heartbeat d = Inr (datagrams (pUuid d) (Heartbeat # own_dmsgs Msg d @ own_dmsgs Srv d))"
    using assms by (rule heartbeat_eq)
  have "{m. \<exists>k t. \<exists>i \<in> set (records k d t (pUuid d)). m = own_dmsg k t i} =
      set (own_dmsgs Msg d) \<union> set (own_dmsgs Srv d)"
    unfolding set_own_dmsgs [OF assms(1)] ex_msg_kind by blast
  then show "set (own_dmsgs Msg d @ own_dmsgs Srv d) =
      {m. \<exists>k t. \<exists>i \<in> set (records k d t (pUuid d)). m = own_dmsg k t i}" by simp
qed

text \<open>A topic that is local to process \<open>A\<close>.\<close>

definition disc_local :: discovery where
  "disc_local =
     set_info Msg (snd (AddAddress ''@/a'' ''tcp:1'' ''c1'' ''A'' ''na'' Process [])) (disc0 ''A'')"

lemma disc_local_ok: "discovery_ok disc_local"
  using discovery_ok_add [OF disc0_ok, of "''A''" "''A''" Process Msg] by (simp add: disc_local_def)

lemma records_disc_local:
  "records k disc_local t ''A'' =
     (if k = Msg \<and> t = ''@/a'' then [\<lparr>addr = ''tcp:1'', ctrl = ''c1'', nUuid = ''na'', scope = Process\<rparr>]
      else [])"
  using records_add [OF disc0_ok [of "''A''"], of k Msg "''@/a''" "''tcp:1''" "''c1''" "''A''" "''na''" Process t "''A''"]
  by (simp add: disc_local_def records_def duplicate_def)

lemma heartbeat_readvertises_witness:
  "\<exists>e. heartbeat disc_local = Inr e \<and>
     Send (dmsg_wire ''A'' (Advertised Msg ''@/a'' ''tcp:1'' ''c1'' ''na'' Process)) \<in> set e"
proof -
  have p: "pUuid disc_local = ''A''" by (simp add: disc_local_def)
  have "own_sendable disc_local"
    by (simp add: own_sendable_def p records_disc_local size_simps)
  from heartbeat_readvertises [OF disc_local_ok this] p records_disc_local
  obtain ms where ms: "heartbeat disc_local = Inr (datagrams ''A'' (Heartbeat # ms))"
    and "own_dmsg Msg ''@/a'' \<lparr>addr = ''tcp:1'', ctrl = ''c1'', nUuid = ''na'', scope = Process\<rparr> \<in> set ms"
    by fastforce
  then show ?thesis by (auto simp: datagrams_def own_dmsg_def)
qed

text \<open>Discovering a topic or service broadcasts one request, then calls the connection
  callback for every record already known, of every process, and for nothing else.\<close>
theorem Discover_reports_known:
  assumes "discovery_ok d" and "sendable (pUuid d) (Requested (if isSrv then Srv else Msg) t)"
  shows "\<exists>calls. Discover t isSrv d =
      Inr (Send (dmsg_wire (pUuid d) (Requested (if isSrv then Srv else Msg) t)) # calls) \<and>
    set calls = {x. has_callback (conn_cb (if isSrv then Srv else Msg)) d \<and>
      (\<exists>p. \<exists>i \<in> set (records (if isSrv then Srv else Msg) d t p).
        x = Call (conn_cb (if isSrv then Srv else Msg)) t (addr i) (ctrl i) p (nUuid i) (scope i))}"
  using assms by (rule Discover_eq)

lemma Discover_reports_known_witness:
  "\<exists>calls. Discover ''@/b'' False disc_ab = Inr (Send (dmsg_wire ''A'' (Requested Msg ''@/b'')) # calls) \<and>
     Call ConnectionCb ''@/b'' ''tcp:2'' ''c2'' ''B'' ''nb'' Host \<in> set calls"
proof -
  have cb: "has_callback ConnectionCb disc_ab" by code_simp
  have mem: "rec_b \<in> set (records Msg disc_ab ''@/b'' ''B'')" by (simp add: records_disc_ab)
  have "sendable (pUuid disc_ab) (Requested (if False then Srv else Msg) ''@/b'')"
    by (simp add: size_simps)
  from Discover_reports_known [OF disc_ab_ok this] obtain calls where
    "Discover ''@/b'' False disc_ab = Inr (Send (dmsg_wire ''A'' (Requested Msg ''@/b'')) # calls)"
    "set calls = {x. has_callback ConnectionCb disc_ab \<and> (\<exists>p. \<exists>i \<in> set (records Msg disc_ab ''@/b'' p).
        x = Call ConnectionCb ''@/b'' (addr i) (ctrl i) p (nUuid i) (scope i))}"
    by auto
  moreover have "Call ConnectionCb ''@/b'' ''tcp:2'' ''c2'' ''B'' ''nb'' Host =
      Call ConnectionCb ''@/b'' (addr rec_b) (ctrl rec_b) ''B'' (nUuid rec_b) (scope rec_b)"
    by (simp add: rec_b_def)
  ultimately show ?thesis using cb mem by auto
qed

text \<open>A round of the activity task removes exactly the processes that have been silent
  for longer than the silence interval: their activity entries and all their records go, all
  others stay, and the client is told of each of them, in the order of the table.\<close>
theorem activity_sweep_expires:
  assumes "discovery_ok d" and "disconnectionCb d"
  shows "\<exists>d'. activity_sweep to_ms now d =
      Inr (d', map (gone \<circ> fst) (filter (expired to_ms now d) (activity d))) \<and>
    activity d' = filter (\<lambda>e. \<not> expired to_ms now d e) (activity d) \<and>
    (\<forall>k t p. records k d' t p =
      (case map_of (activity d) p of
         None \<Rightarrow> records k d t p
       | Some seen \<Rightarrow> if expired to_ms now d (p, seen) then [] else records k d t p))"
proof -
  let ?ps = "map fst (filter (expired to_ms now d) (activity d))"
  note ok = discovery_okD(2) [OF assms(1)]
  have mem: "p \<in> set ?ps \<longleftrightarrow> (\<exists>seen. map_of (activity d) p = Some seen \<and> expired to_ms now d (p, seen))"
    for p using map_ok_in_set_iff [OF ok] by force
  have "filter (\<lambda>e. fst e \<notin> set ?ps) (activity d) =
      filter (\<lambda>e. \<not> expired to_ms now d e) (activity d)"
  proof (rule filter_cong [OF refl])
    fix e assume "e \<in> set (activity d)"
    then have "map_of (activity d) (fst e) = Some (snd e)"
      using map_ok_in_set_iff [OF ok, of "fst e" "snd e"] by simp
    then show "fst e \<notin> set ?ps \<longleftrightarrow> \<not> expired to_ms now d e" unfolding mem by simp
  qed
  moreover have "records k (fold forget ?ps d) t p =
      (case map_of (activity d) p of None \<Rightarrow> records k d t p
       | Some seen \<Rightarrow> if expired to_ms now d (p, seen) then [] else records k d t p)" for k t p
    unfolding records_fold_forget [OF assms(1)] mem by (simp split: option.split)
  ultimately show ?thesis
    using sweep_loop_eq [OF assms(2), of to_ms now "activity d"]
    by (simp add: activity_sweep_def activity_fold_forget del: set_map)
qed

lemma activity_sweep_expires_witness:
  "\<exists>d'. activity_sweep (\<lambda>x. x div 1000000) 3001000005 disc_ab = Inr (d', [gone ''B'']) \<and>
     activity d' = [] \<and> records Msg d' ''@/b'' ''B'' = [] \<and> records Msg d' ''@/a'' ''A'' = [rec_a]"
proof -
  have "expired (\<lambda>x. x div 1000000) 3001000005 disc_ab (''B'', 5)"
    by (simp add: expired_def activity_disc_ab)
  then show ?thesis
    using activity_sweep_expires [OF disc_ab_ok activity_disc_ab(3), of "\<lambda>x. x div 1000000" 3001000005]
    by (auto simp: activity_disc_ab records_disc_ab)
qed

text \<open>Without a disconnection callback the activity task calls an empty function as
  soon as one process has expired, which throws in its thread: unlike the other calls of the
  callbacks, this one is not guarded.\<close>
theorem activity_sweep_unguarded_callback:
  assumes "\<not> disconnectionCb d" and "e \<in> set (activity d)" and "expired to_ms now d e"
  shows "activity_sweep to_ms now d = Inl Exn_bad_function_call"
  unfolding activity_sweep_def by (rule sweep_loop_unset) (use assms in blast)+

lemma activity_sweep_unguarded_callback_witness:
  "activity_sweep (\<lambda>x. x div 1000000) 3001000005 (SetDisconnectionsCb False disc_ab) =
     Inl Exn_bad_function_call"
  by (rule activity_sweep_unguarded_callback [of _ "(''B'', 5)"])
    (simp_all add: SetDisconnectionsCb_def activity_disc_ab expired_def)

lemma expired_window:
  assumes "\<And>x. 0 \<le> x \<Longrightarrow> \<bar>to_ms x - x div 1000000\<bar> \<le> 1" and "seen \<le> now"
  shows "(now - seen < 1000000 * int (unat (silenceInterval d)) \<longrightarrow> \<not> expired to_ms now d (p, seen)) \<and>
    (now - seen \<ge> 1000000 * (int (unat (silenceInterval d)) + 2) \<longrightarrow> expired to_ms now d (p, seen))"
proof -
  have conv: "\<bar>to_ms (now - seen) - (now - seen) div 1000000\<bar> \<le> 1" using assms by simp
  define w where "w = int (unat (silenceInterval d))"
  have "(now - seen) div 1000000 < w" if "now - seen < 1000000 * w" using that by linarith
  moreover have "w + 2 \<le> (now - seen) div 1000000" if "1000000 * (w + 2) \<le> now - seen"
    using zdiv_mono1 [OF that, of 1000000] by simp
  ultimately show ?thesis using conv unfolding expired_def w_def [symmetric] snd_conv by linarith
qed

text \<open>How long a silent process is remembered.  The conversion of the elapsed time to
  milliseconds goes through floating point and may be off by one: a round of the activity task keeps
  a process, with all its records, that was heard of less than the silence interval ago, and one
  that has been silent for two milliseconds more than the interval is removed, with all its
  records, and the client is told.\<close>
theorem expiry_window:
  assumes "discovery_ok d" "disconnectionCb d" and p: "(p, seen) \<in> set (activity d)" and "seen \<le> now"
    and conv: "\<And>x. 0 \<le> x \<Longrightarrow> \<bar>to_ms x - x div 1000000\<bar> \<le> 1"
  shows "\<exists>d' e. activity_sweep to_ms now d = Inr (d', e) \<and>
    (now - seen < 1000000 * int (unat (silenceInterval d)) \<longrightarrow>
       (p, seen) \<in> set (activity d') \<and> gone p \<notin> set e \<and> (\<forall>k t. records k d' t p = records k d t p)) \<and>
    (now - seen \<ge> 1000000 * (int (unat (silenceInterval d)) + 2) \<longrightarrow>
       p \<notin> fst ` set (activity d') \<and> gone p \<in> set e \<and> (\<forall>k t. records k d' t p = []))"
proof -
  note look = map_ok_in_set_iff [OF discovery_okD(2) [OF assms(1)], of p]
  have seen: "map_of (activity d) p = Some seen" using p look by simp
  then have only: "\<And>x. (p, x) \<in> set (activity d) \<longleftrightarrow> x = seen" using look by auto
  obtain d' e where d': "activity_sweep to_ms now d = Inr (d', e)"
    and e: "e = map (gone \<circ> fst) (filter (expired to_ms now d) (activity d))"
    and act: "activity d' = filter (\<lambda>e. \<not> expired to_ms now d e) (activity d)"
    and rec: "\<And>k t. records k d' t p = (if expired to_ms now d (p, seen) then [] else records k d t p)"
    using activity_sweep_expires [OF assms(1,2), of to_ms now] by (auto simp: seen)
  have told: "gone p \<in> set e \<longleftrightarrow> expired to_ms now d (p, seen)"
    unfolding e gone_def using only by (auto simp: image_iff gone_def)
  have kept: "(p, x) \<in> set (activity d') \<longleftrightarrow> x = seen \<and> \<not> expired to_ms now d (p, seen)" for x
    unfolding act using only by auto
  have "(now - seen < 1000000 * int (unat (silenceInterval d)) \<longrightarrow> \<not> expired to_ms now d (p, seen)) \<and>
    (now - seen \<ge> 1000000 * (int (unat (silenceInterval d)) + 2) \<longrightarrow> expired to_ms now d (p, seen))"
    using expired_window [of to_ms seen now d p] conv \<open>seen \<le> now\<close> by blast
  then show ?thesis
    using d' told rec by (intro exI [of _ d'] exI [of _ e] conjI) (auto simp: kept)
qed

lemma expiry_window_witness:
  "(\<exists>d' e. activity_sweep (\<lambda>x. x div 1000000) 2999999999 disc_ab = Inr (d', e) \<and> (''B'', 5) \<in> set (activity d')) \<and>
   (\<exists>d' e. activity_sweep (\<lambda>x. x div 1000000) 3002000005 disc_ab = Inr (d', e) \<and> gone ''B'' \<in> set e)"
  using expiry_window [of disc_ab "''B''" 5 2999999999 "\<lambda>x. x div 1000000"]
    expiry_window [of disc_ab "''B''" 5 3002000005 "\<lambda>x. x div 1000000"] disc_ab_ok
  by (auto simp: activity_disc_ab)

subsection \<open>Two processes\<close>

lemma answered_and_recorded:
  assumes b: "discovery_ok b" "pUuid a \<noteq> pUuid b" and vis: "\<not> hidden ip (scope i) b"
    and send: "sendable (pUuid a) (own_dmsg k t i)"
    and len: "length (dmsg_wire (pUuid a) (own_dmsg k t i)) \<le> MaxRcvStr"
  shows "\<exists>b' e. RecvDiscoveryUpdate now stack (Some (ip, dmsg_wire (pUuid a) (own_dmsg k t i))) b = Inr (b', e) \<and>
    (\<exists>j \<in> set (records k b' t (pUuid a)). addr j = addr i \<and> nUuid j = nUuid i)"
proof -
  have "RecvDiscoveryUpdate now stack (Some (ip, dmsg_wire (pUuid a) (own_dmsg k t i))) b =
      deliver now ip (pUuid a) (own_dmsg k t i) b"
    using len Dispatch_dmsg_wire [OF sendable_readable [OF send]]
    by (simp add: RecvDiscoveryUpdate_def Let_def)
  moreover obtain b' e where "deliver now ip (pUuid a) (own_dmsg k t i) b = Inr (b', e)"
    and "records k b' t (pUuid a) =
      (if duplicate k b t (pUuid a) (addr i) (nUuid i) then records k b t (pUuid a)
       else records k b t (pUuid a) @ [\<lparr>addr = addr i, ctrl = ctrl i, nUuid = nUuid i, scope = scope i\<rparr>])"
    using deliver_advertised [OF b, of now ip k t "addr i" "ctrl i" "nUuid i" "scope i"] vis
    unfolding own_dmsg_def by auto
  ultimately show ?thesis by (auto simp: duplicate_def split: if_splits)
qed

text \<open>C12 Discovery works end to end, through the bytes: when process \<open>a\<close> advertises a
  topic or service with a scope that \<open>b\<close> may see, and \<open>b\<close> asks for it, then the datagram that \<open>b\<close>
  sends, received by \<open>a\<close>, makes \<open>a\<close> send a datagram that, received by \<open>b\<close>, leaves \<open>b\<close> with the
  address of that node among the records of \<open>a\<close>.  Neither buffer's earlier contents matter.\<close>
theorem discovery_end_to_end:
  assumes a: "discovery_ok a" and b: "discovery_ok b" and "pUuid a \<noteq> pUuid b"
    and i: "i \<in> set (records k a t (pUuid a))"
    and vis: "\<not> hidden ip_b (scope i) a" "\<not> hidden ip_a (scope i) b"
    and send: "sendable (pUuid b) (Requested k t)"
      "\<forall>j \<in> set (records k a t (pUuid a)). sendable (pUuid a) (own_dmsg k t j)"
    and len: "length (dmsg_wire (pUuid b) (Requested k t)) \<le> MaxRcvStr"
      "length (dmsg_wire (pUuid a) (own_dmsg k t i)) \<le> MaxRcvStr"
  shows "\<exists>req calls a' answers reply b' e.
    Discover t (k = Srv) b = Inr (Send req # calls) \<and>
    RecvDiscoveryUpdate now stack (Some (ip_b, req)) a = Inr (a', answers) \<and>
    Send reply \<in> set answers \<and>
    RecvDiscoveryUpdate now' stack' (Some (ip_a, reply)) b = Inr (b', e) \<and>
    (\<exists>j \<in> set (records k b' t (pUuid a)). addr j = addr i \<and> nUuid j = nUuid i)"
proof -
  let ?req = "dmsg_wire (pUuid b) (Requested k t)" and ?reply = "dmsg_wire (pUuid a) (own_dmsg k t i)"
  have k: "(if k = Srv then Srv else Msg) = k" by (cases k) simp_all
  obtain calls where "Discover t (k = Srv) b = Inr (Send ?req # calls)"
    using Discover_eq [of b "k = Srv" t] b send(1) unfolding k by blast
  moreover have "RecvDiscoveryUpdate now stack (Some (ip_b, ?req)) a =
      deliver now ip_b (pUuid b) (Requested k t) a"
    using len(1) Dispatch_dmsg_wire [OF sendable_readable [OF send(1)]]
    by (simp add: RecvDiscoveryUpdate_def Let_def)
  moreover have "deliver now ip_b (pUuid b) (Requested k t) a =
      Inr (a\<lparr>activity := map_put (pUuid b) now (activity a)\<rparr>,
        map (\<lambda>j. Send (dmsg_wire (pUuid a) (own_dmsg k t j)))
          (filter (\<lambda>j. \<not> hidden ip_b (scope j) a) (records k a t (pUuid a))))"
    using on_subscribe_eq [OF discovery_ok_activity [OF a, of "pUuid b" now], of k t ip_b] assms(3) send(2)
    by (simp add: deliver_def)
  moreover obtain b' e where "RecvDiscoveryUpdate now' stack' (Some (ip_a, ?reply)) b = Inr (b', e)"
    "\<exists>j \<in> set (records k b' t (pUuid a)). addr j = addr i \<and> nUuid j = nUuid i"
    using answered_and_recorded [OF b assms(3) vis(2) _ len(2)] send(2) i by blast
  ultimately show ?thesis using i vis(1) by fastforce
qed

lemma discovery_end_to_end_witness:
  "\<exists>req calls a' answers reply b' e.
    Discover ''@/a'' (Msg = Srv) (disc0 ''C'') = Inr (Send req # calls) \<and>
    RecvDiscoveryUpdate 7 ''x'' (Some (''10.0.0.3'', req)) disc_ab = Inr (a', answers) \<and>
    Send reply \<in> set answers \<and>
    RecvDiscoveryUpdate 8 ''y'' (Some (''10.0.0.1'', reply)) (disc0 ''C'') = Inr (b', e) \<and>
    (\<exists>j \<in> set (records Msg b' ''@/a'' (pUuid disc_ab)). addr j = addr rec_a \<and> nUuid j = nUuid rec_a)"
proof (rule discovery_end_to_end [OF disc_ab_ok disc0_ok])
  show "\<not> hidden ''10.0.0.3'' (scope rec_a) disc_ab" "\<not> hidden ''10.0.0.1'' (scope rec_a) (disc0 ''C'')"
    by code_simp+
qed (simp_all add: records_disc_ab, simp_all add: size_simps rec_a_def)

end
