(* ===== verification/Startup.thy ===== *)
theory Startup
  imports Node DiscoveryCorrect
begin

text \<open>
  How a process starts.  The constructor of \<^verbatim>\<open>NodeShared\<close> first creates its discovery, whose threads
  run from then on; it then binds its sockets, starts the thread that receives, and registers its four
  callbacks with the discovery one after the other.  Nothing keeps the threads from working in
  between, so datagrams may arrive while some callbacks, or all, are missing.
\<close>

datatype start_act = StartReception | Register callback

definition start_acts :: "start_act list" where
  "start_acts = [StartReception, Register ConnectionCb, Register DisconnectionCb, Register ConnectionSrvCb,
     Register DisconnectionSrvCb]"

fun perform_act :: "start_act \<Rightarrow> 'm node_shared \<Rightarrow> 'm node_shared" where
  "perform_act StartReception s = s"
| "perform_act (Register cb) s = s\<lparr>disc := set_callback cb True (disc s)\<rparr>"

text \<open>The shared node when its discovery has been created.  The addresses are the ones that the sockets
  get in the mean time; no thread looks at them before.\<close>

definition NodeShared_created ::
    "string \<Rightarrow> string \<Rightarrow> string \<Rightarrow> string \<Rightarrow> string \<Rightarrow> string \<Rightarrow> string \<Rightarrow> string \<Rightarrow> 'm node_shared" where
  "NodeShared_created u host a_pub a_ctrl a_req a_rep id_resp id_rep =
     \<lparr>ns_pUuid = u, myAddress = a_pub, myControlAddress = a_ctrl, myRequesterAddress = a_req,
      myReplierAddress = a_rep, responseReceiverId = id_resp, replierId = id_rep,
      disc = Discovery_ctor u False host, connections = [], srvConnections = [], remoteSubscribers = [],
      localSubscriptions = [], repliers = [], requests = [], heap = []\<rparr>"

text \<open>The states in the course of the constructor, with what it has yet to do.\<close>

inductive starting :: "'m node_shared \<Rightarrow> start_act list \<Rightarrow> bool" where
  created: "starting (NodeShared_created u host a_pub a_ctrl a_req a_rep id_resp id_rep) start_acts"
| act: "starting s (a # as) \<Longrightarrow> starting (perform_act a s) as"
| task: "starting s as \<Longrightarrow> op = DoReceive now stack r \<or> op = DoSweep now \<or> op = DoHeartbeat \<Longrightarrow>
    with_discovery fails (discovery_step to_ms op) s = Inr (s', e) \<Longrightarrow> starting s' as"
| reception: "starting s as \<Longrightarrow> StartReception \<notin> set as \<Longrightarrow>
    reception_round fails result0 msg control req rep s = Inr (s', e) \<Longrightarrow> starting s' as"

lemma starting_rest: "starting s as \<Longrightarrow> \<exists>done_acts. start_acts = done_acts @ as"
proof (induction rule: starting.induct)
  case (act s a as)
  then obtain ds where "start_acts = (ds @ [a]) @ as" by auto
  then show ?case by blast
qed auto

lemma starting_acts: "starting s as \<Longrightarrow> starting (fold perform_act as s) []"
  by (induction as arbitrary: s) (auto intro: starting.act)

text \<open>When nothing happens in between, the outcome is that of the constructor taken as a whole.\<close>

lemma NodeShared_ctor_acts:
  "NodeShared_ctor u host a_pub a_ctrl a_req a_rep id_resp id_rep =
     fold perform_act start_acts (NodeShared_created u host a_pub a_ctrl a_req a_rep id_resp id_rep)"
  by (simp add: start_acts_def NodeShared_created_def NodeShared_ctor_def)

lemma starting_ctor: "starting (NodeShared_ctor u host a_pub a_ctrl a_req a_rep id_resp id_rep) []"
  unfolding NodeShared_ctor_acts by (rule starting_acts [OF starting.created])

text \<open>The callbacks that have been registered when \<open>as\<close> remains to be done.\<close>

definition registered :: "start_act list \<Rightarrow> callback set" where
  "registered as = {cb. Register cb \<notin> set as}"

lemma registered_simps [simp]:
  "registered [] = UNIV" "registered start_acts = {}" "registered (StartReception # as) = registered as"
  by (auto simp: registered_def start_acts_def) (metis callback.exhaust)

lemma has_callback_set: "has_callback cb (set_callback cb' b d) = (if cb = cb' then b else has_callback cb d)"
  by (cases cb; cases cb') (simp_all add: SetConnectionsCb_def SetDisconnectionsCb_def SetConnectionsSrvCb_def
      SetDisconnectionsSrvCb_def)

end
