(* ===== verification/ProcessInvariant.thy ===== *)
theory ProcessInvariant
  imports Startup
begin

text \<open>
  What holds of the shared node of a process at all times.  The states of a process are those that
  the constructor of \<^verbatim>\<open>NodeShared\<close> and the steps of its nodes and of its threads lead to.
\<close>

subsection \<open>The handlers of a topic\<close>

lemma handlers_of_inner:
  "handlers_of topic data = concat (map (\<lambda>node. map snd (snd node)) (inner data topic))"
  by (simp add: handlers_of_def GetHandlers_def inner_def split: option.split)

lemma collection_in_set:
  assumes "handlers_ok data"
  shows "(n, m) \<in> set (inner data t) \<longleftrightarrow> m = node_handlers data t n \<and> m \<noteq> []"
  using map_ok_in_set_iff [OF nested_ok_map_ok [OF collection_ok [OF assms]], of n m t]
    collection_lookup [OF assms, of t n]
  by auto

lemma handler_entry:
  "handlers_ok data \<Longrightarrow> (u, x) \<in> set (node_handlers data t n) \<longleftrightarrow> handler_at data t n u = Some x"
  using map_ok_in_set_iff [OF node_handlers_ok] by (simp add: handler_at_def)

lemma set_handlers_of:
  assumes "handlers_ok data"
  shows "set (handlers_of t data) = {x. \<exists>n u. GetHandler t n u data = Some x}"
proof (intro set_eqI iffI)
  fix x assume "x \<in> set (handlers_of t data)"
  then obtain n m u where "(n, m) \<in> set (inner data t)" "(u, x) \<in> set m"
    by (force simp: handlers_of_inner)
  then have "handler_at data t n u = Some x"
    unfolding collection_in_set [OF assms] using handler_entry [OF assms] by blast
  then show "x \<in> {x. \<exists>n u. GetHandler t n u data = Some x}" by (auto simp: GetHandler_at)
next
  fix x assume "x \<in> {x. \<exists>n u. GetHandler t n u data = Some x}"
  then obtain n u where "(u, x) \<in> set (node_handlers data t n)"
    using handler_entry [OF assms] by (auto simp: GetHandler_at)
  moreover from this have "(n, node_handlers data t n) \<in> set (inner data t)"
    unfolding collection_in_set [OF assms] by auto
  ultimately show "x \<in> set (handlers_of t data)" by (force simp: handlers_of_inner)
qed

text \<open>The keys of the entries of two nested maps, in the order of the loops.\<close>

definition key_pairs :: "'h handler_collection \<Rightarrow> (string \<times> string) list" where
  "key_pairs c = concat (map (\<lambda>e. map (\<lambda>x. (fst e, fst x)) (snd e)) c)"

lemma distinct_key_pairs: "nested_ok map_ok c \<Longrightarrow> distinct (key_pairs c)"
proof -
  assume c: "nested_ok map_ok c"
  have "distinct (map fst c)" using nested_ok_map_ok [OF c] by (rule map_ok_distinct)
  moreover have "\<forall>e \<in> set c. distinct (map fst (snd e))"
    using c map_ok_in_set_iff [OF nested_ok_map_ok [OF c]]
    by (metis map_ok_distinct nested_ok_def prod.collapse)
  ultimately show ?thesis
  proof (induction c)
    case Nil
    then show ?case by (simp add: key_pairs_def)
  next
    case (Cons e c)
    have "distinct (map (\<lambda>x. (fst e, fst x)) (snd e))"
      using Cons.prems(2) by (simp add: distinct_map inj_on_def)
    moreover have "fst q \<noteq> fst e" if "q \<in> set (key_pairs c)" for q
    proof -
      from that obtain e' where "e' \<in> set c" "fst q = fst e'" by (auto simp: key_pairs_def)
      then show ?thesis using Cons.prems(1) by (metis distinct.simps(2) image_eqI list.set_map list.simps(9))
    qed
    then have "set (map (\<lambda>x. (fst e, fst x)) (snd e)) \<inter> set (key_pairs c) = {}" by force
    moreover have "distinct (key_pairs c)" using Cons by simp
    moreover have "key_pairs (e # c) = map (\<lambda>x. (fst e, fst x)) (snd e) @ key_pairs c"
      by (simp add: key_pairs_def)
    ultimately show ?case by (simp only: distinct_append simp_thms)
  qed
qed

text \<open>Every reference in the storage denotes an object, filed under its own identifiers.\<close>

definition requests_ok :: "'m node_shared \<Rightarrow> bool" where
  "requests_ok s \<longleftrightarrow> handlers_ok (requests s) \<and>
     (\<forall>t n u r. GetHandler t n u (requests s) = Some r \<longrightarrow>
       r < length (heap s) \<and> rq_nUuid (heap s ! r) = n \<and> rq_hUuid (heap s ! r) = u)"

subsection \<open>The invariant\<close>

text \<open>Handlers are filed under their own identifiers, and never for the empty topic.\<close>

definition subscriptions_ok :: "'m sub_handler handler_storage \<Rightarrow> bool" where
  "subscriptions_ok data \<longleftrightarrow> handlers_ok data \<and>
     (\<forall>t n u h. GetHandler t n u data = Some h \<longrightarrow> t \<noteq> '''' \<and> sh_nUuid h = n \<and> sh_hUuid h = u)"

definition repliers_ok :: "'m rep_handler handler_storage \<Rightarrow> bool" where
  "repliers_ok data \<longleftrightarrow> handlers_ok data \<and>
     (\<forall>t n u h. GetHandler t n u data = Some h \<longrightarrow> t \<noteq> '''' \<and> rh_hUuid h = u)"

text \<open>A process is connected to other processes only, and for topics with a name.\<close>

definition connections_ok :: "string \<Rightarrow> topic_storage \<Rightarrow> bool" where
  "connections_ok me data \<longleftrightarrow> storage_ok data \<and>
     (\<forall>t p. vec data t p \<noteq> [] \<longrightarrow> t \<noteq> '''' \<and> p \<noteq> me)"

text \<open>The callbacks in \<open>C\<close> are registered; when the process has started, all are.\<close>

definition process_ok_for :: "callback set \<Rightarrow> 'm node_shared \<Rightarrow> bool" where
  "process_ok_for C s \<longleftrightarrow>
     discovery_ok (disc s) \<and> pUuid (disc s) = ns_pUuid s \<and> (\<forall>cb \<in> C. has_callback cb (disc s)) \<and>
     connections_ok (ns_pUuid s) (connections s) \<and> distinct (srvConnections s) \<and>
     storage_ok (remoteSubscribers s) \<and>
     subscriptions_ok (localSubscriptions s) \<and> repliers_ok (repliers s) \<and> requests_ok s"

abbreviation process_ok :: "'m node_shared \<Rightarrow> bool" where
  "process_ok \<equiv> process_ok_for UNIV"

lemma process_forD:
  assumes "process_ok_for C s"
  shows "discovery_ok (disc s)" "pUuid (disc s) = ns_pUuid s" "cb \<in> C \<Longrightarrow> has_callback cb (disc s)"
    "connections_ok (ns_pUuid s) (connections s)" "distinct (srvConnections s)"
    "storage_ok (remoteSubscribers s)" "subscriptions_ok (localSubscriptions s)"
    "repliers_ok (repliers s)" "requests_ok s"
  using assms unfolding process_ok_for_def by blast+

lemma process_okD:
  assumes "process_ok s"
  shows "discovery_ok (disc s)" "pUuid (disc s) = ns_pUuid s" "has_callback cb (disc s)"
    "connections_ok (ns_pUuid s) (connections s)" "distinct (srvConnections s)"
    "storage_ok (remoteSubscribers s)" "subscriptions_ok (localSubscriptions s)"
    "repliers_ok (repliers s)" "requests_ok s"
  using process_forD [OF assms] by blast+

inductive process_reachable :: "'m node_shared \<Rightarrow> bool" where
  started: "starting s [] \<Longrightarrow> process_reachable s"
| discovery: "process_reachable s \<Longrightarrow>
    op = DoReceive now stack r \<or> op = DoSweep now \<or> op = DoHeartbeat \<Longrightarrow>
    with_discovery fails (discovery_step to_ms op) s = Inr (s', e) \<Longrightarrow> process_reachable s'"
| reception: "process_reachable s \<Longrightarrow>
    reception_round fails result0 msg control req rep s = Inr (s', e) \<Longrightarrow> process_reachable s'"
| advertise: "process_reachable s \<Longrightarrow> Node_Advertise fails topic sc nd s = Inr (nd', s', e, ok) \<Longrightarrow>
    process_reachable s'"
| unadvertise: "process_reachable s \<Longrightarrow> Node_Unadvertise fails topic nd s = Inr (nd', s', e, ok) \<Longrightarrow>
    process_reachable s'"
| subscribe: "process_reachable s \<Longrightarrow>
    Node_Subscribe fails topic hUuid create cb nd s = Inr (nd', s', e, ok) \<Longrightarrow> process_reachable s'"
| unsubscribe: "process_reachable s \<Longrightarrow> Node_Unsubscribe fails topic nd s = Inr (nd', s', e, ok) \<Longrightarrow>
    process_reachable s'"
| advertise_srv: "process_reachable s \<Longrightarrow>
    Node_AdvertiseSrv fails topic hUuid create new serialize scb sc nd s = Inr (nd', s', e, ok) \<Longrightarrow> process_reachable s'"
| unadvertise_srv: "process_reachable s \<Longrightarrow>
    Node_UnadvertiseSrv fails topic nd s = Inr (nd', s', e, ok) \<Longrightarrow> process_reachable s'"
| request: "process_reachable s \<Longrightarrow>
    Node_Request fails topic msg hUuid create serialize new cb rep0 result0 nd s = Inr (nd', s', e, ok) \<Longrightarrow>
    process_reachable s'"
| blocking_request: "process_reachable s \<Longrightarrow>
    Node_Request_start fails topic msg hUuid create serialize new rep0 result0 nd s = Inr (st, s', e) \<Longrightarrow>
    process_reachable s'"

text \<open>What a step does to one component.\<close>

lemma fqn_not_Nil: "fqn nd topic \<noteq> Some ''''"
  by (auto simp: fqn_def GetFullyQualifiedName_Some_iff)

lemma subscriptions_ok_add:
  "subscriptions_ok data \<Longrightarrow> t \<noteq> '''' \<Longrightarrow> sh_nUuid h = n \<Longrightarrow>
     subscriptions_ok (AddHandler sh_hUuid t n h data)"
  by (auto simp: subscriptions_ok_def GetHandler_at hs.ok_add hs.at_add split: if_splits)

lemma subscriptions_ok_remove:
  "subscriptions_ok data \<Longrightarrow> subscriptions_ok (snd (RemoveHandlersForNode t n data))"
  by (auto simp: subscriptions_ok_def GetHandler_at hs.ok_remove_node hs.at_remove_node split: if_splits)

lemma repliers_ok_add:
  "repliers_ok data \<Longrightarrow> t \<noteq> '''' \<Longrightarrow> repliers_ok (AddHandler rh_hUuid t n h data)"
  by (auto simp: repliers_ok_def GetHandler_at hs.ok_add hs.at_add split: if_splits)

lemma repliers_ok_remove:
  "repliers_ok data \<Longrightarrow> repliers_ok (snd (RemoveHandlersForNode t n data))"
  by (auto simp: repliers_ok_def GetHandler_at hs.ok_remove_node hs.at_remove_node split: if_splits)

lemma connections_ok_add:
  "connections_ok me data \<Longrightarrow> t \<noteq> '''' \<Longrightarrow> p \<noteq> me \<Longrightarrow>
     connections_ok me (snd (AddAddress t a c p n sc data))"
  by (auto simp: connections_ok_def ts.ok_add ts.recs_add split: if_splits)

lemma connections_ok_less:
  assumes "connections_ok me data" and "storage_ok data'"
    and "\<And>t p. vec data t p = [] \<Longrightarrow> vec data' t p = []"
  shows "connections_ok me data'"
  using assms by (auto simp: connections_ok_def)

lemma connections_ok_del:
  assumes "connections_ok me data"
  shows "connections_ok me (snd (DelAddressByNode t p n data))"
    and "connections_ok me (snd (DelAddressesByProc p data))"
proof -
  have ok: "storage_ok data" using assms by (simp add: connections_ok_def)
  show "connections_ok me (snd (DelAddressByNode t p n data))"
    using assms by (rule connections_ok_less) (auto simp add: ts.ok_del_node ts.recs_del_node ok)
  show "connections_ok me (snd (DelAddressesByProc p data))"
    using assms by (rule connections_ok_less) (simp_all add: ts.ok_del_proc ts.recs_del_proc ok)
qed

lemma requests_ok_heap:
  assumes "requests_ok s" and "length hp = length (heap s)"
    and "\<And>r. r < length hp \<Longrightarrow> rq_nUuid (hp ! r) = rq_nUuid (heap s ! r) \<and> rq_hUuid (hp ! r) = rq_hUuid (heap s ! r)"
  shows "requests_ok (s\<lparr>heap := hp\<rparr>)"
  using assms by (auto simp: requests_ok_def)

lemma requests_ok_frame:
  "requests s' = requests s \<Longrightarrow> heap s' = heap s \<Longrightarrow> requests_ok s' = requests_ok s"
  by (simp add: requests_ok_def)

lemma requests_ok_remove:
  "requests_ok s \<Longrightarrow> requests_ok (s\<lparr>requests := snd (RemoveHandler t n u (requests s))\<rparr>)"
  by (auto simp: requests_ok_def GetHandler_at hs.ok_remove hs.at_remove split: if_splits)

subsection \<open>The steps of the discovery\<close>

definition same_client :: "discovery \<Rightarrow> discovery \<Rightarrow> bool" where
  "same_client d d' \<longleftrightarrow> pUuid d' = pUuid d \<and> (\<forall>cb. has_callback cb d' = has_callback cb d)"

lemma same_client_refl [simp]: "same_client d d"
  by (simp add: same_client_def)

lemma same_client_set_info [simp]: "same_client d (set_info k x d)"
  by (simp add: same_client_def)

lemma same_client_forget [simp]: "same_client d (forget p d)"
  by (simp add: same_client_def)

lemma same_client_activity [simp]: "same_client (d\<lparr>activity := x\<rparr>) d' = same_client d d'"
  by (simp add: same_client_def)

lemma same_client_Dispatch:
  assumes "DispatchDiscoveryMsg now ip msg d = Inr (d', e)"
  shows "same_client d d'"
  using assms
proof (cases rule: Dispatch_cases)
  case own
  then show ?thesis by simp
next
  case (other p ty b)
  have "same_client (d\<lparr>activity := map_put p now (activity d)\<rparr>) d'"
    using other(2)
    by (cases rule: dispatch_body_cases)
      (simp_all add: on_advertise_state on_unadvertise_state same_client_def)
  then show ?thesis by simp
qed

lemma same_client_sweep: "activity_sweep to_ms now d = Inr (d', e) \<Longrightarrow> same_client d d'"
  by (drule sweep_cases) (simp add: same_client_def)

lemma same_client_Recv: "RecvDiscoveryUpdate now stack r d = Inr (d', e) \<Longrightarrow> same_client d d'"
  by (auto simp: RecvDiscoveryUpdate_def Let_def same_client_Dispatch split: option.splits)

lemma same_client_Advertise: "Advertise k t a c n sc d = Inr (d', e) \<Longrightarrow> same_client d d'"
  by (drule Advertise_state) simp

lemma same_client_Unadvertise: "Unadvertise k t n d = Inr (d', e) \<Longrightarrow> same_client d d'"
  by (drule Unadvertise_state) auto

lemma discovery_steps:
  assumes "op = DoReceive now stack r \<or> op = DoSweep now \<or> op = DoHeartbeat"
    and "discovery_step to_ms op d = Inr (d', e)"
  shows "same_client d d'"
  using assms by (auto simp: rbind_eq_Inr_iff same_client_Recv same_client_sweep)

subsection \<open>Every step keeps it\<close>

lemma process_ok_discovery:
  "process_ok_for C s \<Longrightarrow> discovery_ok d \<Longrightarrow> same_client (disc s) d \<Longrightarrow> process_ok_for C (s\<lparr>disc := d\<rparr>)"
  by (simp add: process_ok_for_def requests_ok_def same_client_def)

lemma process_ok_connections:
  "process_ok_for C s \<Longrightarrow> connections_ok (ns_pUuid s) c \<Longrightarrow> process_ok_for C (s\<lparr>connections := c\<rparr>)"
  by (simp add: process_ok_for_def requests_ok_def)

lemma process_ok_subscribers:
  "process_ok_for C s \<Longrightarrow> storage_ok c \<Longrightarrow> process_ok_for C (s\<lparr>remoteSubscribers := c\<rparr>)"
  by (simp add: process_ok_for_def requests_ok_def)

lemma process_ok_srvConnections:
  "process_ok_for C s \<Longrightarrow> distinct c \<Longrightarrow> process_ok_for C (s\<lparr>srvConnections := c\<rparr>)"
  by (simp add: process_ok_for_def requests_ok_def)

lemma process_ok_subscriptions:
  "process_ok_for C s \<Longrightarrow> subscriptions_ok c \<Longrightarrow> process_ok_for C (s\<lparr>localSubscriptions := c\<rparr>)"
  by (simp add: process_ok_for_def requests_ok_def)

lemma process_ok_repliers:
  "process_ok_for C s \<Longrightarrow> repliers_ok c \<Longrightarrow> process_ok_for C (s\<lparr>repliers := c\<rparr>)"
  by (simp add: process_ok_for_def requests_ok_def)

lemma process_ok_requests:
  "process_ok_for C s \<Longrightarrow> requests_ok (s\<lparr>heap := h, requests := q\<rparr>) \<Longrightarrow> process_ok_for C (s\<lparr>heap := h, requests := q\<rparr>)"
  by (simp add: process_ok_for_def)

lemmas process_ok_updates = process_ok_discovery process_ok_connections process_ok_subscribers
  process_ok_srvConnections process_ok_subscriptions process_ok_repliers

lemma process_ok_OnNewConnection:
  assumes "process_ok_for C s"
  shows "process_ok_for C (fst (OnNewConnection fails t a c p n sc s))"
proof -
  have "t \<noteq> ''''" if "HasHandlersForTopic t (localSubscriptions s)"
    using that process_forD(7) [OF assms]
    by (auto simp: subscriptions_ok_def HasHandlersForTopic_iff GetHandler_at)
  then show ?thesis
    using assms process_forD(4) [OF assms]
    by (auto simp: OnNewConnection_def Let_def intro!: process_ok_updates connections_ok_add)
qed

lemma process_ok_OnNewDisconnection:
  "process_ok_for C s \<Longrightarrow> OnNewDisconnection fails t p n s = Inr (s', e) \<Longrightarrow> process_ok_for C s'"
  using process_forD(4,6) [of C s]
  by (auto simp: OnNewDisconnection_def Let_def split: if_splits option.splits
      intro!: process_ok_updates connections_ok_del ts.ok_del_node ts.ok_del_proc)

lemma send_pending_heap:
  "\<exists>h. fst (send_pending fails t i rs s) = s\<lparr>heap := h\<rparr> \<and> length h = length (heap s) \<and>
     (\<forall>r. rq_nUuid (h ! r) = rq_nUuid (heap s ! r) \<and> rq_hUuid (h ! r) = rq_hUuid (heap s ! r))"
proof (induction rs arbitrary: s)
  case Nil
  have "fst (send_pending fails t i [] s) = s\<lparr>heap := heap s\<rparr>" by simp
  then show ?case by blast
next
  case (Cons r rs)
  let ?s = "s\<lparr>heap := (heap s)[r := SetRequested True (heap s ! r)]\<rparr>"
  show ?case
  proof (cases "rq_requested (heap s ! r)")
    case True
    then show ?thesis using Cons.IH [of s] by simp
  next
    case False
    have ids: "rq_nUuid (heap ?s ! q) = rq_nUuid (heap s ! q) \<and> rq_hUuid (heap ?s ! q) = rq_hUuid (heap s ! q)" for q
      by (cases "q = r"; cases "r < length (heap s)"; simp add: SetRequested_def list_update_beyond)
    from Cons.IH [of ?s] obtain h where "fst (send_pending fails t i rs ?s) = ?s\<lparr>heap := h\<rparr>"
      "length h = length (heap ?s)"
      "\<forall>q. rq_nUuid (h ! q) = rq_nUuid (heap ?s ! q) \<and> rq_hUuid (h ! q) = rq_hUuid (heap ?s ! q)"
      by blast
    then show ?thesis
      using False ids by (intro exI [of _ h]) (simp add: Let_def case_prod_unfold)
  qed
qed

lemma process_ok_SendPending:
  assumes "process_ok_for C s" and "SendPendingRemoteReqs fails t s = Inr (s', e)"
  shows "process_ok_for C s'"
proof -
  from assms(2) have "s' = s \<or> (\<exists>i rs. s' = fst (send_pending fails t i rs s))"
    by (auto simp: SendPendingRemoteReqs_def split: option.splits list.splits prod.splits)
      (metis fst_conv)
  then show ?thesis
  proof
    assume "\<exists>i rs. s' = fst (send_pending fails t i rs s)"
    then obtain i rs where "s' = fst (send_pending fails t i rs s)" by blast
    with send_pending_heap [of fails t i rs s] obtain h where "s' = s\<lparr>heap := h\<rparr>"
      "length h = length (heap s)"
      "\<forall>r. rq_nUuid (h ! r) = rq_nUuid (heap s ! r) \<and> rq_hUuid (h ! r) = rq_hUuid (heap s ! r)"
      by auto
    moreover from this have "requests_ok (s\<lparr>heap := h\<rparr>)"
      using process_forD(9) [OF assms(1)] by (intro requests_ok_heap) simp_all
    ultimately show ?thesis
      using process_ok_requests [OF assms(1), where h = h and q = "requests s"] by simp
  qed (simp add: assms(1))
qed

lemma process_ok_OnNewSrvConnection:
  "process_ok_for C s \<Longrightarrow> OnNewSrvConnection fails t a s = Inr (s', e) \<Longrightarrow> process_ok_for C s'"
  using process_forD(5) [of C s]
  by (auto simp: OnNewSrvConnection_def Let_def rbind_eq_Inr_iff split: if_splits
      intro!: process_ok_updates elim!: process_ok_SendPending [rotated])

lemma process_ok_OnNewSrvDisconnection: "process_ok_for C s \<Longrightarrow> process_ok_for C (OnNewSrvDisconnection a s)"
  using process_forD(5) [of C s] by (auto simp: OnNewSrvDisconnection_def intro!: process_ok_updates)

lemma process_ok_handle_event:
  "process_ok_for C s \<Longrightarrow> handle_event fails x s = Inr (s', e) \<Longrightarrow> process_ok_for C s'"
  by (induction fails x s rule: handle_event.induct)
    (simp_all add: process_ok_OnNewSrvDisconnection,
      metis fst_conv process_ok_OnNewConnection,
      metis process_ok_OnNewDisconnection, metis process_ok_OnNewSrvConnection,
      metis process_ok_OnNewSrvDisconnection)

lemma process_ok_handle_events:
  "process_ok_for C s \<Longrightarrow> handle_events fails xs s = Inr (s', e) \<Longrightarrow> process_ok_for C s'"
  by (induction xs arbitrary: s e) (auto simp: rbind_eq_Inr_iff dest: process_ok_handle_event)

text \<open>A step of the discovery from within a step of the process.\<close>

lemma process_ok_with_discovery:
  assumes "with_discovery fails f s = Inr (s', e)" and "process_ok_for C s"
    and "\<And>d events. f (disc s) = Inr (d, events) \<Longrightarrow> discovery_ok d \<and> same_client (disc s) d"
  shows "process_ok_for C s'"
proof -
  from assms(1) obtain d events where d: "f (disc s) = Inr (d, events)"
    and h: "handle_events fails events (s\<lparr>disc := d\<rparr>) = Inr (s', e)"
    by (auto simp: with_discovery_def rbind_eq_Inr_iff)
  have "process_ok_for C (s\<lparr>disc := d\<rparr>)" using assms(2,3) d by (simp add: process_ok_discovery)
  then show ?thesis using h by (rule process_ok_handle_events)
qed

lemma process_ok_Advertise:
  "with_discovery fails (Advertise k t a c n sc) s = Inr (s', e) \<Longrightarrow> process_ok_for C s \<Longrightarrow> process_ok_for C s'"
  by (erule process_ok_with_discovery)
    (auto intro: discovery_ok_Advertise process_forD same_client_Advertise)

lemma process_ok_Unadvertise:
  "with_discovery fails (Unadvertise k t n) s = Inr (s', e) \<Longrightarrow> process_ok_for C s \<Longrightarrow> process_ok_for C s'"
  by (erule process_ok_with_discovery)
    (auto intro: discovery_ok_Unadvertise process_forD same_client_Unadvertise)

lemma process_ok_Discover:
  "with_discovery fails (\<lambda>d. rbind (Discover t b d) (\<lambda>e. Inr (d, e))) s = Inr (s', e) \<Longrightarrow>
     process_ok_for C s \<Longrightarrow> process_ok_for C s'"
  by (erule process_ok_with_discovery) (auto simp: rbind_eq_Inr_iff intro: process_forD)

subsection \<open>Receptions\<close>

lemma process_ok_RecvControl:
  "process_ok_for C s \<Longrightarrow> RecvControlUpdate frames s = Inr s' \<Longrightarrow> process_ok_for C s'"
  using process_forD(6) [of C s]
  by (auto simp: RecvControlUpdate_def rbind_eq_Inr_iff split: option.splits if_splits
      intro!: process_ok_updates ts.ok_add ts.ok_del_node)

lemma process_ok_RecvSrvRequest:
  "process_ok_for C s \<Longrightarrow> RecvSrvRequest fails result0 frames s = Inr (s', e) \<Longrightarrow> process_ok_for C s'"
  using process_forD(5) [of C s]
  by (auto simp: RecvSrvRequest_def rbind_eq_Inr_iff Let_def case_prod_unfold
      split: option.splits if_splits intro!: process_ok_updates)

lemma NotifyResult_ids:
  "rq_nUuid (fst (NotifyResult t rep b h)) = rq_nUuid h" "rq_hUuid (fst (NotifyResult t rep b h)) = rq_hUuid h"
  by (simp_all add: NotifyResult_def)

lemma process_ok_RecvSrvResponse:
  assumes "process_ok_for C s"
  shows "process_ok_for C (fst (RecvSrvResponse frames s))"
proof -
  have "requests_ok (s\<lparr>heap := (heap s)[r := fst (NotifyResult t rep b (heap s ! r))],
      requests := snd (RemoveHandler t n u (requests s))\<rparr>)" for t n u r rep b
  proof -
    let ?h = "(heap s)[r := fst (NotifyResult t rep b (heap s ! r))]"
    have "requests_ok (s\<lparr>heap := ?h\<rparr>)"
    proof (rule requests_ok_heap [OF process_forD(9) [OF assms]])
      show "rq_nUuid (?h ! q) = rq_nUuid (heap s ! q) \<and> rq_hUuid (?h ! q) = rq_hUuid (heap s ! q)"
        if "q < length ?h" for q
        using that by (cases "q = r") (simp_all add: NotifyResult_ids)
    qed simp
    then show ?thesis using requests_ok_remove [of "s\<lparr>heap := ?h\<rparr>" t n u] by simp
  qed
  then show ?thesis
    using assms
    by (auto simp: RecvSrvResponse_def Let_def case_prod_unfold split: option.split intro!: process_ok_requests)
qed

lemma process_ok_reception_round:
  "process_ok_for C s \<Longrightarrow> reception_round fails result0 msg control req rep s = Inr (s', e) \<Longrightarrow> process_ok_for C s'"
  by (auto simp: reception_round_def rbind_eq_Inr_iff Let_def case_prod_unfold
      intro!: process_ok_RecvSrvResponse elim!: process_ok_RecvSrvRequest [rotated]
      process_ok_RecvControl [rotated])

subsection \<open>Operations of the nodes\<close>

lemma requests_ok_file:
  assumes "requests_ok s" and "rq_nUuid h = n"
  shows "requests_ok (s\<lparr>heap := heap s @ [h], requests :=
      AddHandler (\<lambda>r. rq_hUuid ((heap s @ [h]) ! r)) t n (length (heap s)) (requests s)\<rparr>)"
  using assms
  by (auto simp: requests_ok_def GetHandler_at hs.ok_add hs.at_add nth_append less_Suc_eq split: if_splits)

lemma process_ok_file_request:
  assumes "process_ok s" and "file_request fails t h nd s = Inr (s', e)" and "rq_nUuid h = nd_nUuid nd"
  shows "process_ok s'"
proof -
  let ?s = "s\<lparr>heap := heap s @ [h], requests :=
      AddHandler (\<lambda>r. rq_hUuid ((heap s @ [h]) ! r)) t (nd_nUuid nd) (length (heap s)) (requests s)\<rparr>"
  have "process_ok ?s"
    using assms by (intro process_ok_requests requests_ok_file process_okD)
  then show ?thesis
    using assms(2) process_ok_SendPending [where s = ?s] process_ok_Discover [where s = ?s]
    by (auto simp: file_request_def Let_def split: option.splits)
qed

lemma process_ok_nodes:
  assumes "process_ok s"
  shows "Node_Advertise fails topic sc nd s = Inr (nd', s', e, ok) \<Longrightarrow> process_ok s'"
    and "Node_Unadvertise fails topic nd s = Inr (nd', s', e, ok) \<Longrightarrow> process_ok s'"
    and "Node_Subscribe fails topic hUuid create cb nd s = Inr (nd', s', e, ok) \<Longrightarrow> process_ok s'"
    and "Node_Unsubscribe fails topic nd s = Inr (nd', s', e, ok) \<Longrightarrow> process_ok s'"
    and "Node_AdvertiseSrv fails topic hUuid create new serialize scb sc nd s = Inr (nd', s', e, ok) \<Longrightarrow> process_ok s'"
    and "Node_UnadvertiseSrv fails topic nd s = Inr (nd', s', e, ok) \<Longrightarrow> process_ok s'"
proof -
  note subs = process_ok_subscriptions [OF assms] and reps = process_ok_repliers [OF assms]
  note s_ok = process_okD(7,8) [OF assms]
  show "Node_Advertise fails topic sc nd s = Inr (nd', s', e, ok) \<Longrightarrow> process_ok s'"
    using assms by (auto simp: Node_Advertise_def Let_def rbind_eq_Inr_iff split: option.splits
        dest: process_ok_Advertise)
  show "Node_Unadvertise fails topic nd s = Inr (nd', s', e, ok) \<Longrightarrow> process_ok s'"
    using assms by (auto simp: Node_Unadvertise_def Let_def rbind_eq_Inr_iff split: option.splits
        dest: process_ok_Unadvertise)
  show "Node_Subscribe fails topic hUuid create cb nd s = Inr (nd', s', e, ok) \<Longrightarrow> process_ok s'"
    using assms s_ok by (auto simp: Node_Subscribe_def Let_def rbind_eq_Inr_iff sub_SetCallback_def
        SubscriptionHandler_ctor_def fqn_not_Nil split: option.splits
        elim!: process_ok_Discover intro!: subs subscriptions_ok_add)
  show "Node_Unsubscribe fails topic nd s = Inr (nd', s', e, ok) \<Longrightarrow> process_ok s'"
    using assms s_ok by (auto simp: Node_Unsubscribe_def Let_def split: option.splits if_splits
        intro!: subs subscriptions_ok_remove)
  show "Node_AdvertiseSrv fails topic hUuid create new serialize scb sc nd s = Inr (nd', s', e, ok) \<Longrightarrow> process_ok s'"
    using assms s_ok by (auto simp: Node_AdvertiseSrv_def Let_def rbind_eq_Inr_iff fqn_not_Nil
        split: option.splits elim!: process_ok_Advertise intro!: reps repliers_ok_add)
  show "Node_UnadvertiseSrv fails topic nd s = Inr (nd', s', e, ok) \<Longrightarrow> process_ok s'"
    using assms s_ok by (auto simp: Node_UnadvertiseSrv_def Let_def rbind_eq_Inr_iff
        split: option.splits elim!: process_ok_Unadvertise intro!: reps repliers_ok_remove)
qed

lemma process_ok_requesting:
  assumes "process_ok s"
  shows "Node_Request fails topic msg hUuid create serialize new cb rep0 result0 nd s = Inr (nd', s', e, ok) \<Longrightarrow>
      process_ok s'"
    and "Node_Request_start fails topic msg hUuid create serialize new rep0 result0 nd s = Inr (st, s', e) \<Longrightarrow>
      process_ok s'"
  using assms
  by (auto simp: Node_Request_def Node_Request_start_def Let_def rbind_eq_Inr_iff case_prod_unfold
      split: option.splits elim!: process_ok_file_request [rotated])
    (simp_all add: req_SetCallback_def req_SetMessage_def ReqHandler_ctor_def)

text \<open>The start, in whose course some callbacks are missing.\<close>

lemma process_ok_created:
  "process_ok_for {} (NodeShared_created u host a_pub a_ctrl a_req a_rep id_resp id_rep)"
  by (simp add: process_ok_for_def NodeShared_created_def discovery_ok_ctor connections_ok_def subscriptions_ok_def
      repliers_ok_def requests_ok_def GetHandler_def vec_def) (simp add: Discovery_ctor_def)

lemma process_ok_act:
  assumes "process_ok_for (registered (a # as)) s"
  shows "process_ok_for (registered as) (perform_act a s)"
proof (cases a)
  case StartReception
  then show ?thesis using assms by simp
next
  case (Register cb)
  have "discovery_ok (set_callback cb True (disc s))" "pUuid (set_callback cb True (disc s)) = pUuid (disc s)"
    using discovery_ok_settings(5) [OF process_forD(1) [OF assms]]
    by (simp, cases cb) (simp_all add: SetConnectionsCb_def SetDisconnectionsCb_def SetConnectionsSrvCb_def
        SetDisconnectionsSrvCb_def)
  moreover have "has_callback cb' (set_callback cb True (disc s))" if "cb' \<in> registered as" for cb'
    using that process_forD(3) [OF assms, of cb'] by (auto simp: has_callback_set registered_def Register)
  ultimately show ?thesis using assms by (simp add: process_ok_for_def Register requests_ok_def)
qed

lemma starting_ok: "starting s as \<Longrightarrow> process_ok_for (registered as) s"
proof (induction rule: starting.induct)
  case (created u host a_pub a_ctrl a_req a_rep id_resp id_rep)
  then show ?case by (simp add: process_ok_created)
next
  case (act s a as)
  then show ?case by (blast intro: process_ok_act)
next
  case (task s as op now stack r fails to_ms s' e)
  then show ?case
    by (blast intro: process_ok_with_discovery discovery_ok_step process_forD discovery_steps)
qed (blast intro: process_ok_reception_round)

lemma process_reachable_start:
  "process_reachable (NodeShared_ctor u host a_pub a_ctrl a_req a_rep id_resp id_rep)"
  by (rule process_reachable.started [OF starting_ctor])

lemma process_reachable_ok: "process_reachable s \<Longrightarrow> process_ok s"
proof (induction rule: process_reachable.induct)
  case (started s)
  then show ?case using starting_ok by fastforce
next
  case (discovery s op now stack r fails to_ms s' e)
  then show ?case
    by (blast intro: process_ok_with_discovery discovery_ok_step process_okD discovery_steps)
next
  case (reception s fails result0 msg control req rep s' e)
  then show ?case by (blast intro: process_ok_reception_round)
qed (blast intro: process_ok_nodes process_ok_requesting)+

subsection \<open>Sample states\<close>

definition node0 :: node where
  "node0 = Node_ctor None ''n''"

definition proc0 :: "string \<Rightarrow> string node_shared" where
  "proc0 u = NodeShared_ctor u ''10.0.0.1'' ''pub'' ''ctl'' ''req'' ''rep'' ''idq'' ''idp''"

definition sub_h :: "string sub_handler" where
  "sub_h = \<lparr>sh_hUuid = ''h'', sh_nUuid = ''n'', sh_CreateMsg = id, sh_cb = True\<rparr>"

text \<open>A process with one subscription, to \<^verbatim>\<open>/t\<close>.\<close>

definition proc_sub :: "string node_shared" where
  "proc_sub = (proc0 ''A'')\<lparr>localSubscriptions := [(''@@/t'', [(''n'', [(''h'', sub_h)])])]\<rparr>"

definition req_h :: "string req_handler" where
  "req_h = req_SetCallback True (req_SetMessage ''q'' (ReqHandler_ctor ''h'' ''n'' id id ''''))"

text \<open>A process with one pending request, for \<^verbatim>\<open>/t\<close>.\<close>

definition proc_req :: "string node_shared" where
  "proc_req = (proc0 ''A'')\<lparr>heap := [req_h], requests := [(''@@/t'', [(''n'', [(''h'', 0)])])]\<rparr>"

lemma proc0_reachable: "process_reachable (proc0 u)"
  unfolding proc0_def by (rule process_reachable_start)

lemma node0_fields: "topicsSubscribed node0 = []" "topicsAdvertised node0 = []" "srvsAdvertised node0 = []"
  by (simp_all add: node0_def Node_ctor_def)

lemma fqn_node0: "fqn node0 ''/t'' = Some ''@@/t''"
  by code_simp

lemma Discover_proc0:
  "\<exists>b. with_discovery fails (\<lambda>d. rbind (Discover ''@@/t'' srv d) (\<lambda>e. Inr (d, e)))
     ((proc0 ''A'')\<lparr>localSubscriptions := x, heap := z, requests := y\<rparr>) =
   Inr ((proc0 ''A'')\<lparr>localSubscriptions := x, heap := z, requests := y\<rparr>, [Datagram b])"
proof -
  let ?d = "disc (proc0 ''A'')" and ?k = "if srv then Srv else Msg"
  have d: "pUuid ?d = ''A''" "infoMsg ?d = []" "infoSrv ?d = []"
    by (simp_all add: proc0_def NodeShared_ctor_def SetConnectionsCb_def SetDisconnectionsCb_def
        SetConnectionsSrvCb_def SetDisconnectionsSrvCb_def Discovery_ctor_def)
  have "sendable (pUuid ?d) (Requested ?k ''@@/t'')" by (simp add: size_simps d)
  from say_wire [OF this] have "\<exists>b. Discover ''@@/t'' srv ?d = Inr [Send b]"
    by (simp add: Discover_def Let_def d HasTopic_def)
  then show ?thesis by (auto simp: with_discovery_def)
qed

lemma Subscribe_proc0:
  "\<exists>e. Node_Subscribe (\<lambda>_. False) ''/t'' ''h'' id True node0 (proc0 ''A'') =
     Inr (node0\<lparr>topicsSubscribed := [''@@/t'']\<rparr>, proc_sub, e, True)"
proof -
  have "AddHandler sh_hUuid ''@@/t'' (nd_nUuid node0)
      (sub_SetCallback True (SubscriptionHandler_ctor ''h'' (nd_nUuid node0) id)) (localSubscriptions (proc0 ''A'')) =
      [(''@@/t'', [(''n'', [(''h'', sub_h)])])]"
    by (simp add: AddHandler_def Let_def proc0_def NodeShared_ctor_def map_insert_def
        sub_SetCallback_def SubscriptionHandler_ctor_def node0_def Node_ctor_def sub_h_def)
  then show ?thesis
    using Discover_proc0 [where fails = "\<lambda>_. False" and srv = False and
        x = "[(''@@/t'', [(''n'', [(''h'', sub_h)])])]" and
        y = "requests (proc0 ''A'')" and z = "heap (proc0 ''A'')"]
    by (auto simp: Node_Subscribe_def Let_def fqn_node0 proc_sub_def set_insert_def node0_fields)
qed

lemma proc_sub_reachable: "process_reachable proc_sub"
  using Subscribe_proc0 process_reachable.subscribe [OF proc0_reachable] by blast

lemma proc_req_reachable: "process_reachable proc_req"
proof -
  have h: "req_SetCallback True (req_SetMessage ''q'' (ReqHandler_ctor ''h'' (nd_nUuid node0) id id '''')) = req_h"
    by (simp add: req_h_def node0_def Node_ctor_def)
  have init: "requests (proc0 ''A'') = []" "heap (proc0 ''A'') = []" "repliers (proc0 ''A'') = []"
    "GetSrvAddresses t (disc (proc0 ''A'')) = None" for t
    by (simp_all add: proc0_def NodeShared_ctor_def GetSrvAddresses_def GetAddresses_eq
        SetConnectionsCb_def SetDisconnectionsCb_def SetConnectionsSrvCb_def
        SetDisconnectionsSrvCb_def Discovery_ctor_def)
  have "AddHandler (\<lambda>r. rq_hUuid ([req_h] ! r)) ''@@/t'' (nd_nUuid node0) 0 [] =
      [(''@@/t'', [(''n'', [(''h'', 0)])])]"
    by (simp add: AddHandler_def Let_def map_insert_def node0_def Node_ctor_def req_h_def
        req_SetCallback_def req_SetMessage_def ReqHandler_ctor_def)
  then have "\<exists>e. file_request (\<lambda>_. False) ''@@/t'' req_h node0 (proc0 ''A'') = Inr (proc_req, e)"
    using Discover_proc0 [where fails = "\<lambda>_. False" and srv = True and
        x = "localSubscriptions (proc0 ''A'')" and
        y = "[(''@@/t'', [(''n'', [(''h'', 0)])])]" and z = "[req_h]"]
    by (auto simp: file_request_def Let_def init proc_req_def)
  then have "\<exists>nd' e. Node_Request (\<lambda>_. False) ''/t'' ''q'' ''h'' id id '''' True '''' False node0 (proc0 ''A'') =
      Inr (nd', proc_req, e, True)"
    by (auto simp: Node_Request_def fqn_node0 GetHandler_first_def init Let_def h)
  then show ?thesis using process_reachable.request [OF proc0_reachable] by blast
qed

subsection \<open>Properties\<close>

text \<open>C13 In every state that a process reaches: its discovery keeps its invariant, has the
  process UUID and all four callbacks; there is no connection for the empty topic or to the process
  itself; the connected service end points have no repetitions; all storages are well formed; and
  every handler is filed under its own identifiers, every pending request denoting an object that is
  there.\<close>
theorem process_invariant:
  assumes "process_reachable s"
  shows "discovery_ok (disc s) \<and> pUuid (disc s) = ns_pUuid s \<and> (\<forall>cb. has_callback cb (disc s)) \<and>
    storage_ok (connections s) \<and> storage_ok (remoteSubscribers s) \<and> distinct (srvConnections s) \<and>
    (\<forall>t p. vec (connections s) t p \<noteq> [] \<longrightarrow> t \<noteq> '''' \<and> p \<noteq> ns_pUuid s) \<and>
    handlers_ok (localSubscriptions s) \<and> handlers_ok (repliers s) \<and> handlers_ok (requests s) \<and>
    (\<forall>t n u h. GetHandler t n u (localSubscriptions s) = Some h \<longrightarrow>
      t \<noteq> '''' \<and> sh_nUuid h = n \<and> sh_hUuid h = u) \<and>
    (\<forall>t n u h. GetHandler t n u (repliers s) = Some h \<longrightarrow> t \<noteq> '''' \<and> rh_hUuid h = u) \<and>
    (\<forall>t n u r. GetHandler t n u (requests s) = Some r \<longrightarrow>
      r < length (heap s) \<and> rq_nUuid (heap s ! r) = n \<and> rq_hUuid (heap s ! r) = u)"
  using process_reachable_ok [OF assms]
  by (simp add: process_ok_for_def connections_ok_def subscriptions_ok_def repliers_ok_def requests_ok_def)

lemma process_invariant_witness:
  "distinct (srvConnections proc_sub) \<and> handlers_ok (localSubscriptions proc_sub) \<and>
     GetHandler ''@@/t'' ''n'' ''h'' (localSubscriptions proc_sub) = Some sub_h"
  using process_invariant [OF proc_sub_reachable]
  by (simp add: GetHandler_def proc_sub_def)

lemma handle_gone:
  assumes "process_ok s"
  shows "handle_event fails (gone p) s =
    Inr (s\<lparr>remoteSubscribers := snd (DelAddressesByProc p (remoteSubscribers s))\<rparr>, [])"
proof -
  have "\<not> HasTopic '''' (connections s)"
    using process_okD(4) [OF assms] by (auto simp: connections_ok_def HasTopic_iff)
  then show ?thesis
    by (simp add: gone_def OnNewDisconnection_def Let_def GetAddresses_def)
qed

lemma handle_all_gone:
  "process_ok s \<Longrightarrow> handle_events fails (map gone ps) s =
     Inr (s\<lparr>remoteSubscribers := fold (\<lambda>p x. snd (DelAddressesByProc p x)) ps (remoteSubscribers s)\<rparr>, [])"
  by (induction ps arbitrary: s)
    (simp_all add: handle_gone process_ok_subscribers ts.ok_del_proc process_okD(6))

lemma vec_fold_del_proc:
  "storage_ok x \<Longrightarrow> vec (fold (\<lambda>p x. snd (DelAddressesByProc p x)) ps x) t q =
     (if q \<in> set ps then [] else vec x t q)"
  by (induction ps arbitrary: x) (simp_all add: ts.ok_del_proc ts.recs_del_proc)

text \<open>The activity task of a process never throws: the callback it calls is always set, and
  for a process that has fallen silent it finds no connection to take down.  So a round only
  removes the silent processes from the discovery and from the remote subscribers; it sends
  nothing, and every connection to a silent publisher is kept.\<close>
theorem process_sweep:
  assumes "process_reachable s"
  shows "\<exists>s'. with_discovery fails (activity_sweep to_ms now) s = Inr (s', []) \<and>
    connections s' = connections s \<and>
    (\<forall>t p. vec (remoteSubscribers s') t p =
      (if \<exists>e \<in> set (activity (disc s)). fst e = p \<and> expired to_ms now (disc s) e
       then [] else vec (remoteSubscribers s) t p))"
proof -
  note ok = process_reachable_ok [OF assms]
  let ?d = "disc s"
  let ?ps = "map fst (filter (expired to_ms now ?d) (activity ?d))"
  let ?d' = "fold forget ?ps ?d"
  have cb: "disconnectionCb ?d" using process_okD(3) [OF ok, of DisconnectionCb] by simp
  have "process_ok (s\<lparr>disc := ?d'\<rparr>)"
    using process_okD(1) [OF ok]
    by (intro process_ok_discovery ok discovery_ok_fold_forget) (simp_all add: same_client_def)
  from handle_all_gone [OF this, of fails ?ps]
  have "with_discovery fails (activity_sweep to_ms now) s =
      Inr (s\<lparr>disc := ?d', remoteSubscribers :=
        fold (\<lambda>p x. snd (DelAddressesByProc p x)) ?ps (remoteSubscribers s)\<rparr>, [])"
    by (simp add: with_discovery_def activity_sweep_def sweep_loop_eq [OF cb])
  then show ?thesis
    using process_okD(6) [OF ok] by (auto simp: vec_fold_del_proc)
qed

lemma process_sweep_witness:
  "\<exists>s'. with_discovery (\<lambda>_. False) (activity_sweep (\<lambda>x. x div 1000000) 5000000000) proc_sub = Inr (s', []) \<and>
     connections s' = []"
  using process_sweep [OF proc_sub_reachable, of "\<lambda>_. False" "\<lambda>x. x div 1000000" 5000000000]
  by (auto simp: proc_sub_def proc0_def NodeShared_ctor_def)

end
