(* ===== verification/NodeCorrect.thy ===== *)
theory NodeCorrect
  imports ProcessInvariant
begin

text \<open>
  The properties of the nodes of a process and of what they share: delivery of publications, the
  life of a service request, the control messages between subscribers and publishers, and the
  destruction of a node.
\<close>

lemma sample_names: "strip_partition ''@@/t'' = ''/t''"
  by code_simp

subsection \<open>Publishing\<close>

text \<open>All entries of a topic, one for each key, in the order in which the loops meet them.\<close>

lemma handlers_enumerated:
  assumes "handlers_ok data"
  obtains ks where "distinct (map (\<lambda>(n, u, h). (n, u)) ks)" and "handlers_of t data = map (\<lambda>(n, u, h). h) ks"
    and "set ks = {(n, u, h). GetHandler t n u data = Some h}"
proof
  let ?ks = "concat (map (\<lambda>e. map (\<lambda>x. (fst e, fst x, snd x)) (snd e)) (inner data t))"
  have "map (\<lambda>(n, u, h). (n, u)) ?ks = key_pairs (inner data t)"
    by (simp add: key_pairs_def map_concat comp_def case_prod_unfold)
  then show "distinct (map (\<lambda>(n, u, h). (n, u)) ?ks)"
    using distinct_key_pairs [OF collection_ok [OF assms]] by simp
  show "handlers_of t data = map (\<lambda>(n, u, h). h) ?ks"
    by (simp add: handlers_of_inner map_concat comp_def case_prod_unfold)
  have "(n, u, h) \<in> set ?ks \<longleftrightarrow> GetHandler t n u data = Some h" for n u h
  proof -
    have "(n, u, h) \<in> set ?ks \<longleftrightarrow> (\<exists>m. (n, m) \<in> set (inner data t) \<and> (u, h) \<in> set m)" by force
    also have "\<dots> \<longleftrightarrow> (u, h) \<in> set (node_handlers data t n)"
      unfolding collection_in_set [OF assms] by force
    finally show ?thesis unfolding handler_entry [OF assms] GetHandler_at .
  qed
  then show "set ?ks = {(n, u, h). GetHandler t n u data = Some h}" by (intro set_eqI) (simp split: prod.split)
qed

text \<open>C26 Publishing on a topic that the node has advertised, with working sockets, runs the
  callback of every subscription of the process to that topic exactly once, with the topic without its
  partition and the message itself: the calls come from a list without repetitions of all the keys, node and
  handler UUID, under which there is a subscription.  Then it sends one message with the serialised data
  exactly when some process is on file as a remote subscriber of the topic.\<close>
theorem Node_Publish_delivers:
  assumes "fqn nd topic = Some t" and "t \<in> set (topicsAdvertised nd)"
    and "process_reachable s" and "\<And>x. \<not> fails x"
  shows "\<exists>ks. distinct ks \<and> set ks = {(n, u). \<exists>h. GetHandler t n u (localSubscriptions s) = Some h \<and> sh_cb h} \<and>
    Node_Publish fails serialize topic msg nd s =
      (map (\<lambda>(n, u). UserCall (SubCall u (strip_partition t) msg)) ks @
       (if \<exists>q. vec (remoteSubscribers s) t q \<noteq> [] then [PublishFrames [t, myAddress s, serialize msg]] else []),
       True)"
proof -
  note ok = process_reachable_ok [OF assms(3)]
  have subs: "handlers_ok (localSubscriptions s)"
    and ids: "\<And>n u h. GetHandler t n u (localSubscriptions s) = Some h \<Longrightarrow> sh_hUuid h = u"
    using process_okD(7) [OF ok] by (auto simp: subscriptions_ok_def)
  obtain ks where ks: "distinct (map (\<lambda>(n, u, h). (n, u)) ks)"
    "handlers_of t (localSubscriptions s) = map (\<lambda>(n, u, h). h) ks"
    "set ks = {(n, u, h). GetHandler t n u (localSubscriptions s) = Some h}"
    using handlers_enumerated [OF subs] .
  let ?ks = "map (\<lambda>(n, u, h). (n, u)) (filter (\<lambda>(n, u, h). sh_cb h) ks)"
  have calls: "concat (map (\<lambda>h. map UserCall (fst (sub_RunLocalCallback t msg h))) (map (\<lambda>(n, u, h). h) xs)) =
      map (\<lambda>(n, u). UserCall (SubCall u (strip_partition t) msg)) (map (\<lambda>(n, u, h). (n, u)) (filter (\<lambda>(n, u, h). sh_cb h) xs))"
    if "\<forall>(n, u, h) \<in> set xs. sh_hUuid h = u" for xs
    using that by (induction xs) (auto simp: sub_RunLocalCallback_def)
  have "distinct ?ks" using ks(1) by (rule distinct_map_filter)
  moreover have "set ?ks = {(n, u). \<exists>h. GetHandler t n u (localSubscriptions s) = Some h \<and> sh_cb h}"
    using ks(3) by force
  moreover have "storage_ok (remoteSubscribers s)" using process_okD(6) [OF ok] by simp
  then have "HasTopic t (remoteSubscribers s) \<longleftrightarrow> (\<exists>q. vec (remoteSubscribers s) t q \<noteq> [])" by (rule HasTopic_iff)
  then have "Node_Publish fails serialize topic msg nd s = (map (\<lambda>(n, u). UserCall (SubCall u (strip_partition t) msg)) ?ks @
       (if \<exists>q. vec (remoteSubscribers s) t q \<noteq> [] then [PublishFrames [t, myAddress s, serialize msg]] else []), True)"
    using assms calls [of ks] ids ks(2,3) by (auto simp: Node_Publish_def Publish_def)
  ultimately show ?thesis by blast
qed

lemma singleton_enum:
  assumes "distinct ks" and "set ks = {x}"
  shows "ks = [x]"
proof (cases ks)
  case Nil
  then show ?thesis using assms by simp
next
  case (Cons k rest)
  then have "k = x" using assms(2) by (metis insertI1 list.simps(15) singletonD)
  moreover have "rest = []" using assms Cons calculation by (cases rest) auto
  ultimately show ?thesis by (simp add: Cons)
qed

lemma Node_Publish_delivers_witness:
  "Node_Publish (\<lambda>_. False) id ''/t'' ''hi'' (node0\<lparr>topicsAdvertised := [''@@/t'']\<rparr>) proc_sub =
     ([UserCall (SubCall ''h'' ''/t'' ''hi'')], True)"
proof -
  have "fqn (node0\<lparr>topicsAdvertised := [''@@/t'']\<rparr>) ''/t'' = Some ''@@/t''" by code_simp
  from Node_Publish_delivers [where fails = "\<lambda>_. False" and serialize = id and msg = "''hi''",
      OF this _ proc_sub_reachable]
  obtain ks where ks: "distinct ks"
    "set ks = {(n, u). \<exists>h. GetHandler ''@@/t'' n u (localSubscriptions proc_sub) = Some h \<and> sh_cb h}"
    and run: "Node_Publish (\<lambda>_. False) id ''/t'' ''hi'' (node0\<lparr>topicsAdvertised := [''@@/t'']\<rparr>) proc_sub =
      (map (\<lambda>(n, u). UserCall (SubCall u ''/t'' ''hi'')) ks @
       (if \<exists>q. vec (remoteSubscribers proc_sub) ''@@/t'' q \<noteq> []
        then [PublishFrames [''@@/t'', myAddress proc_sub, id ''hi'']] else []), True)"
    by (auto simp: sample_names)
  have "set ks = {(''n'', ''h'')}"
    unfolding ks(2) by (auto simp: proc_sub_def sub_h_def GetHandler_def split: if_splits)
  then have "ks = [(''n'', ''h'')]"
    by (rule singleton_enum [OF ks(1)])
  moreover have "vec (remoteSubscribers proc_sub) ''@@/t'' q = []" for q
    by (simp add: proc_sub_def proc0_def NodeShared_ctor_def vec_def)
  ultimately show ?thesis using run by simp
qed

subsection \<open>Pending requests\<close>

lemma requests_okD:
  "requests_ok s \<Longrightarrow> r \<in> set (handlers_of t (requests s)) \<Longrightarrow> r < length (heap s)"
  by (auto simp: requests_ok_def set_handlers_of)

lemma request_keys:
  assumes "requests_ok s"
  shows "map (\<lambda>r. (rq_nUuid (heap s ! r), rq_hUuid (heap s ! r))) (handlers_of t (requests s)) =
    key_pairs (inner (requests s) t)"
proof -
  have ok: "handlers_ok (requests s)" using assms by (simp add: requests_ok_def)
  have entry: "(rq_nUuid (heap s ! snd x), rq_hUuid (heap s ! snd x)) = (fst e, fst x)"
    if "e \<in> set (inner (requests s) t)" "x \<in> set (snd e)" for e x
  proof -
    have "(fst e, snd e) \<in> set (inner (requests s) t)" using that(1) by simp
    then have "snd e = node_handlers (requests s) t (fst e)"
      unfolding collection_in_set [OF ok] by blast
    then have "(fst x, snd x) \<in> set (node_handlers (requests s) t (fst e))" using that(2) by simp
    then have "GetHandler t (fst e) (fst x) (requests s) = Some (snd x)"
      unfolding handler_entry [OF ok] GetHandler_at .
    then show ?thesis using assms by (simp add: requests_ok_def)
  qed
  show ?thesis
    unfolding handlers_of_inner key_pairs_def map_concat map_map comp_def
    using entry by (intro arg_cong [of _ _ concat] map_cong [OF refl]) simp
qed

lemma distinct_requests: "requests_ok s \<Longrightarrow> distinct (handlers_of t (requests s))"
proof -
  assume ok: "requests_ok s"
  then have "nested_ok map_ok (inner (requests s) t)"
    by (simp add: requests_ok_def collection_ok)
  then have "distinct (key_pairs (inner (requests s) t))" by (rule distinct_key_pairs)
  then show ?thesis unfolding request_keys [OF ok, symmetric] by (simp add: distinct_map)
qed

definition mark :: "nat list \<Rightarrow> 'm req_handler list \<Rightarrow> 'm req_handler list" where
  "mark rs hp = fold (\<lambda>r hp. hp[r := SetRequested True (hp ! r)]) rs hp"

lemma mark_Nil [simp]: "mark [] hp = hp"
  and mark_Cons [simp]: "mark (r # rs) hp = mark rs (hp[r := SetRequested True (hp ! r)])"
  by (simp_all add: mark_def)

lemma SetRequested_twice [simp]: "SetRequested True (SetRequested True h) = SetRequested True h"
  by (simp add: SetRequested_def)

lemma SetRequested_same: "rq_requested h \<Longrightarrow> SetRequested True h = h"
  by (simp add: SetRequested_def)

lemma rq_requested_SetRequested [simp]: "rq_requested (SetRequested True h)"
  by (simp add: SetRequested_def)

lemma length_mark [simp]: "length (mark rs hp) = length hp"
  by (induction rs arbitrary: hp) simp_all

lemma mark_nth:
  "r < length hp \<Longrightarrow> mark rs hp ! r = (if r \<in> set rs then SetRequested True (hp ! r) else hp ! r)"
proof (induction rs arbitrary: hp)
  case Nil
  then show ?case by simp
next
  case (Cons q rs)
  then show ?case by (cases "q = r") simp_all
qed

lemma mark_mark: "mark rs (mark rs hp) = mark rs hp"
  by (rule nth_equalityI) (simp_all add: mark_nth)

lemma request_frames_heap [simp]:
  "request_frames t i (s\<lparr>heap := hp\<rparr>) h = request_frames t i s h"
  by (simp add: request_frames_def)

lemma request_frames_mark: "request_frames t i s (SetRequested True h) = request_frames t i s h"
  by (simp add: request_frames_def SetRequested_def req_Serialize_def)

lemma send_pending_eq:
  "distinct rs \<Longrightarrow> \<forall>r \<in> set rs. r < length (heap s) \<Longrightarrow>
     send_pending fails t i rs s =
       (s\<lparr>heap := mark rs (heap s)\<rparr>,
        filter (\<lambda>x. \<not> fails x) (map (\<lambda>r. request_frames t i s (heap s ! r))
          (filter (\<lambda>r. \<not> rq_requested (heap s ! r)) rs)))"
proof (induction rs arbitrary: s)
  case Nil
  then show ?case by simp
next
  case (Cons r rs)
  have others: "(heap s)[r := x] ! q = heap s ! q" if "q \<in> set rs" for q x
    using Cons.prems(1) that by (intro nth_list_update_neq) auto
  show ?case
  proof (cases "rq_requested (heap s ! r)")
    case True
    then have "(heap s)[r := SetRequested True (heap s ! r)] = heap s"
      by (simp add: SetRequested_same)
    then show ?thesis using True Cons.IH [of s] Cons.prems by simp
  next
    case False
    let ?s = "s\<lparr>heap := (heap s)[r := SetRequested True (heap s ! r)]\<rparr>"
    have "filter (\<lambda>q. \<not> rq_requested (heap ?s ! q)) rs = filter (\<lambda>q. \<not> rq_requested (heap s ! q)) rs"
      using others by (intro filter_cong) simp_all
    moreover have "map (\<lambda>q. request_frames t i s (heap ?s ! q)) qs = map (\<lambda>q. request_frames t i s (heap s ! q)) qs"
      if "set qs \<subseteq> set rs" for qs using others that by auto
    ultimately have tail: "filter (\<lambda>x. \<not> fails x) (map (\<lambda>q. request_frames t i s (heap ?s ! q))
          (filter (\<lambda>q. \<not> rq_requested (heap ?s ! q)) rs)) =
        filter (\<lambda>x. \<not> fails x) (map (\<lambda>q. request_frames t i s (heap s ! q))
          (filter (\<lambda>q. \<not> rq_requested (heap s ! q)) rs))"
      by (metis filter_is_subset)
    show ?thesis
      using False Cons.IH [of ?s] Cons.prems tail
      by (simp add: Let_def case_prod_unfold request_frames_mark)
  qed
qed

lemma SendPending_eq:
  assumes "requests_ok s" and "GetSrvAddresses t (disc s) = Some ((p, first # v) # m)"
  shows "SendPendingRemoteReqs fails t s =
    Inr (s\<lparr>heap := mark (handlers_of t (requests s)) (heap s)\<rparr>,
      filter (\<lambda>x. \<not> fails x) (map (\<lambda>r. request_frames t (ctrl first) s (heap s ! r))
        (filter (\<lambda>r. \<not> rq_requested (heap s ! r)) (handlers_of t (requests s)))))"
proof (cases "GetHandlers t (requests s)")
  case None
  then show ?thesis using assms(2) by (simp add: SendPendingRemoteReqs_def handlers_of_def)
next
  case (Some reqs)
  then show ?thesis
    using assms(2) send_pending_eq [OF distinct_requests [OF assms(1), of t], of s fails t "ctrl first"]
      requests_okD [OF assms(1)]
    by (simp add: SendPendingRemoteReqs_def)
qed

text \<open>A service request is sent once.  When a responder is known, sending the pending
  requests of a service sends, to the first responder, the frames of exactly those requests of it
  that have not been requested yet, each once and in order; and doing it again sends nothing and
  changes nothing.\<close>
theorem requests_sent_once:
  assumes ok0: "requests_ok s" and "GetSrvAddresses t (disc s) = Some ((p, first # v) # m)"
  shows "\<exists>s'. SendPendingRemoteReqs fails t s =
      Inr (s', filter (\<lambda>x. \<not> fails x) (map (\<lambda>r. request_frames t (ctrl first) s (heap s ! r))
        (filter (\<lambda>r. \<not> rq_requested (heap s ! r)) (handlers_of t (requests s))))) \<and>
    SendPendingRemoteReqs fails t s' = Inr (s', [])"
proof -
  let ?rs = "handlers_of t (requests s)"
  let ?s = "s\<lparr>heap := mark ?rs (heap s)\<rparr>"
  have nth: "r \<in> set ?rs \<Longrightarrow> mark ?rs (heap s) ! r = SetRequested True (heap s ! r)" for r
    using requests_okD [OF ok0] by (simp add: mark_nth)
  have ok: "requests_ok ?s"
    unfolding requests_ok_def
  proof (intro conjI allI impI)
    show "handlers_ok (requests ?s)" using ok0 by (simp add: requests_ok_def)
    fix t' n u r assume "GetHandler t' n u (requests ?s) = Some r"
    then have r: "r < length (heap s)" "rq_nUuid (heap s ! r) = n" "rq_hUuid (heap s ! r) = u"
      using ok0 by (auto simp: requests_ok_def)
    then show "r < length (heap ?s)" "rq_nUuid (heap ?s ! r) = n" "rq_hUuid (heap ?s ! r) = u"
      by (simp_all add: mark_nth SetRequested_def)
  qed
  have "filter (\<lambda>r. \<not> rq_requested (heap ?s ! r)) ?rs = []"
    by (simp add: filter_empty_conv nth)
  then have "SendPendingRemoteReqs fails t ?s = Inr (?s, [])"
    using SendPending_eq [OF ok, of t p first v m fails] assms(2) by (simp add: mark_mark)
  then show ?thesis using SendPending_eq [OF ok0 assms(2), of fails] by blast
qed

text \<open>The process with a pending request, when it knows of a responder.\<close>

definition proc_ready :: "string node_shared" where
  "proc_ready = proc_req\<lparr>disc := (disc proc_req)\<lparr>infoSrv :=
     [(''@@/t'', [(''B'', [\<lparr>addr = ''tcp:9'', ctrl = ''idB'', nUuid = ''nb'', scope = All\<rparr>])])]\<rparr>\<rparr>"

lemma requests_sent_once_witness:
  "\<exists>s'. SendPendingRemoteReqs (\<lambda>_. False) ''@@/t'' proc_ready =
     Inr (s', [RequestFrames [''idB'', ''@@/t'', ''req'', ''idq'', ''n'', ''h'', ''q'']]) \<and>
     SendPendingRemoteReqs (\<lambda>_. False) ''@@/t'' s' = Inr (s', [])"
proof -
  have "requests_ok proc_ready"
    using process_okD(9) [OF process_reachable_ok [OF proc_req_reachable]]
    by (simp add: requests_ok_def proc_ready_def)
  from requests_sent_once [OF this, where t = "''@@/t''" and fails = "\<lambda>_. False"]
  show ?thesis
    by (simp add: proc_ready_def proc_req_def GetSrvAddresses_def GetAddresses_eq handlers_of_def
        GetHandlers_def request_frames_def req_h_def req_SetCallback_def req_SetMessage_def
        ReqHandler_ctor_def req_Serialize_def proc0_def NodeShared_ctor_def)
qed

subsection \<open>Responses\<close>

lemma RecvSrvResponse_eq:
  assumes "GetHandler t n u (requests s) = Some r"
  shows "RecvSrvResponse (Some (t, n, u, rep, flag)) s =
    (s\<lparr>heap := (heap s)[r := fst (NotifyResult t rep (flag = ''1'') (heap s ! r))],
       requests := snd (RemoveHandler t n u (requests s))\<rparr>,
     map UserCall (snd (NotifyResult t rep (flag = ''1'') (heap s ! r))))"
  using assms by (simp add: RecvSrvResponse_def Let_def case_prod_unfold)

lemma GetHandler_RemoveHandler:
  "handlers_ok data \<Longrightarrow> GetHandler t' n' u' (snd (RemoveHandler t n u data)) =
     (if t' = t \<and> n' = n \<and> u' = u then None else GetHandler t' n' u' data)"
  by (simp add: GetHandler_at hs.at_remove)

text \<open>The response to a pending request with a callback runs that callback exactly once,
  with the topic without its partition, the parsed response and the result flag, and the request is
  forgotten: a second response to it is ignored, and every other pending request stays.\<close>
theorem response_served_once:
  assumes "process_reachable s" and "GetHandler t n u (requests s) = Some r" and "rq_cb (heap s ! r)"
  shows "\<exists>s'. RecvSrvResponse (Some (t, n, u, rep, flag)) s =
      (s', [UserCall (ReqCall u (strip_partition t) (rq_CreateMsg (heap s ! r) rep) (flag = ''1''))]) \<and>
    RecvSrvResponse (Some (t, n, u, rep', flag')) s' = (s', []) \<and>
    (\<forall>t' n' u'. GetHandler t' n' u' (requests s') =
      (if t' = t \<and> n' = n \<and> u' = u then None else GetHandler t' n' u' (requests s)))"
proof -
  have "rq_hUuid (heap s ! r) = u" and ok: "handlers_ok (requests s)"
    using assms(2) process_okD(9) [OF process_reachable_ok [OF assms(1)]] by (auto simp: requests_ok_def)
  then show ?thesis
    using assms(3) GetHandler_RemoveHandler [OF ok, of _ _ _ t n u]
    unfolding RecvSrvResponse_eq [OF assms(2)]
    by (simp add: NotifyResult_def RecvSrvResponse_def)
qed

lemma proc_req_handler:
  "GetHandler ''@@/t'' ''n'' ''h'' (requests proc_req) = Some 0" "heap proc_req ! 0 = req_h"
  by (simp_all add: GetHandler_def proc_req_def)

lemmas req_h_simps = req_h_def req_SetCallback_def req_SetMessage_def ReqHandler_ctor_def

lemma response_served_once_witness:
  "\<exists>s'. RecvSrvResponse (Some (''@@/t'', ''n'', ''h'', ''r'', ''1'')) proc_req =
      (s', [UserCall (ReqCall ''h'' ''/t'' ''r'' True)]) \<and>
     RecvSrvResponse (Some (''@@/t'', ''n'', ''h'', ''late'', ''0'')) s' = (s', [])"
  using response_served_once [OF proc_req_reachable proc_req_handler(1), of "''r''" "''1''" "''late''" "''0''"]
  by (auto simp: proc_req_handler req_h_simps sample_names)

text \<open>A service call works end to end.  The frames that a process sends for a pending
  request, received by a process with a handler for the service, make it run the handler's callback
  and send a reply whose frames, received by the first process, run the requester's callback with
  exactly the response and the result that the service computed for the original request, and
  end the request.  That parsing inverts serialisation is what protobuf documents.\<close>
theorem service_call_end_to_end:
  assumes a: "process_reachable a" "GetHandler t n u (requests a) = Some r" "rq_cb (heap a ! r)"
    and b: "GetHandler_first t (repliers b) = Inr (Some h)" "rh_cb h = Some cb"
    and sockets: "\<And>x. \<not> fails x"
    and protobuf_req: "\<And>m. rh_CreateMsg h (rq_SerializeReq (heap a ! r) m) = m"
    and protobuf_rep: "\<And>m. rq_CreateMsg (heap a ! r) (rh_SerializeRep h m) = m"
  shows "\<exists>sender dst req b' e rep flag a'.
    request_frames t i a (heap a ! r) = RequestFrames [i, t, sender, dst, n, u, req] \<and>
    RecvSrvRequest fails result0 (Some (t, sender, dst, n, u, req)) b = Inr (b', e) \<and>
    ReplyFrames [dst, t, n, u, rep, flag] \<in> set e \<and>
    RecvSrvResponse (Some (t, n, u, rep, flag)) a =
      (a', let (response, result) = cb (strip_partition t) (rq_reqMsg (heap a ! r)) (rh_NewRep h) result0
           in [UserCall (ReqCall u (strip_partition t) response result)]) \<and>
    GetHandler t n u (requests a') = None"
proof -
  let ?q = "heap a ! r"
  obtain response result where out:
    "cb (strip_partition t) (rq_reqMsg ?q) (rh_NewRep h) result0 = (response, result)"
    by (cases "cb (strip_partition t) (rq_reqMsg ?q) (rh_NewRep h) result0")
  have ids: "rq_nUuid ?q = n" "rq_hUuid ?q = u" and ok: "handlers_ok (requests a)"
    using a(2) process_okD(9) [OF process_reachable_ok [OF a(1)]] by (auto simp: requests_ok_def)
  let ?flag = "if result then ''1'' else ''0''" and ?rep = "rh_SerializeRep h response"
  have "request_frames t i a ?q =
      RequestFrames [i, t, myRequesterAddress a, responseReceiverId a, n, u, req_Serialize ?q]"
    by (simp add: request_frames_def ids)
  moreover have "\<exists>b' e. RecvSrvRequest fails result0
        (Some (t, myRequesterAddress a, responseReceiverId a, n, u, req_Serialize ?q)) b = Inr (b', e) \<and>
      ReplyFrames [responseReceiverId a, t, n, u, ?rep, ?flag] \<in> set e"
    using b sockets out by (simp add: RecvSrvRequest_def rep_RunCallback_def req_Serialize_def protobuf_req Let_def)
  moreover have "\<exists>a'. RecvSrvResponse (Some (t, n, u, ?rep, ?flag)) a =
      (a', [UserCall (ReqCall u (strip_partition t) response result)]) \<and> GetHandler t n u (requests a') = None"
    using a(3) GetHandler_RemoveHandler [OF ok, of t n u t n u]
    unfolding RecvSrvResponse_eq [OF a(2)] by (simp add: NotifyResult_def ids protobuf_rep)
  ultimately show ?thesis unfolding out by simp blast
qed

definition rep_h :: "string rep_handler" where
  "rep_h = \<lparr>rh_hUuid = ''hb'', rh_CreateMsg = id, rh_NewRep = '''', rh_SerializeRep = id,
     rh_cb = Some (\<lambda>topic req rep ok. (req @ ''!'', True))\<rparr>"

definition proc_rep :: "string node_shared" where
  "proc_rep = (proc0 ''B'')\<lparr>repliers := [(''@@/t'', [(''nb'', [(''hb'', rep_h)])])]\<rparr>"

lemma service_call_end_to_end_witness:
  "\<exists>sender dst req b' e rep flag a'.
     request_frames ''@@/t'' ''idp'' proc_req req_h =
       RequestFrames [''idp'', ''@@/t'', sender, dst, ''n'', ''h'', req] \<and>
     RecvSrvRequest (\<lambda>_. False) False (Some (''@@/t'', sender, dst, ''n'', ''h'', req)) proc_rep = Inr (b', e) \<and>
     ReplyFrames [dst, ''@@/t'', ''n'', ''h'', rep, flag] \<in> set e \<and>
     RecvSrvResponse (Some (''@@/t'', ''n'', ''h'', rep, flag)) proc_req =
       (a', [UserCall (ReqCall ''h'' ''/t'' ''q!'' True)]) \<and>
     GetHandler ''@@/t'' ''n'' ''h'' (requests a') = None"
  using service_call_end_to_end [OF proc_req_reachable proc_req_handler(1), of proc_rep rep_h _ "\<lambda>_. False" "''idp''" False]
  by (simp add: proc_req_handler req_h_simps sample_names GetHandler_first_def proc_rep_def rep_h_def)

subsection \<open>Control messages\<close>

lemma stoi_control: "stoi (to_string NewConnection) = Inr 9" "stoi (to_string EndConnection) = Inr 10"
  by code_simp+

lemma control_codes: "uint NewConnection = 9" "uint EndConnection = 10"
  by (simp_all add: msg_type_defs)

lemma RecvControl_new:
  "RecvControlUpdate (Some (t, p, n, to_string NewConnection)) s =
     Inr (s\<lparr>remoteSubscribers := snd (AddAddress t '''' '''' p n All (remoteSubscribers s))\<rparr>)"
  by (simp add: RecvControlUpdate_def stoi_control control_codes)

lemma RecvControl_end:
  "RecvControlUpdate (Some (t, p, n, to_string EndConnection)) s =
     Inr (s\<lparr>remoteSubscribers := snd (DelAddressByNode t p n (remoteSubscribers s))\<rparr>)"
  by (simp add: RecvControlUpdate_def stoi_control control_codes)

text \<open>Subscribing reaches the publisher.  When a process that has subscriptions to a topic
  learns of a publisher in another process, and its sockets work, it connects to it and sends one
  control message for each of its handlers of the topic; the frames of each, received by the
  publisher, leave the publisher with a remote subscriber of that node, so that it publishes the
  topic on the network from then on.\<close>
theorem subscription_reaches_publisher:
  assumes "HasHandlersForTopic t (localSubscriptions s)" and "p \<noteq> ns_pUuid s" and "\<And>x. \<not> fails x"
    and "h \<in> set (handlers_of t (localSubscriptions s))" and "process_reachable q"
  shows "\<exists>s' e frames q'. OnNewConnection fails t a c p n sc s = (s', e) \<and>
    AddFilter t \<in> set e \<and> ControlFrames c frames \<in> set e \<and>
    frames = [t, ns_pUuid s, sh_nUuid h, to_string NewConnection] \<and>
    RecvControlUpdate (Some (t, ns_pUuid s, sh_nUuid h, to_string NewConnection)) q = Inr q' \<and>
    HasTopic t (remoteSubscribers q') \<and>
    (\<exists>i \<in> set (vec (remoteSubscribers q') t (ns_pUuid s)). nUuid i = sh_nUuid h)"
proof -
  note ok = process_okD(6) [OF process_reachable_ok [OF assms(5)]]
  have subs: "storage_ok (snd (AddAddress t '''' '''' (ns_pUuid s) (sh_nUuid h) All (remoteSubscribers q)))"
    using ok by (rule ts.ok_add)
  have rec: "\<exists>i \<in> set (vec (snd (AddAddress t '''' '''' (ns_pUuid s) (sh_nUuid h) All (remoteSubscribers q)))
      t (ns_pUuid s)). nUuid i = sh_nUuid h"
    using ok by (auto simp: ts.recs_add)
  then have "HasTopic t (snd (AddAddress t '''' '''' (ns_pUuid s) (sh_nUuid h) All (remoteSubscribers q)))"
    unfolding HasTopic_iff [OF subs] by (intro exI [of _ "ns_pUuid s"]) auto
  moreover have all: "takeWhile (\<lambda>_. True) xs = xs" for xs :: "'a io list" by (induction xs) simp_all
  ultimately show ?thesis
    using assms rec by (simp add: OnNewConnection_def Let_def RecvControl_new all)
qed

lemma subscription_reaches_publisher_witness:
  "\<exists>s' e q'. OnNewConnection (\<lambda>_. False) ''@@/t'' ''tcp:2'' ''c2'' ''B'' ''nb'' All proc_sub = (s', e) \<and>
     ControlFrames ''c2'' [''@@/t'', ''A'', ''n'', to_string NewConnection] \<in> set e \<and>
     RecvControlUpdate (Some (''@@/t'', ''A'', ''n'', to_string NewConnection)) (proc0 ''B'' :: string node_shared) =
       Inr q' \<and>
     HasTopic ''@@/t'' (remoteSubscribers q')"
proof -
  have "HasHandlersForTopic ''@@/t'' (localSubscriptions proc_sub)" "''B'' \<noteq> ns_pUuid proc_sub"
    "sub_h \<in> set (handlers_of ''@@/t'' (localSubscriptions proc_sub))"
    "ns_pUuid proc_sub = ''A''" "sh_nUuid sub_h = ''n''"
    by (simp_all add: proc_sub_def proc0_def NodeShared_ctor_def HasHandlersForTopic_def handlers_of_def
        GetHandlers_def sub_h_def)
  then show ?thesis
    using subscription_reaches_publisher [of "''@@/t''" proc_sub "''B''" "\<lambda>_. False" sub_h "proc0 ''B'' :: string node_shared"
        "''tcp:2''" "''c2''" "''nb''" All] proc0_reachable [of "''B''"] by auto
qed

text \<open>C34 Unsubscribing does not reach the publisher: the control messages that a node sends
  when it unsubscribes carry the address of its process in the place of the UUID of its process,
  under which a publisher has filed it, and receiving them changes nothing at a publisher that has no
  subscriber filed under that address.\<close>
theorem unsubscription_misses_publisher:
  assumes "fqn nd topic = Some t" and "Node_Unsubscribe fails topic nd s = Inr (nd', s', e, ok)"
    and "ControlFrames c frames \<in> set e"
    and "process_reachable q" and "vec (remoteSubscribers q) t (myAddress s) = []"
  shows "frames = [t, myAddress s, nd_nUuid nd, to_string EndConnection] \<and>
    RecvControlUpdate (Some (t, myAddress s, nd_nUuid nd, to_string EndConnection)) q = Inr q"
proof -
  have "snd (DelAddressByNode t (myAddress s) (nd_nUuid nd) (remoteSubscribers q)) = remoteSubscribers q"
    using assms(5) process_okD(6) [OF process_reachable_ok [OF assms(4)]]
    by (intro ts.del_node_absent) simp_all
  moreover have "frames = [t, myAddress s, nd_nUuid nd, to_string EndConnection]"
    using assms(1-3) by (auto simp: Node_Unsubscribe_def Let_def split: if_splits option.splits)
  ultimately show ?thesis by (simp add: RecvControl_end)
qed

text \<open>The subscriber, when it knows of a publisher.\<close>

definition proc_known :: "string node_shared" where
  "proc_known = proc_sub\<lparr>disc := (disc proc_sub)\<lparr>infoMsg :=
     [(''@@/t'', [(''B'', [\<lparr>addr = ''tcp:2'', ctrl = ''c2'', nUuid = ''nb'', scope = All\<rparr>])])]\<rparr>\<rparr>"

lemma unsubscription_misses_publisher_witness:
  "\<exists>nd' s' e frames. Node_Unsubscribe (\<lambda>_. False) ''/t'' (node0\<lparr>topicsSubscribed := [''@@/t'']\<rparr>) proc_known =
       Inr (nd', s', e, True) \<and>
     ControlFrames ''c2'' frames \<in> set e \<and>
     RecvControlUpdate (Some (''@@/t'', ''pub'', ''n'', to_string EndConnection)) (proc0 ''B'' :: string node_shared) =
       Inr (proc0 ''B'')"
proof -
  let ?nd = "node0\<lparr>topicsSubscribed := [''@@/t'']\<rparr>"
  have fqn: "fqn ?nd ''/t'' = Some ''@@/t''" by code_simp
  obtain nd' s' e where run: "Node_Unsubscribe (\<lambda>_. False) ''/t'' ?nd proc_known = Inr (nd', s', e, True)"
      "\<exists>frames. ControlFrames ''c2'' frames \<in> set e"
    by (simp add: Node_Unsubscribe_def fqn Let_def GetMsgAddresses_def GetAddresses_eq proc_known_def)
  moreover have "vec (remoteSubscribers (proc0 ''B'' :: string node_shared)) ''@@/t'' (myAddress proc_known) = []"
    "myAddress proc_known = ''pub''" "nd_nUuid ?nd = ''n''"
    by (simp_all add: proc0_def NodeShared_ctor_def vec_def proc_known_def proc_sub_def node0_def Node_ctor_def)
  ultimately show ?thesis
    using unsubscription_misses_publisher [OF fqn run(1), of "''c2''" _ "proc0 ''B'' :: string node_shared"]
      proc0_reachable [of "''B''"] by auto
qed

subsection \<open>Unadvertising a service\<close>

lemma Unadvertise_only_sends: "Unadvertise k t n d = Inr (d', e) \<Longrightarrow> \<exists>bs. e = map Send bs"
  by (auto simp: Unadvertise_def Let_def rbind_eq_Inr_iff dest: SendMsg_only_sends
      split: option.splits if_splits)

lemma handle_sends: "handle_events fails (map Send bs) s = Inr (s, map Datagram bs)"
  by (induction bs) simp_all

lemma Unadvertise_Msg_infoSrv: "Unadvertise Msg t n d = Inr (d', e) \<Longrightarrow> infoSrv d' = infoSrv d"
  by (auto simp: Unadvertise_def Let_def rbind_eq_Inr_iff split: option.splits if_splits)

subsection \<open>The life of a node\<close>

text \<open>
  The nodes that the operations lead to, from either constructor.  Between two operations the rest
  of the process may change the shared node in any way.
\<close>

inductive node_reachable :: "node \<Rightarrow> 'm node_shared \<Rightarrow> bool" where
  default: "node_reachable (Node_ctor env u) s"
| with_names: "node_reachable (Node_ctor_with env u0 part ns u) s"
| others: "node_reachable nd s \<Longrightarrow> node_reachable nd s'"
| advertise: "node_reachable nd s \<Longrightarrow> Node_Advertise fails topic sc nd s = Inr (nd', s', e, ok) \<Longrightarrow>
    node_reachable nd' s'"
| unadvertise: "node_reachable nd s \<Longrightarrow> Node_Unadvertise fails topic nd s = Inr (nd', s', e, ok) \<Longrightarrow>
    node_reachable nd' s'"
| subscribe: "node_reachable nd s \<Longrightarrow>
    Node_Subscribe fails topic hUuid create cb nd s = Inr (nd', s', e, ok) \<Longrightarrow> node_reachable nd' s'"
| unsubscribe: "node_reachable nd s \<Longrightarrow> Node_Unsubscribe fails topic nd s = Inr (nd', s', e, ok) \<Longrightarrow>
    node_reachable nd' s'"
| advertise_srv: "node_reachable nd s \<Longrightarrow>
    Node_AdvertiseSrv fails topic hUuid create new serialize scb sc nd s = Inr (nd', s', e, ok) \<Longrightarrow> node_reachable nd' s'"
| unadvertise_srv: "node_reachable nd s \<Longrightarrow> Node_UnadvertiseSrv fails topic nd s = Inr (nd', s', e, ok) \<Longrightarrow>
    node_reachable nd' s'"

definition node_ok :: "node \<Rightarrow> bool" where
  "node_ok nd \<longleftrightarrow> IsValidNamespace (nd_ns nd) \<and>
     (\<forall>t \<in> set (topicsSubscribed nd) \<union> set (topicsAdvertised nd) \<union> set (srvsAdvertised nd).
       \<exists>topic. fqn nd topic = Some t)"

text \<open>What each operation does to the node.\<close>

lemma node_results:
  "Node_Advertise fails topic sc nd s = Inr (nd', s', e, ok) \<Longrightarrow>
     nd' = (case fqn nd topic of None \<Rightarrow> nd
       | Some t \<Rightarrow> nd\<lparr>topicsAdvertised := set_insert t (topicsAdvertised nd)\<rparr>)"
  "Node_Unadvertise fails topic nd s = Inr (nd', s', e, ok) \<Longrightarrow>
     nd' = (case fqn nd topic of None \<Rightarrow> nd
       | Some t \<Rightarrow> nd\<lparr>topicsAdvertised := removeAll t (topicsAdvertised nd)\<rparr>)"
  "Node_Subscribe fails topic hUuid create cb nd s = Inr (nd', s', e, ok) \<Longrightarrow>
     nd' = (case fqn nd topic of None \<Rightarrow> nd
       | Some t \<Rightarrow> nd\<lparr>topicsSubscribed := set_insert t (topicsSubscribed nd)\<rparr>)"
  "Node_Unsubscribe fails topic nd s = Inr (nd', s', e, ok) \<Longrightarrow>
     nd' = (case fqn nd topic of None \<Rightarrow> nd
       | Some t \<Rightarrow> nd\<lparr>topicsSubscribed := removeAll t (topicsSubscribed nd)\<rparr>)"
  "Node_AdvertiseSrv fails topic hUuid create new serialize scb sc nd s = Inr (nd', s', e, ok) \<Longrightarrow>
     nd' = (case fqn nd topic of None \<Rightarrow> nd
       | Some t \<Rightarrow> nd\<lparr>srvsAdvertised := set_insert t (srvsAdvertised nd)\<rparr>)"
  "Node_UnadvertiseSrv fails topic nd s = Inr (nd', s', e, ok) \<Longrightarrow>
     nd' = (case fqn nd topic of None \<Rightarrow> nd
       | Some t \<Rightarrow> nd\<lparr>srvsAdvertised := removeAll t (srvsAdvertised nd)\<rparr>)"
  by (auto simp: Node_Advertise_def Node_Unadvertise_def Node_Subscribe_def Node_Unsubscribe_def
      Node_AdvertiseSrv_def Node_UnadvertiseSrv_def Let_def rbind_eq_Inr_iff
      split: option.splits if_splits)

lemma fqn_update [simp]:
  "fqn (nd\<lparr>topicsSubscribed := x\<rparr>) = fqn nd" "fqn (nd\<lparr>topicsAdvertised := x\<rparr>) = fqn nd"
  "fqn (nd\<lparr>srvsAdvertised := x\<rparr>) = fqn nd"
  by (simp_all add: fqn_def fun_eq_iff)

lemma set_set_insert [simp]: "set (set_insert x xs) = insert x (set xs)"
  by (auto simp: set_insert_def)

lemma node_ok_insert:
  assumes "node_ok nd"
  shows "node_ok (case fqn nd topic of None \<Rightarrow> nd
      | Some t \<Rightarrow> nd\<lparr>topicsSubscribed := set_insert t (topicsSubscribed nd)\<rparr>)"
    "node_ok (case fqn nd topic of None \<Rightarrow> nd
      | Some t \<Rightarrow> nd\<lparr>topicsAdvertised := set_insert t (topicsAdvertised nd)\<rparr>)"
    "node_ok (case fqn nd topic of None \<Rightarrow> nd
      | Some t \<Rightarrow> nd\<lparr>srvsAdvertised := set_insert t (srvsAdvertised nd)\<rparr>)"
  using assms by (auto simp: node_ok_def split: option.split)

lemma node_ok_remove:
  assumes "node_ok nd"
  shows "node_ok (case fqn nd topic of None \<Rightarrow> nd
      | Some t \<Rightarrow> nd\<lparr>topicsSubscribed := removeAll t (topicsSubscribed nd)\<rparr>)"
    "node_ok (case fqn nd topic of None \<Rightarrow> nd
      | Some t \<Rightarrow> nd\<lparr>topicsAdvertised := removeAll t (topicsAdvertised nd)\<rparr>)"
    "node_ok (case fqn nd topic of None \<Rightarrow> nd
      | Some t \<Rightarrow> nd\<lparr>srvsAdvertised := removeAll t (srvsAdvertised nd)\<rparr>)"
  using assms by (auto simp: node_ok_def split: option.split)

lemma IsValidNamespace_Nil: "IsValidNamespace ''''"
  by (simp add: IsValidNamespace_iff)

lemma node_reachable_ok: "node_reachable nd s \<Longrightarrow> node_ok nd"
proof (induction rule: node_reachable.induct)
  case (default env u s)
  then show ?case by (simp add: node_ok_def Node_ctor_def IsValidNamespace_Nil)
next
  case (with_names env u0 part ns u s)
  then show ?case
    by (simp add: node_ok_def Node_ctor_with_def Node_ctor_def Let_def IsValidNamespace_Nil)
qed (metis node_results node_ok_insert node_ok_remove)+

lemma fqn_strip:
  assumes "node_ok nd" and "t \<in> set (topicsSubscribed nd) \<union> set (topicsAdvertised nd) \<union> set (srvsAdvertised nd)"
  shows "fqn nd (strip_partition t) = Some t"
  using assms strip_requalify unfolding node_ok_def fqn_def by blast

text \<open>Removing, one by one, names that are listed without their partition.\<close>

lemma for_each_remove:
  assumes result: "\<And>x nd s nd' s' e ok. f x nd s = Inr (nd', s', e, ok) \<Longrightarrow>
      nd' = (case fqn nd x of None \<Rightarrow> nd | Some t \<Rightarrow> upd (removeAll t (sel nd)) nd)"
    and frame: "\<And>v nd. fqn (upd v nd) = fqn nd" "\<And>v w nd. upd v (upd w nd) = upd v nd"
      "\<And>v nd. sel (upd v nd) = v" "\<And>nd. upd (sel nd) nd = nd"
  shows "for_each f (map strip_partition ts) nd s = Inr (nd', s', e) \<Longrightarrow>
    \<forall>t \<in> set ts. fqn nd (strip_partition t) = Some t \<Longrightarrow>
    nd' = upd (filter (\<lambda>t. t \<notin> set ts) (sel nd)) nd"
proof (induction ts arbitrary: nd s e)
  case Nil
  then show ?case using frame(4) by simp
next
  case (Cons t ts)
  from Cons.prems(1) obtain nd1 s1 e1 ok e2 where first: "f (strip_partition t) nd s = Inr (nd1, s1, e1, ok)"
    and rest: "for_each f (map strip_partition ts) nd1 s1 = Inr (nd', s', e2)"
    by (auto simp: rbind_eq_Inr_iff)
  have nd1: "nd1 = upd (removeAll t (sel nd)) nd" using result [OF first] Cons.prems(2) by simp
  have "nd' = upd (filter (\<lambda>t. t \<notin> set ts) (sel nd1)) nd1"
    using rest Cons.prems(2) by (intro Cons.IH) (simp_all add: nd1 frame(1))
  moreover have "filter (\<lambda>t. t \<notin> set ts) (removeAll t xs) = filter (\<lambda>x. x \<notin> set (t # ts)) xs" for xs
    by (simp add: removeAll_filter_not_eq) (rule filter_cong, auto)
  ultimately show ?case by (simp add: nd1 frame(2,3))
qed

lemma node_removals:
  "for_each (Node_Unsubscribe fails) (map strip_partition ts) nd s = Inr (nd', s', e) \<Longrightarrow>
    \<forall>t \<in> set ts. fqn nd (strip_partition t) = Some t \<Longrightarrow>
    nd' = nd\<lparr>topicsSubscribed := filter (\<lambda>t. t \<notin> set ts) (topicsSubscribed nd)\<rparr>"
  "for_each (Node_Unadvertise fails) (map strip_partition ts) nd s = Inr (nd', s', e) \<Longrightarrow>
    \<forall>t \<in> set ts. fqn nd (strip_partition t) = Some t \<Longrightarrow>
    nd' = nd\<lparr>topicsAdvertised := filter (\<lambda>t. t \<notin> set ts) (topicsAdvertised nd)\<rparr>"
  "for_each (Node_UnadvertiseSrv fails) (map strip_partition ts) nd s = Inr (nd', s', e) \<Longrightarrow>
    \<forall>t \<in> set ts. fqn nd (strip_partition t) = Some t \<Longrightarrow>
    nd' = nd\<lparr>srvsAdvertised := filter (\<lambda>t. t \<notin> set ts) (srvsAdvertised nd)\<rparr>"
  subgoal by (rule for_each_remove [where upd = "\<lambda>v. topicsSubscribed_update (\<lambda>_. v)"
        and sel = topicsSubscribed]) (assumption | erule node_results | simp)+
  subgoal by (rule for_each_remove [where upd = "\<lambda>v. topicsAdvertised_update (\<lambda>_. v)"
        and sel = topicsAdvertised]) (assumption | erule node_results | simp)+
  subgoal by (rule for_each_remove [where upd = "\<lambda>v. srvsAdvertised_update (\<lambda>_. v)"
        and sel = srvsAdvertised]) (assumption | erule node_results | simp)+
  done

text \<open>None of the operations involved fails an assertion of its own.\<close>

lemma pack_no_assert:
  "put bs z \<noteq> Inl AssertFailed" "put_str str z \<noteq> Inl AssertFailed" "advance n b \<noteq> Inl AssertFailed"
  "Header_print h \<noteq> Inl AssertFailed" "Header_Pack h b \<noteq> Inl AssertFailed"
  "AdvertiseBase_print m \<noteq> Inl AssertFailed"
proof -
  show put: "put bs z \<noteq> Inl AssertFailed" for bs z by (simp add: put_def)
  show put_str: "put_str str z \<noteq> Inl AssertFailed" for str z
    by (simp add: put_str_def rbind_eq_Inl_iff put)
  show "advance n b \<noteq> Inl AssertFailed" by (simp add: advance_def split: option.split)
  show print: "Header_print h \<noteq> Inl AssertFailed" for h
    by (simp add: Header_print_def MsgTypesStr_at_def)
  show "Header_Pack h b \<noteq> Inl AssertFailed"
    by (simp add: Header_Pack_def rbind_eq_Inl_iff print put put_str split: option.split)
  show "AdvertiseBase_print m \<noteq> Inl AssertFailed"
    by (simp add: AdvertiseBase_print_def rbind_eq_Inl_iff print)
qed

lemma SendMsg_no_assert: "SendMsg ty t a c n sc f d \<noteq> Inl AssertFailed"
proof -
  have base: "AdvertiseBase_Pack m b \<noteq> Inl AssertFailed" for m :: advertise_msg and b
    by (auto simp: AdvertiseBase_Pack_def rbind_eq_Inl_iff pack_no_assert)
  have "AdvertiseMsg_Pack m b \<noteq> Inl AssertFailed" for m b
    by (auto simp: AdvertiseMsg_Pack_def rbind_eq_Inl_iff pack_no_assert base)
  moreover have "SubscriptionMsg_Pack m b \<noteq> Inl AssertFailed" for m b
    by (auto simp: SubscriptionMsg_Pack_def rbind_eq_Inl_iff pack_no_assert)
  moreover have "transmit l b \<noteq> Inl AssertFailed" for l b
    by (auto simp: transmit_def Let_def rbind_eq_Inl_iff pack_no_assert)
  ultimately show ?thesis
    by (auto simp: SendMsg_def Let_def rbind_eq_Inl_iff pack_no_assert)
qed

lemma Unadvertise_no_assert: "Unadvertise k t n d \<noteq> Inl AssertFailed"
  by (simp add: Unadvertise_def Let_def rbind_eq_Inl_iff SendMsg_no_assert split: option.split)

lemma with_Unadvertise_no_assert:
  "with_discovery fails (Unadvertise k t n) s \<noteq> Inl AssertFailed"
proof
  assume "with_discovery fails (Unadvertise k t n) s = Inl AssertFailed"
  then obtain d e where "Unadvertise k t n (disc s) = Inr (d, e)"
    "handle_events fails e (s\<lparr>disc := d\<rparr>) = Inl AssertFailed"
    by (auto simp: with_discovery_def rbind_eq_Inl_iff Unadvertise_no_assert)
  then show False using Unadvertise_only_sends [of k t n "disc s" d e] by (auto simp: handle_sends)
qed

lemma removals_no_assert:
  "Node_Unsubscribe fails x nd s \<noteq> Inl AssertFailed"
  "Node_Unadvertise fails x nd s \<noteq> Inl AssertFailed"
  "Node_UnadvertiseSrv fails x nd s \<noteq> Inl AssertFailed"
  by (auto simp: Node_Unsubscribe_def Node_Unadvertise_def Node_UnadvertiseSrv_def Let_def
      rbind_eq_Inl_iff with_Unadvertise_no_assert split: option.split)

lemma for_each_no_assert:
  "(\<And>x nd s. f x nd s \<noteq> Inl AssertFailed) \<Longrightarrow> for_each f xs nd s \<noteq> Inl AssertFailed"
  by (induction xs arbitrary: nd s) (auto simp: rbind_eq_Inl_iff)

lemma filter_not_self [simp]: "filter (\<lambda>t. t \<notin> set xs) xs = []"
  by (simp add: filter_empty_conv)

lemma dtor_loops:
  assumes "node_ok nd"
  shows "for_each (Node_Unsubscribe fails) (SubscribedTopics nd) nd s = Inr (nd', s', e) \<Longrightarrow>
      node_ok nd' \<and> nd' = nd\<lparr>topicsSubscribed := []\<rparr>"
    and "for_each (Node_Unadvertise fails) (AdvertisedTopics nd) nd s = Inr (nd', s', e) \<Longrightarrow>
      node_ok nd' \<and> nd' = nd\<lparr>topicsAdvertised := []\<rparr>"
    and "for_each (Node_UnadvertiseSrv fails) (AdvertisedServices nd) nd s = Inr (nd', s', e) \<Longrightarrow>
      node_ok nd' \<and> nd' = nd\<lparr>srvsAdvertised := []\<rparr>"
proof -
  have ok: "node_ok (nd\<lparr>topicsSubscribed := []\<rparr>)" "node_ok (nd\<lparr>topicsAdvertised := []\<rparr>)"
    "node_ok (nd\<lparr>srvsAdvertised := []\<rparr>)"
    using assms by (auto simp: node_ok_def)
  have all: "\<forall>t \<in> set (topicsSubscribed nd). fqn nd (strip_partition t) = Some t"
    "\<forall>t \<in> set (topicsAdvertised nd). fqn nd (strip_partition t) = Some t"
    "\<forall>t \<in> set (srvsAdvertised nd). fqn nd (strip_partition t) = Some t"
    using fqn_strip [OF assms] by auto
  show "for_each (Node_Unsubscribe fails) (SubscribedTopics nd) nd s = Inr (nd', s', e) \<Longrightarrow>
      node_ok nd' \<and> nd' = nd\<lparr>topicsSubscribed := []\<rparr>"
    using node_removals(1) [OF _ all(1), of fails s nd' s' e] ok(1) by (simp add: SubscribedTopics_def)
  show "for_each (Node_Unadvertise fails) (AdvertisedTopics nd) nd s = Inr (nd', s', e) \<Longrightarrow>
      node_ok nd' \<and> nd' = nd\<lparr>topicsAdvertised := []\<rparr>"
    using node_removals(2) [OF _ all(2), of fails s nd' s' e] ok(2) by (simp add: AdvertisedTopics_def)
  show "for_each (Node_UnadvertiseSrv fails) (AdvertisedServices nd) nd s = Inr (nd', s', e) \<Longrightarrow>
      node_ok nd' \<and> nd' = nd\<lparr>srvsAdvertised := []\<rparr>"
    using node_removals(3) [OF _ all(3), of fails s nd' s' e] ok(3) by (simp add: AdvertisedServices_def)
qed

lemma rbind_no_assert:
  "x \<noteq> Inl AssertFailed \<Longrightarrow> (\<And>y. x = Inr y \<Longrightarrow> f y \<noteq> Inl AssertFailed) \<Longrightarrow> rbind x f \<noteq> Inl AssertFailed"
  by (auto simp: rbind_eq_Inl_iff)

lemma dtor_no_assert:
  assumes "node_ok nd"
  shows "Node_dtor fails nd s \<noteq> Inl AssertFailed"
  unfolding Node_dtor_def
proof (rule rbind_no_assert, goal_cases)
  case 1
  show ?case by (simp add: for_each_no_assert removals_no_assert)
next
  case (2 y)
  obtain nd1 s1 e1 where y: "y = (nd1, s1, e1)" by (cases y)
  have nd1: "node_ok nd1" "SubscribedTopics nd1 = []"
    using dtor_loops(1) [OF assms 2 [unfolded y]] by (auto simp: SubscribedTopics_def)
  have "rbind (for_each (Node_Unadvertise fails) (AdvertisedTopics nd1) nd1 s1) (\<lambda>(nd, s, e2).
     if AdvertisedTopics nd \<noteq> [] then Inl AssertFailed else
     rbind (for_each (Node_UnadvertiseSrv fails) (AdvertisedServices nd) nd s) (\<lambda>(nd, s, e3).
     if AdvertisedServices nd \<noteq> [] then Inl AssertFailed else
     Inr (nd, s, e1 @ e2 @ e3))) \<noteq> Inl AssertFailed"
  proof (rule rbind_no_assert, goal_cases)
    case 1
    show ?case by (simp add: for_each_no_assert removals_no_assert)
  next
    case (2 z)
    obtain nd2 s2 e2 where z: "z = (nd2, s2, e2)" by (cases z)
    have nd2: "node_ok nd2" "AdvertisedTopics nd2 = []"
      using dtor_loops(2) [OF nd1(1) 2 [unfolded z]] by (auto simp: AdvertisedTopics_def)
    have "rbind (for_each (Node_UnadvertiseSrv fails) (AdvertisedServices nd2) nd2 s2) (\<lambda>(nd, s, e3).
        if AdvertisedServices nd \<noteq> [] then Inl AssertFailed else Inr (nd, s, e1 @ e2 @ e3)) \<noteq> Inl AssertFailed"
      by (intro rbind_no_assert)
        (auto simp: for_each_no_assert removals_no_assert AdvertisedServices_def 
          dest: dtor_loops(3) [OF nd2(1), unfolded AdvertisedServices_def, THEN conjunct2])
    then show ?case by (simp add: z nd2)
  qed
  then show ?case by (simp add: y nd1)
qed

lemma dtor_result:
  assumes "node_ok nd" and "Node_dtor fails nd s = Inr (nd', s', e)"
  shows "nd' = nd\<lparr>topicsSubscribed := [], topicsAdvertised := [], srvsAdvertised := []\<rparr>"
proof -
  from assms(2) obtain nd1 s1 e1 nd2 s2 e2 e3 where
    1: "for_each (Node_Unsubscribe fails) (SubscribedTopics nd) nd s = Inr (nd1, s1, e1)" and
    2: "for_each (Node_Unadvertise fails) (AdvertisedTopics nd1) nd1 s1 = Inr (nd2, s2, e2)" and
    3: "for_each (Node_UnadvertiseSrv fails) (AdvertisedServices nd2) nd2 s2 = Inr (nd', s', e3)"
    by (auto simp: Node_dtor_def rbind_eq_Inr_iff split: if_splits)
  from dtor_loops(1) [OF assms(1) 1] have 1: "node_ok nd1" "nd1 = nd\<lparr>topicsSubscribed := []\<rparr>" by auto
  from dtor_loops(2) [OF 1(1) 2] have 2: "node_ok nd2" "nd2 = nd1\<lparr>topicsAdvertised := []\<rparr>" by auto
  from dtor_loops(3) [OF 2(1) 3] show ?thesis by (simp add: 1(2) 2(2))
qed

text \<open>Destroying a node, whatever operations it has gone through and whatever the other
  nodes of the process have done, never fails one of the assertions of the destructor: the names that
  the node lists without their partition resolve to the names it has stored, so that when the
  destructor returns the node has no subscription, no topic and no service left.\<close>
theorem destructor_clears_node:
  assumes "node_reachable nd s"
  shows "case Node_dtor fails nd s of
      Inl x \<Rightarrow> x \<noteq> AssertFailed
    | Inr (nd', s', e) \<Rightarrow> topicsSubscribed nd' = [] \<and> topicsAdvertised nd' = [] \<and> srvsAdvertised nd' = []"
proof -
  have ok: "node_ok nd" by (rule node_reachable_ok [OF assms])
  show ?thesis
    using dtor_no_assert [OF ok, of fails s] dtor_result [OF ok, of fails s]
    by (auto split: sum.split)
qed

lemma destructor_clears_node_witness:
  "case Node_dtor (\<lambda>_. False) (node0\<lparr>topicsSubscribed := [''@@/t'']\<rparr>) proc_sub of
      Inl x \<Rightarrow> x \<noteq> AssertFailed
    | Inr (nd', s', e) \<Rightarrow> topicsSubscribed nd' = [] \<and> topicsAdvertised nd' = [] \<and> srvsAdvertised nd' = []"
proof (rule destructor_clears_node)
  have "node_reachable node0 (proc0 ''A'')" unfolding node0_def by (rule node_reachable.default)
  then show "node_reachable (node0\<lparr>topicsSubscribed := [''@@/t'']\<rparr>) proc_sub"
    using Subscribe_proc0 node_reachable.subscribe by blast
qed

end
