(* ===== verification/Commands.thy ===== *)
theory Commands
  imports NodeCorrect
begin

text \<open>
  What the library writes to standard output: \<^verbatim>\<open>TopicStorage::Print\<close>,
  \<^verbatim>\<open>Discovery::PrintCurrentState\<close>, and the commands of \<^verbatim>\<open>src/ign.cc\<close>, with the lists of topics and
  services that they print.  The output is a string.
\<close>

definition endl :: string where
  "endl = [CHR 0x0A]"

definition tab :: string where
  "tab = [CHR 0x09]"

definition show_int :: "int \<Rightarrow> string" where
  "show_int n = (if n < 0 then ''-'' @ show_nat (nat (- n)) else show_nat (nat n))"

subsection \<open>Printing the state\<close>

definition print_scope :: "scope \<Rightarrow> string" where
  "print_scope sc =
     (if sc = Process then tab @ tab @ ''  Scope: Process'' @ endl
      else if sc = Host then tab @ tab @ ''  Scope: Host'' @ endl
      else tab @ tab @ ''  Scope: All'' @ endl)"

definition print_address :: "address \<Rightarrow> string" where
  "print_address i =
     tab @ tab @ ''* Addr:'' @ addr i @ endl @
     tab @ tab @ ''  Ctrl:'' @ ctrl i @ endl @
     tab @ tab @ ''  Node UUID:'' @ nUuid i @ endl @
     print_scope (scope i)"

definition TopicStorage_Print :: "topic_storage \<Rightarrow> string" where
  "TopicStorage_Print data =
     ''---'' @ endl @
     concat (map (\<lambda>topic.
       ''['' @ fst topic @ '']'' @ endl @
       concat (map (\<lambda>proc.
         tab @ ''Proc. UUID: '' @ fst proc @ endl @ concat (map print_address (snd proc)))
         (snd topic))) data)"

definition Discovery_PrintCurrentState :: "(int \<Rightarrow> int) \<Rightarrow> int \<Rightarrow> discovery \<Rightarrow> string" where
  "Discovery_PrintCurrentState to_ms now d =
     ''---------------'' @ endl @ ''Discovery state'' @ endl @
     tab @ ''UUID: '' @ pUuid d @ endl @ ''Settings'' @ endl @
     tab @ ''Activity: '' @ show_nat (unat (activityInterval d)) @ '' ms.'' @ endl @
     tab @ ''Heartbeat: '' @ show_nat (unat (heartbeatInterval d)) @ ''ms.'' @ endl @
     tab @ ''Retrans.: '' @ show_nat (unat (advertiseInterval d)) @ '' ms.'' @ endl @
     tab @ ''Silence: '' @ show_nat (unat (silenceInterval d)) @ '' ms.'' @ endl @
     ''Known msgs'' @ endl @ TopicStorage_Print (infoMsg d) @
     ''Known services'' @ endl @ TopicStorage_Print (infoSrv d) @
     ''Activity'' @ endl @
     (if activity d = [] then tab @ ''<empty>'' @ endl
      else concat (map (\<lambda>proc.
        tab @ fst proc @ endl @
        tab @ tab @ ''Since: '' @ show_int (to_ms (now - snd proc)) @ '' ms. ago. '' @ endl)
        (activity d))) @
     ''---------------'' @ endl"

subsection \<open>The commands\<close>

text \<open>
  A command makes a node, waits while the threads of the process change the shared node to \<open>s\<close>,
  prints a list and destroys the node.  \<open>env\<close> is \<^verbatim>\<open>IGN_PARTITION\<close>, \<open>u\<close> the UUID of the node.
\<close>

definition cmdTopicList ::
    "('m io \<Rightarrow> bool) \<Rightarrow> string option \<Rightarrow> string \<Rightarrow> 'm node_shared \<Rightarrow> ('m node_shared \<times> string) res" where
  "cmdTopicList fails env u s =
     (let node = Node_ctor env u
      in rbind (Node_GetTopicList node s) (\<lambda>topics.
         rbind (Node_dtor fails node s) (\<lambda>(_, s, _).
         Inr (s, concat (map (\<lambda>topic. topic @ endl) topics)))))"

definition cmdServiceList ::
    "('m io \<Rightarrow> bool) \<Rightarrow> string option \<Rightarrow> string \<Rightarrow> 'm node_shared \<Rightarrow> ('m node_shared \<times> string) res" where
  "cmdServiceList fails env u s =
     (let node = Node_ctor env u
      in rbind (Node_GetServiceList node s) (\<lambda>services.
         rbind (Node_dtor fails node s) (\<lambda>(_, s, _).
         Inr (s, concat (map (\<lambda>service. service @ endl) services)))))"

text \<open>The three version numbers are macros that the build file defines.\<close>

definition ignitionVersion :: "int \<Rightarrow> int \<Rightarrow> int \<Rightarrow> string" where
  "ignitionVersion majorVersion minorVersion patchVersion =
     show_int majorVersion @ ''.'' @ show_int minorVersion @ ''.'' @ show_int patchVersion"

subsection \<open>The lists\<close>

lemma topic_partition_Nil: "topic_partition topic = Inl x \<longleftrightarrow> topic = '''' \<and> x = Exn_out_of_range"
  by (auto simp: topic_partition_def Let_def Suc_le_eq)

lemma list_loop_eq:
  "list_loop part topics =
     (if '''' \<in> set topics then Inl Exn_out_of_range
      else Inr (map strip_partition (filter (\<lambda>t. topic_partition t = Inr part) topics)))"
proof (induction topics)
  case Nil
  then show ?case by simp
next
  case (Cons t topics)
  show ?case
  proof (cases "topic_partition t")
    case (Inl x)
    then show ?thesis using topic_partition_Nil [of t x] by simp
  next
    case (Inr p)
    then have "t \<noteq> ''''" using topic_partition_Nil [of t Exn_out_of_range] by auto
    with Inr Cons show ?thesis by auto
  qed
qed

lemma TopicStorage_GetTopicList_eq: "TopicStorage_GetTopicList data topics = topics @ map fst data"
  unfolding TopicStorage_GetTopicList_def by (induction data arbitrary: topics) simp_all

text \<open>
  How a name that is known is to be read, as a relation on strings: the partition is what stands between the
  first character and the last \<^verbatim>\<open>@\<close>, without the slash it starts with, and the topic what follows.  A name
  that somebody else has put together may have no \<^verbatim>\<open>@\<close> after its first character.
\<close>

inductive reads_as :: "string \<Rightarrow> string \<Rightarrow> string \<Rightarrow> bool" where
  delimited: "CHR ''@'' \<notin> set topic \<Longrightarrow> reads_as ([c] @ part @ ''@'' @ topic) (drop 1 part) topic"
| no_partition: "CHR ''@'' \<notin> set name \<Longrightarrow> reads_as (CHR ''@'' # name) (drop 1 name) name"
| no_delimiter: "CHR ''@'' \<notin> set name \<Longrightarrow> name \<noteq> '''' \<Longrightarrow> reads_as name (drop 2 name) name"

lemma find_last_of_split: "find_last_of c s = Some i \<Longrightarrow> s = take i s @ c # drop (Suc i) s \<and> c \<notin> set (drop (Suc i) s)"
proof (induction s arbitrary: i)
  case (Cons x s)
  then show ?case by (cases i) (auto simp: find_last_of_None split: option.splits if_splits)
qed simp

lemma reads_as_partition:
  assumes "reads_as name part topic"
  shows "topic_partition name = Inr part" and "strip_partition name = topic"
proof -
  have "topic_partition name = Inr part \<and> strip_partition name = topic"
    using assms
  proof cases
    case (delimited c q)
    have last: "find_last_of CHR ''@'' name = Some (Suc (length q))"
      using find_last_of_append [OF delimited(3), of "[c] @ q"] by (simp add: delimited(1))
    then show ?thesis
      by (cases q) (simp_all add: delimited(1,2) topic_partition_def strip_partition_def Let_def)
  next
    case (no_partition)
    then have "find_last_of CHR ''@'' name = Some 0" using find_last_of_append [OF no_partition(3), of "[]"] by simp
    then show ?thesis using no_partition
      by (cases topic) (auto simp: topic_partition_def strip_partition_def Let_def)
  next
    case no_delimiter
    then have "find_last_of CHR ''@'' name = None" by (simp add: find_last_of_None)
    then show ?thesis using no_delimiter
      by (cases topic) (auto simp del: find_last_of.simps simp: topic_partition_def strip_partition_def Let_def
          drop_Suc numeral_2_eq_2)
  qed
  then show "topic_partition name = Inr part" "strip_partition name = topic" by blast+
qed

lemma partition_reads_as:
  assumes "topic_partition name = Inr part"
  shows "reads_as name part (strip_partition name)"
proof (cases "find_last_of CHR ''@'' name")
  case None
  then have "CHR ''@'' \<notin> set name" "name \<noteq> ''''"
    using assms by (auto simp: find_last_of_None topic_partition_def)
  moreover have "part = drop 2 name" using assms None
    by (auto simp: topic_partition_def Let_def numeral_2_eq_2 drop_Suc tl_drop split: if_splits)
  ultimately show ?thesis using None reads_as.no_delimiter [of name] by (simp add: strip_partition_def)
next
  case (Some i)
  note split = find_last_of_split [OF Some]
  have strip: "strip_partition name = drop (Suc i) name" using Some by (simp add: strip_partition_def)
  show ?thesis
  proof (cases i)
    case 0
    then have "name = CHR ''@'' # drop 1 name" "CHR ''@'' \<notin> set (drop 1 name)" using split by auto
    moreover have "part = drop 1 (drop 1 name)" using assms Some 0
      by (auto simp: topic_partition_def Let_def drop_Suc split: if_splits)
    ultimately show ?thesis using reads_as.no_partition [of "drop 1 name"] strip 0 by simp
  next
    case (Suc k)
    obtain c rest where name: "name = c # rest" using Some by (cases name) auto
    let ?p = "take k rest"
    have "name = [c] @ ?p @ ''@'' @ drop (Suc i) name" using split Suc by (simp add: name)
    moreover have "part = drop 1 ?p"
      using assms Some Suc by (auto simp: topic_partition_def Let_def name drop_Suc split: if_splits)
    ultimately show ?thesis using reads_as.delimited [of "drop (Suc i) name" c ?p] split strip by simp
  qed
qed

lemma reads_as_iff: "reads_as name part topic \<longleftrightarrow> topic_partition name = Inr part \<and> strip_partition name = topic"
  using reads_as_partition partition_reads_as by blast

text \<open>A name that the library has made reads as what it was made of.\<close>

lemma reads_as_fqn:
  "GetFullyQualifiedName p ns t = Some name \<Longrightarrow>
     reads_as name part topic \<longleftrightarrow> part = tl (norm_partition p) \<and> topic = abs_topic ns t"
  by (auto simp: reads_as_iff fqn_parts)

lemma list_loop_reads:
  "'''' \<notin> set names \<Longrightarrow> \<exists>ts. list_loop part names = Inr ts \<and>
     list_all2 (\<lambda>name topic. reads_as name part topic) (filter (\<lambda>name. \<exists>topic. reads_as name part topic) names) ts"
  by (simp add: list_loop_eq reads_as_iff list_all2_map2 list_all2_same)

text \<open>C38 The lists of topics and of services are complete and exact: they hold, in the order of
  the storage, the topic of every known name that reads as a topic of the partition of the node, and nothing
  else.  The only way to fail is a known topic with an empty name, which nothing prevents another process from
  advertising: then the list throws.\<close>
theorem topic_lists_exact:
  "(case Node_GetTopicList nd s of
      Inl x \<Rightarrow> x = Exn_out_of_range \<and> '''' \<in> fst ` set (infoMsg (disc s))
    | Inr topics \<Rightarrow> '''' \<notin> fst ` set (infoMsg (disc s)) \<and>
        list_all2 (\<lambda>name topic. reads_as name (nd_partition nd) topic)
          (filter (\<lambda>name. \<exists>topic. reads_as name (nd_partition nd) topic) (map fst (infoMsg (disc s)))) topics) \<and>
   (case Node_GetServiceList nd s of
      Inl x \<Rightarrow> x = Exn_out_of_range \<and> '''' \<in> fst ` set (infoSrv (disc s))
    | Inr topics \<Rightarrow> '''' \<notin> fst ` set (infoSrv (disc s)) \<and>
        list_all2 (\<lambda>name topic. reads_as name (nd_partition nd) topic)
          (filter (\<lambda>name. \<exists>topic. reads_as name (nd_partition nd) topic) (map fst (infoSrv (disc s)))) topics)"
proof -
  have lists: "case list_loop part (map fst data) of
      Inl x \<Rightarrow> x = Exn_out_of_range \<and> '''' \<in> fst ` set data
    | Inr topics \<Rightarrow> '''' \<notin> fst ` set data \<and> list_all2 (\<lambda>name topic. reads_as name part topic)
        (filter (\<lambda>name. \<exists>topic. reads_as name part topic) (map fst data)) topics" for part and data :: topic_storage
    using list_loop_reads [of "map fst data" part] by (cases "'''' \<in> fst ` set data") (auto simp: list_loop_eq)
  show ?thesis
    using lists by (simp add: Node_GetTopicList_def Node_GetServiceList_def Discovery_GetTopicList_def
        Discovery_GetServiceList_def TopicStorage_GetTopicList_eq)
qed

lemma Node_dtor_fresh: "Node_dtor fails (Node_ctor env u) s = Inr (Node_ctor env u, s, [])"
  by (simp add: Node_dtor_def SubscribedTopics_def AdvertisedTopics_def AdvertisedServices_def Node_ctor_def)

lemma topic_partition_fqn:
  assumes "GetFullyQualifiedName p ns t = Some name" and "\<not> front_is CHR ''/'' p" and "\<not> back_is CHR ''/'' p"
  shows "topic_partition name = Inr p"
proof -
  have "p \<noteq> ''/''" using assms(2) by (auto simp: front_is_def)
  then show ?thesis using fqn_parts(2) [OF assms(1)] tl_norm_partition_id assms(2,3) by simp
qed

lemma in_concat_lines: "x \<in> set xs \<Longrightarrow> \<exists>a b. concat (map (\<lambda>y. y @ endl) xs) = a @ x @ endl @ b"
  by (induction xs) (auto, metis append.assoc)

text \<open>The command that lists the topics shows a topic that any process has advertised, as a
  line with its name without the partition, when the partition of the topic is the one of the
  environment, has no slash at its ends, and no topic with an empty name is known; and it leaves
  the process as it was.\<close>
theorem cmdTopicList_shows:
  assumes "GetFullyQualifiedName p ns t = Some name" and "vec (infoMsg (disc s)) name q \<noteq> []"
    and "env = Some p \<or> p = '''' \<and> env = None" and "\<not> front_is CHR ''/'' p" and "\<not> back_is CHR ''/'' p"
    and "'''' \<notin> fst ` set (infoMsg (disc s))"
  shows "\<exists>before after. cmdTopicList fails env u s =
    Inr (s, before @ strip_partition name @ endl @ after)"
proof -
  have "IsValidNamespace p" using assms(1) by (simp add: GetFullyQualifiedName_Some_iff)
  then have part: "nd_partition (Node_ctor env u) = p" using assms(3) by (auto simp: Node_ctor_def)
  have "name \<in> set (map fst (infoMsg (disc s)))"
    using assms(2) by (force simp: vec_def split: option.splits dest: map_of_SomeD)
  then have "strip_partition name \<in> set (map strip_partition
      (filter (\<lambda>t. topic_partition t = Inr p) (map fst (infoMsg (disc s)))))"
    using topic_partition_fqn [OF assms(1,4,5)] by auto
  from in_concat_lines [OF this] show ?thesis
    using assms(6)
    by (simp del: map_map add: cmdTopicList_def Node_GetTopicList_def list_loop_eq part Discovery_GetTopicList_def
        TopicStorage_GetTopicList_eq Node_dtor_fresh)
qed

lemma cmdTopicList_shows_witness:
  "\<exists>before after. cmdTopicList (\<lambda>_. False) None ''u'' proc_known = Inr (proc_known, before @ ''/t'' @ endl @ after)"
proof -
  have "GetFullyQualifiedName '''' '''' ''/t'' = Some ''@@/t''" by code_simp
  from cmdTopicList_shows [OF this, of proc_known "''B''" None "\<lambda>_. False" "''u''"]
  show ?thesis by (simp add: sample_names proc_known_def vec_def front_is_def back_is_def)
qed

end
