(* ===== verification/Locking.thy ===== *)
theory Locking
  imports Main
begin

text \<open>
  The two mutexes of a process: the one of \<^verbatim>\<open>Discovery\<close>, which \<^verbatim>\<open>Discovery::GetMutex\<close> gives to the
  nodes, and the one of \<^verbatim>\<open>NodeShared\<close>.  Both are recursive.  Here an operation is the sequence of
  its lock and unlock actions, through the calls it makes; what it does in between is the subject of
  the other theories.

  The operations that take both mutexes take the one of the discovery first.  Threads that only
  run such operations never block each other for good, whatever the schedule.  Two operations take
  them in the other order, and so does a user's callback that the reception thread runs when it
  calls an operation of the first kind; either can block the process for ever.
\<close>

datatype mutex = DiscMutex | SharedMutex

datatype lock_act = Lock mutex | Unlock mutex

text \<open>\<^verbatim>\<open>std::lock_guard\<close> around a block.\<close>

definition lock_guard :: "mutex \<Rightarrow> lock_act list \<Rightarrow> lock_act list" where
  "lock_guard m body = Lock m # body @ [Unlock m]"

subsection \<open>The operations of the discovery\<close>

text \<open>\<^verbatim>\<open>NodeShared::OnNewConnection\<close> and the other three callbacks, which the discovery runs.\<close>

definition OnNewConnection_locks :: "lock_act list" where
  "OnNewConnection_locks = lock_guard SharedMutex []"

text \<open>Operations that run no callback.\<close>

definition Discovery_Advertise_locks :: "lock_act list" where
  "Discovery_Advertise_locks = lock_guard DiscMutex []"

definition Discovery_Unadvertise_locks :: "lock_act list" where
  "Discovery_Unadvertise_locks = lock_guard DiscMutex []"

definition Discovery_GetTopicList_locks :: "lock_act list" where
  "Discovery_GetTopicList_locks = lock_guard DiscMutex []"

definition Discovery_GetServiceList_locks :: "lock_act list" where
  "Discovery_GetServiceList_locks = lock_guard DiscMutex []"

definition heartbeat_locks :: "lock_act list" where
  "heartbeat_locks = lock_guard DiscMutex []"

text \<open>Operations that run \<open>n\<close> callbacks.\<close>

definition Discover_locks :: "nat \<Rightarrow> lock_act list" where
  "Discover_locks n = lock_guard DiscMutex (concat (replicate n OnNewConnection_locks))"

definition DispatchDiscoveryMsg_locks :: "nat \<Rightarrow> lock_act list" where
  "DispatchDiscoveryMsg_locks n = lock_guard DiscMutex (concat (replicate n OnNewConnection_locks))"

definition activity_sweep_locks :: "nat \<Rightarrow> lock_act list" where
  "activity_sweep_locks n =
     Lock DiscMutex # concat (replicate n OnNewConnection_locks) @ [Unlock DiscMutex]"

subsection \<open>The operations of a node\<close>

text \<open>The argument \<open>cb\<close> is what the user's callbacks do that are run on the way.\<close>

definition Node_Advertise_locks :: "lock_act list" where
  "Node_Advertise_locks = lock_guard DiscMutex (lock_guard SharedMutex Discovery_Advertise_locks)"

definition Node_Unadvertise_locks :: "lock_act list" where
  "Node_Unadvertise_locks = lock_guard DiscMutex (lock_guard SharedMutex Discovery_Unadvertise_locks)"

definition Node_AdvertiseSrv_locks :: "lock_act list" where
  "Node_AdvertiseSrv_locks = lock_guard DiscMutex (lock_guard SharedMutex Discovery_Advertise_locks)"

definition Node_UnadvertiseSrv_locks :: "lock_act list" where
  "Node_UnadvertiseSrv_locks = lock_guard DiscMutex (lock_guard SharedMutex Discovery_Unadvertise_locks)"

definition Node_Subscribe_locks :: "nat \<Rightarrow> lock_act list" where
  "Node_Subscribe_locks n = lock_guard DiscMutex (lock_guard SharedMutex (Discover_locks n))"

text \<open>\<^verbatim>\<open>GetMsgAddresses\<close> and \<^verbatim>\<open>GetSrvAddresses\<close> read the storages without the mutex.\<close>

definition Node_Unsubscribe_locks :: "lock_act list" where
  "Node_Unsubscribe_locks = lock_guard SharedMutex []"

definition Node_Publish_locks :: "lock_act list \<Rightarrow> lock_act list" where
  "Node_Publish_locks cb = lock_guard SharedMutex cb"

definition Node_AdvertisedTopics_locks :: "lock_act list" where
  "Node_AdvertisedTopics_locks = lock_guard SharedMutex []"

definition Node_GetTopicList_locks :: "lock_act list" where
  "Node_GetTopicList_locks = lock_guard SharedMutex Discovery_GetTopicList_locks"

definition Node_GetServiceList_locks :: "lock_act list" where
  "Node_GetServiceList_locks = lock_guard SharedMutex Discovery_GetServiceList_locks"

text \<open>The three ways of a request: a responder in this process, one whose address is known, and
  none; in the last case the discovery runs \<open>n\<close> callbacks.\<close>

datatype request_path = Local "lock_act list" | Known | Unknown nat

fun find_responder_locks :: "request_path \<Rightarrow> lock_act list" where
  "find_responder_locks (Local cb) = cb"
| "find_responder_locks Known = []"
| "find_responder_locks (Unknown n) = Discover_locks n"

definition Node_Request_locks :: "request_path \<Rightarrow> lock_act list" where
  "Node_Request_locks r = lock_guard DiscMutex (lock_guard SharedMutex (find_responder_locks r))"

text \<open>The blocking request waits on a condition variable, which releases the mutex of the shared
  node in the meantime; the wait has a time limit, so it always ends.\<close>

definition Node_RequestWait_locks :: "request_path \<Rightarrow> lock_act list" where
  "Node_RequestWait_locks r =
     [Lock DiscMutex, Lock SharedMutex] @ find_responder_locks r @ [Unlock DiscMutex] @
     (case r of Local _ \<Rightarrow> [] | _ \<Rightarrow> [Unlock SharedMutex, Lock SharedMutex]) @ [Unlock SharedMutex]"

subsection \<open>The reception thread of the shared node\<close>

definition RecvMsgUpdate_locks :: "lock_act list \<Rightarrow> lock_act list" where
  "RecvMsgUpdate_locks cb = lock_guard SharedMutex cb"

definition RecvControlUpdate_locks :: "lock_act list" where
  "RecvControlUpdate_locks = lock_guard SharedMutex []"

definition RecvSrvRequest_locks :: "lock_act list \<Rightarrow> lock_act list" where
  "RecvSrvRequest_locks cb = lock_guard SharedMutex cb"

definition RecvSrvResponse_locks :: "lock_act list \<Rightarrow> lock_act list" where
  "RecvSrvResponse_locks cb = lock_guard SharedMutex cb"

subsection \<open>Programs\<close>

text \<open>A call of a user to the library.  The calls that a user's callback makes are an argument of
  the calls that run it.\<close>

datatype lib_call =
    CallAdvertise
  | CallUnadvertise
  | CallAdvertiseSrv
  | CallUnadvertiseSrv
  | CallSubscribe nat
  | CallUnsubscribe
  | CallNames
  | CallPublish "lib_call list"
  | CallRequestLocal "lib_call list"
  | CallRequestKnown
  | CallRequestUnknown nat
  | CallRequestWaitLocal "lib_call list"
  | CallRequestWaitKnown
  | CallRequestWaitUnknown nat
  | CallGetTopicList
  | CallGetServiceList

fun call_locks :: "lib_call \<Rightarrow> lock_act list" where
  "call_locks CallAdvertise = Node_Advertise_locks"
| "call_locks CallUnadvertise = Node_Unadvertise_locks"
| "call_locks CallAdvertiseSrv = Node_AdvertiseSrv_locks"
| "call_locks CallUnadvertiseSrv = Node_UnadvertiseSrv_locks"
| "call_locks (CallSubscribe n) = Node_Subscribe_locks n"
| "call_locks CallUnsubscribe = Node_Unsubscribe_locks"
| "call_locks CallNames = Node_AdvertisedTopics_locks"
| "call_locks (CallPublish cs) = Node_Publish_locks (concat (map call_locks cs))"
| "call_locks (CallRequestLocal cs) = Node_Request_locks (Local (concat (map call_locks cs)))"
| "call_locks CallRequestKnown = Node_Request_locks Known"
| "call_locks (CallRequestUnknown n) = Node_Request_locks (Unknown n)"
| "call_locks (CallRequestWaitLocal cs) = Node_RequestWait_locks (Local (concat (map call_locks cs)))"
| "call_locks CallRequestWaitKnown = Node_RequestWait_locks Known"
| "call_locks (CallRequestWaitUnknown n) = Node_RequestWait_locks (Unknown n)"
| "call_locks CallGetTopicList = Node_GetTopicList_locks"
| "call_locks CallGetServiceList = Node_GetServiceList_locks"

text \<open>What a thread of the process does in one go: a user's thread a call, the reception thread
  the processing of a message, the threads of the discovery a datagram or a round of their task.\<close>

datatype task =
    Client lib_call
  | RecvMsg "lib_call list"
  | RecvControl
  | RecvRequest "lib_call list"
  | RecvResponse "lib_call list"
  | DiscDatagram nat
  | DiscActivity nat
  | DiscHeartbeat

fun task_locks :: "task \<Rightarrow> lock_act list" where
  "task_locks (Client c) = call_locks c"
| "task_locks (RecvMsg cs) = RecvMsgUpdate_locks (concat (map call_locks cs))"
| "task_locks RecvControl = RecvControlUpdate_locks"
| "task_locks (RecvRequest cs) = RecvSrvRequest_locks (concat (map call_locks cs))"
| "task_locks (RecvResponse cs) = RecvSrvResponse_locks (concat (map call_locks cs))"
| "task_locks (DiscDatagram n) = DispatchDiscoveryMsg_locks n"
| "task_locks (DiscActivity n) = activity_sweep_locks n"
| "task_locks DiscHeartbeat = heartbeat_locks"

subsection \<open>Threads\<close>

text \<open>A thread holds mutexes, each as often as it has locked it, and has actions to do.  A mutex can
  be locked unless another thread holds it.\<close>

type_synonym thread = "mutex list \<times> lock_act list"

inductive lock_step :: "thread list \<Rightarrow> thread list \<Rightarrow> bool" where
  acquire: "i < length ts \<Longrightarrow> ts ! i = (h, Lock m # as) \<Longrightarrow>
    (\<And>j. j < length ts \<Longrightarrow> j \<noteq> i \<Longrightarrow> m \<notin> set (fst (ts ! j))) \<Longrightarrow>
    lock_step ts (ts[i := (m # h, as)])"
| release: "i < length ts \<Longrightarrow> ts ! i = (h, Unlock m # as) \<Longrightarrow>
    lock_step ts (ts[i := (remove1 m h, as)])"

definition start_threads :: "task list list \<Rightarrow> thread list" where
  "start_threads prog = map (\<lambda>tasks. ([], concat (map task_locks tasks))) prog"

definition finished :: "thread list \<Rightarrow> bool" where
  "finished ts \<longleftrightarrow> (\<forall>t \<in> set ts. snd t = [])"

definition deadlocked :: "thread list \<Rightarrow> bool" where
  "deadlocked ts \<longleftrightarrow> \<not> finished ts \<and> (\<forall>ts'. \<not> lock_step ts ts')"

definition remaining :: "thread list \<Rightarrow> nat" where
  "remaining ts = (\<Sum>t \<leftarrow> ts. length (snd t))"

subsection \<open>The order of the mutexes\<close>

text \<open>Runs a sequence that a thread does alone, as long as it keeps to the order: the mutex of the
  discovery is not taken for the first time while the other one is held.\<close>

fun run_order :: "mutex list \<Rightarrow> lock_act list \<Rightarrow> mutex list option" where
  "run_order h [] = Some h"
| "run_order h (Lock m # as) =
     (if m = DiscMutex \<and> SharedMutex \<in> set h \<and> DiscMutex \<notin> set h then None else run_order (m # h) as)"
| "run_order h (Unlock m # as) = (if m \<in> set h then run_order (remove1 m h) as else None)"

lemma run_order_append:
  "run_order h (a @ b) = (case run_order h a of None \<Rightarrow> None | Some h' \<Rightarrow> run_order h' b)"
  by (induction h a rule: run_order.induct) simp_all

lemma run_order_guard:
  assumes "m = DiscMutex \<Longrightarrow> SharedMutex \<in> set h \<Longrightarrow> DiscMutex \<in> set h"
    and "run_order (m # h) body = Some (m # h)"
  shows "run_order h (lock_guard m body) = Some h"
  using assms by (auto simp: lock_guard_def run_order_append)

lemma run_order_guard_shared:
  "run_order (SharedMutex # h) body = Some (SharedMutex # h) \<Longrightarrow>
     run_order h (lock_guard SharedMutex body) = Some h"
  by (rule run_order_guard) auto

lemma run_order_concat:
  "(\<And>a. a \<in> set as \<Longrightarrow> run_order h a = Some h) \<Longrightarrow> run_order h (concat as) = Some h"
  by (induction as) (simp_all add: run_order_append)

lemmas lock_defs =
  Discovery_Advertise_locks_def Discovery_Unadvertise_locks_def
  Discovery_GetTopicList_locks_def Discovery_GetServiceList_locks_def heartbeat_locks_def
  Discover_locks_def DispatchDiscoveryMsg_locks_def activity_sweep_locks_def
  Node_Advertise_locks_def Node_Unadvertise_locks_def Node_AdvertiseSrv_locks_def
  Node_UnadvertiseSrv_locks_def Node_Subscribe_locks_def Node_Unsubscribe_locks_def
  Node_Publish_locks_def Node_AdvertisedTopics_locks_def Node_GetTopicList_locks_def
  Node_GetServiceList_locks_def Node_Request_locks_def Node_RequestWait_locks_def
  RecvMsgUpdate_locks_def RecvControlUpdate_locks_def RecvSrvRequest_locks_def
  RecvSrvResponse_locks_def

text \<open>Callbacks of the discovery only take the second mutex, so they keep the order anywhere.\<close>

lemma run_order_callbacks [simp]:
  "run_order h (concat (replicate n OnNewConnection_locks)) = Some h"
  by (rule run_order_concat) (auto simp: OnNewConnection_locks_def lock_guard_def)

lemma run_order_Discover:
  "SharedMutex \<notin> set h \<or> DiscMutex \<in> set h \<Longrightarrow> run_order h (Discover_locks n) = Some h"
  unfolding Discover_locks_def by (rule run_order_guard) auto

text \<open>With the first mutex held, every call keeps the order.\<close>

lemma run_order_call_held: "DiscMutex \<in> set h \<Longrightarrow> run_order h (call_locks c) = Some h"
proof (induction c arbitrary: h rule: call_locks.induct)
  case (8 cs)
  have "run_order (SharedMutex # h) (concat (map call_locks cs)) = Some (SharedMutex # h)"
    by (rule run_order_concat) (use 8 in auto)
  then show ?case by (simp add: Node_Publish_locks_def run_order_guard_shared)
next
  case (9 cs)
  have "run_order (SharedMutex # DiscMutex # h) (concat (map call_locks cs)) = Some (SharedMutex # DiscMutex # h)"
    by (rule run_order_concat) (use 9 in auto)
  then show ?case using 9 by (simp add: Node_Request_locks_def run_order_guard)
next
  case (12 cs)
  have "run_order (SharedMutex # DiscMutex # h) (concat (map call_locks cs)) = Some (SharedMutex # DiscMutex # h)"
    by (rule run_order_concat) (use 12 in auto)
  then show ?case using 12 by (simp add: Node_RequestWait_locks_def run_order_append)
qed (simp_all add: lock_defs lock_guard_def run_order_append)

text \<open>A call that does not take it keeps the order anywhere.\<close>

fun takes_disc :: "lib_call \<Rightarrow> bool" where
  "takes_disc CallUnsubscribe = False"
| "takes_disc CallNames = False"
| "takes_disc (CallPublish cs) = (\<exists>c \<in> set cs. takes_disc c)"
| "takes_disc _ = True"

lemma run_order_call_free: "\<not> takes_disc c \<Longrightarrow> run_order h (call_locks c) = Some h"
proof (induction c arbitrary: h rule: takes_disc.induct)
  case (3 cs)
  have "run_order (SharedMutex # h) (concat (map call_locks cs)) = Some (SharedMutex # h)"
    by (rule run_order_concat) (use 3 in auto)
  then show ?case by (simp add: Node_Publish_locks_def run_order_guard_shared)
qed (simp_all add: lock_defs lock_guard_def run_order_append)

text \<open>The tasks that keep the order: no list of topics or services, and no call in a callback that
  takes the mutex of the discovery while only the other one is held.\<close>

fun polite_call :: "lib_call \<Rightarrow> bool" where
  "polite_call (CallPublish cs) = (\<forall>c \<in> set cs. \<not> takes_disc c)"
| "polite_call CallGetTopicList = False"
| "polite_call CallGetServiceList = False"
| "polite_call _ = True"

fun polite :: "task \<Rightarrow> bool" where
  "polite (Client c) = polite_call c"
| "polite (RecvMsg cs) = (\<forall>c \<in> set cs. \<not> takes_disc c)"
| "polite (RecvRequest cs) = (\<forall>c \<in> set cs. \<not> takes_disc c)"
| "polite (RecvResponse cs) = (\<forall>c \<in> set cs. \<not> takes_disc c)"
| "polite _ = True"

lemma run_order_callbacks_of_user:
  "\<forall>c \<in> set cs. \<not> takes_disc c \<Longrightarrow>
     run_order [] (lock_guard SharedMutex (concat (map call_locks cs))) = Some []"
  by (intro run_order_guard run_order_concat) (auto simp: run_order_call_free)

lemma run_order_nested:
  "run_order [SharedMutex, DiscMutex] body = Some [SharedMutex, DiscMutex] \<Longrightarrow>
     run_order [] (lock_guard DiscMutex (lock_guard SharedMutex body)) = Some []"
  by (intro run_order_guard) auto

lemma run_order_calls_held:
  "run_order [SharedMutex, DiscMutex] (concat (map call_locks cs)) = Some [SharedMutex, DiscMutex]"
  by (rule run_order_concat) (auto simp: run_order_call_held)

lemma run_order_polite_call: "polite_call c \<Longrightarrow> run_order [] (call_locks c) = Some []"
proof (cases c)
  case (CallPublish cs)
  assume "polite_call c"
  then show ?thesis using CallPublish run_order_callbacks_of_user by (simp add: Node_Publish_locks_def)
next
  case (CallRequestLocal cs)
  then show ?thesis by (simp add: Node_Request_locks_def run_order_nested run_order_calls_held)
next
  case (CallRequestWaitLocal cs)
  then show ?thesis
    using run_order_calls_held [of cs] by (simp add: Node_RequestWait_locks_def run_order_append)
qed (simp_all add: lock_defs lock_guard_def run_order_append)

lemma run_order_discovery:
  "run_order [] (lock_guard DiscMutex (concat (replicate n OnNewConnection_locks))) = Some []"
  by (rule run_order_guard) auto

lemma run_order_polite: "polite k \<Longrightarrow> run_order [] (task_locks k) = Some []"
proof (cases k)
  case RecvControl
  then show ?thesis by (simp add: RecvControlUpdate_locks_def lock_guard_def)
next
  case DiscHeartbeat
  then show ?thesis by (simp add: heartbeat_locks_def lock_guard_def)
qed (simp_all add: run_order_polite_call run_order_callbacks_of_user run_order_discovery
    RecvMsgUpdate_locks_def RecvSrvRequest_locks_def RecvSrvResponse_locks_def
    DispatchDiscoveryMsg_locks_def activity_sweep_locks_def lock_guard_def [symmetric] append_Cons)

subsection \<open>Threads that keep the order finish\<close>

definition threads_ok :: "thread list \<Rightarrow> bool" where
  "threads_ok ts \<longleftrightarrow> (\<forall>t \<in> set ts. run_order (fst t) (snd t) = Some []) \<and>
     (\<forall>i j. i < length ts \<longrightarrow> j < length ts \<longrightarrow> i \<noteq> j \<longrightarrow>
       set (fst (ts ! i)) \<inter> set (fst (ts ! j)) = {})"

lemma threads_ok_start:
  assumes "\<forall>tasks \<in> set prog. \<forall>k \<in> set tasks. polite k"
  shows "threads_ok (start_threads prog)"
proof -
  have "run_order [] (concat (map task_locks tasks)) = Some []" if "tasks \<in> set prog" for tasks
    using assms that by (intro run_order_concat) (auto simp: run_order_polite)
  then show ?thesis by (auto simp: threads_ok_def start_threads_def)
qed

text \<open>Replacing one thread by one that keeps the order and holds nothing that another one holds.\<close>

lemma threads_ok_update:
  assumes "threads_ok ts" and "run_order h' as = Some []"
    and "\<And>j. j < length ts \<Longrightarrow> j \<noteq> i \<Longrightarrow> set h' \<inter> set (fst (ts ! j)) = {}"
  shows "threads_ok (ts[i := (h', as)])"
  unfolding threads_ok_def
proof (intro conjI ballI allI impI)
  fix t assume "t \<in> set (ts[i := (h', as)])"
  then have "t = (h', as) \<or> t \<in> set ts" by (auto dest: subsetD [OF set_update_subset_insert])
  then show "run_order (fst t) (snd t) = Some []"
    using assms(1,2) by (auto simp: threads_ok_def)
next
  fix a b assume ab: "a < length (ts[i := (h', as)])" "b < length (ts[i := (h', as)])" "a \<noteq> b"
  then have "set (fst (ts ! a)) \<inter> set (fst (ts ! b)) = {}"
    using assms(1) by (simp add: threads_ok_def)
  then show "set (fst (ts[i := (h', as)] ! a)) \<inter> set (fst (ts[i := (h', as)] ! b)) = {}"
    using ab assms(3) [of a] assms(3) [of b] by (cases "a = i"; cases "b = i") auto
qed

lemma threads_okD:
  assumes "threads_ok ts" and "i < length ts" and "ts ! i = (h, as)"
  shows "run_order h as = Some []"
    and "\<And>j. j < length ts \<Longrightarrow> j \<noteq> i \<Longrightarrow> set h \<inter> set (fst (ts ! j)) = {}"
proof -
  have "(h, as) \<in> set ts" using assms(2,3) nth_mem by metis
  then show "run_order h as = Some []" using assms(1) by (auto simp: threads_ok_def)
  show "set h \<inter> set (fst (ts ! j)) = {}" if "j < length ts" "j \<noteq> i" for j
    using assms that unfolding threads_ok_def by (metis fst_conv)
qed

lemma threads_ok_step: "lock_step ts ts' \<Longrightarrow> threads_ok ts \<Longrightarrow> threads_ok ts'"
proof (induction rule: lock_step.induct)
  case (acquire i ts h m as)
  note ok = threads_okD [OF acquire.prems acquire.hyps(1,2)]
  show ?case
  proof (rule threads_ok_update [OF acquire.prems])
    show "run_order (m # h) as = Some []" using ok(1) by (simp split: if_splits)
    show "set (m # h) \<inter> set (fst (ts ! j)) = {}" if "j < length ts" "j \<noteq> i" for j
      using ok(2) [OF that] acquire.hyps(3) [OF that] by simp
  qed
next
  case (release i ts h m as)
  note ok = threads_okD [OF release.prems release.hyps(1,2)]
  show ?case
  proof (rule threads_ok_update [OF release.prems])
    show "run_order (remove1 m h) as = Some []" using ok(1) by (simp split: if_splits)
    show "set (remove1 m h) \<inter> set (fst (ts ! j)) = {}" if "j < length ts" "j \<noteq> i" for j
      using ok(2) [OF that] set_remove1_subset [of m h] by blast
  qed
qed

text \<open>A thread whose next action is possible.\<close>

definition enabled :: "thread list \<Rightarrow> nat \<Rightarrow> bool" where
  "enabled ts i \<longleftrightarrow> i < length ts \<and>
     (case snd (ts ! i) of
        [] \<Rightarrow> False
      | Unlock m # as \<Rightarrow> True
      | Lock m # as \<Rightarrow> \<forall>j < length ts. j \<noteq> i \<longrightarrow> m \<notin> set (fst (ts ! j)))"

lemma enabled_step:
  assumes "enabled ts i"
  shows "\<exists>ts'. lock_step ts ts'"
proof -
  obtain h as where t: "ts ! i = (h, as)" by fastforce
  have i: "i < length ts" using assms by (simp add: enabled_def)
  show ?thesis
  proof (cases as)
    case Nil
    then show ?thesis using assms t by (simp add: enabled_def)
  next
    case (Cons x as')
    show ?thesis
    proof (cases x)
      case (Lock m)
      then show ?thesis
        using lock_step.acquire [OF i, of h m as'] assms t Cons by (auto simp: enabled_def)
    next
      case (Unlock m)
      then show ?thesis using lock_step.release [OF i, of h m as'] t Cons by blast
    qed
  qed
qed

text \<open>Whoever holds a mutex has something left to do, and whoever holds the second one can do it.\<close>

lemma holder_enabled:
  assumes "threads_ok ts" and "i < length ts" and "SharedMutex \<in> set (fst (ts ! i)) \<or>
      DiscMutex \<in> set (fst (ts ! i)) \<and> (\<forall>j < length ts. SharedMutex \<notin> set (fst (ts ! j)))"
  shows "enabled ts i"
proof -
  obtain h as where t: "ts ! i = (h, as)" by fastforce
  note ok = threads_okD [OF assms(1,2) t]
  have held: "m \<in> set h \<Longrightarrow> j < length ts \<Longrightarrow> j \<noteq> i \<Longrightarrow> m \<notin> set (fst (ts ! j))" for m j
    using ok(2) by blast
  show ?thesis
  proof (cases as)
    case Nil
    then show ?thesis using ok(1) assms(3) t by simp
  next
    case (Cons x as')
    show ?thesis
    proof (cases x)
      case (Lock m)
      have "m \<in> set h \<or> (\<forall>j < length ts. m \<notin> set (fst (ts ! j)))"
        using ok(1) assms(3) t Cons Lock by (cases m) (auto split: if_splits)
      then show ?thesis using held assms(2) t Cons Lock by (auto simp: enabled_def)
    next
      case (Unlock m)
      then show ?thesis using assms(2) t Cons by (simp add: enabled_def)
    qed
  qed
qed

lemma threads_ok_progress:
  assumes "threads_ok ts" and "\<not> finished ts"
  shows "\<exists>ts'. lock_step ts ts'"
proof (cases "\<exists>i < length ts. fst (ts ! i) \<noteq> []")
  case True
  then obtain i m where i: "i < length ts" "m \<in> set (fst (ts ! i))"
    by (metis list.set_intros(1) neq_Nil_conv)
  show ?thesis
  proof (cases "\<exists>j < length ts. SharedMutex \<in> set (fst (ts ! j))")
    case True
    then show ?thesis using holder_enabled [OF assms(1)] enabled_step by blast
  next
    case False
    then have "m = DiscMutex" using i by (cases m) auto
    then show ?thesis using holder_enabled [OF assms(1) i(1)] enabled_step i(2) False by blast
  qed
next
  case False
  from assms(2) obtain i where i: "i < length ts" "snd (ts ! i) \<noteq> []"
    by (auto simp: finished_def in_set_conv_nth)
  have "enabled ts i"
    using i False by (auto simp: enabled_def split: list.splits lock_act.splits)
  then show ?thesis by (rule enabled_step)
qed

text \<open>Every step does one of the actions that are left.\<close>

lemma remaining_update:
  assumes "i < length ts" and "ts ! i = (h, x # as)"
  shows "remaining ts = Suc (remaining (ts[i := (h', as)]))"
  using assms
proof (induction ts arbitrary: i)
  case (Cons t ts)
  then show ?case by (cases i) (auto simp: remaining_def)
qed simp

lemma remaining_step: "lock_step ts ts' \<Longrightarrow> remaining ts = Suc (remaining ts')"
  by (induction rule: lock_step.induct) (rule remaining_update; assumption)+

lemma finished_remaining: "finished ts \<longleftrightarrow> remaining ts = 0"
  by (auto simp: finished_def remaining_def)

lemma threads_ok_steps: "lock_step\<^sup>*\<^sup>* ts ts' \<Longrightarrow> threads_ok ts \<Longrightarrow> threads_ok ts'"
  by (induction rule: rtranclp_induct) (auto intro: threads_ok_step)

lemma threads_ok_finish:
  "threads_ok ts \<Longrightarrow> \<exists>ts'. (lock_step ^^ remaining ts) ts ts' \<and> finished ts'"
proof (induction "remaining ts" arbitrary: ts)
  case 0
  then show ?case by (metis finished_remaining relpowp_0_I)
next
  case (Suc n)
  then have "\<not> finished ts" by (simp add: finished_remaining)
  then obtain t1 where t1: "lock_step ts t1" using threads_ok_progress Suc.prems by blast
  then have "remaining t1 = n" using remaining_step Suc.hyps(2) by fastforce
  then obtain ts' where "(lock_step ^^ n) t1 ts'" "finished ts'"
    using Suc.hyps(1) threads_ok_step [OF t1 Suc.prems] by blast
  then have "(lock_step ^^ Suc n) ts ts'" using t1 by (blast intro: relpowp_Suc_I2)
  then show ?case using Suc.hyps(2) \<open>finished ts'\<close> by auto
qed

subsection \<open>Properties\<close>

text \<open>C15 The order of the mutexes rules out deadlocks: any number of threads that run any
  sequences of operations, without the two lists and without callbacks that take the mutex of the
  discovery while only the other one is held, are never deadlocked, and from every state they
  reach, however they were scheduled, they finish after exactly as many steps as actions are left.\<close>
theorem ordered_threads_finish:
  assumes "\<forall>tasks \<in> set prog. \<forall>k \<in> set tasks. polite k"
    and "lock_step\<^sup>*\<^sup>* (start_threads prog) ts"
  shows "\<not> deadlocked ts \<and> (\<exists>ts'. (lock_step ^^ remaining ts) ts ts' \<and> finished ts')"
proof -
  have "threads_ok ts"
    using threads_ok_steps [OF assms(2)] threads_ok_start [OF assms(1)] by blast
  then show ?thesis
    using threads_ok_progress [of ts] threads_ok_finish [of ts] by (auto simp: deadlocked_def)
qed

text \<open>A datagram that makes two callbacks run, a subscription, a blocking request, and a message
  whose callback publishes.\<close>
lemma ordered_threads_finish_witness:
  "\<exists>ts'. (lock_step ^^ remaining (start_threads [[DiscDatagram 2], [Client (CallSubscribe 1),
        Client CallRequestWaitKnown], [RecvMsg [CallPublish []]]]))
      (start_threads [[DiscDatagram 2], [Client (CallSubscribe 1), Client CallRequestWaitKnown],
        [RecvMsg [CallPublish []]]]) ts' \<and> finished ts'"
  by (rule ordered_threads_finish [THEN conjunct2]) (auto intro: rtranclp.rtrancl_refl)

text \<open>The end of a run in which two threads wait for each other.\<close>

definition crossed :: "lock_act list \<Rightarrow> lock_act list \<Rightarrow> thread list" where
  "crossed as bs = [([SharedMutex], Lock DiscMutex # as), ([DiscMutex], Lock SharedMutex # bs)]"

lemma crossed_deadlocked: "deadlocked (crossed as bs)"
proof -
  have "\<not> lock_step (crossed as bs) ts'" for ts'
  proof
    assume "lock_step (crossed as bs) ts'"
    then show False
    proof cases
      case (acquire i h m cs)
      have "i = 0 \<or> i = 1" using acquire(2) by (auto simp: crossed_def)
      then show False
        using acquire(3) acquire(4) [of 0] acquire(4) [of 1] by (auto simp: crossed_def)
    next
      case (release i h m cs)
      have "i = 0 \<or> i = 1" using release(2) by (auto simp: crossed_def)
      then show False using release(3) by (auto simp: crossed_def)
    qed
  qed
  then show ?thesis by (auto simp: deadlocked_def crossed_def finished_def)
qed

lemma crossed_reachable:
  "lock_step\<^sup>*\<^sup>* [([], Lock SharedMutex # Lock DiscMutex # as), ([], Lock DiscMutex # Lock SharedMutex # bs)]
     (crossed as bs)"
proof -
  let ?t0 = "[([], Lock SharedMutex # Lock DiscMutex # as), ([], Lock DiscMutex # Lock SharedMutex # bs)]"
  have 1: "lock_step ?t0 (?t0[0 := ([SharedMutex], Lock DiscMutex # as)])"
    by (rule lock_step.acquire) (auto simp: less_Suc_eq)
  let ?t1 = "[([SharedMutex], Lock DiscMutex # as), ([], Lock DiscMutex # Lock SharedMutex # bs)]"
  have 2: "lock_step ?t1 (?t1[1 := ([DiscMutex], Lock SharedMutex # bs)])"
    by (rule lock_step.acquire) (auto simp: less_Suc_eq)
  show ?thesis using 1 2 by (auto simp: crossed_def intro: converse_rtranclp_into_rtranclp)
qed

text \<open>C16 Asking for the list of topics can block the process for ever: a thread that asks has
  locked the shared node and waits for the discovery, while the thread that received a datagram
  with a new publisher has locked the discovery and waits in its callback for the shared node.\<close>
theorem GetTopicList_deadlock:
  "\<exists>ts. lock_step\<^sup>*\<^sup>* (start_threads [[Client CallGetTopicList], [DiscDatagram 1]]) ts \<and> deadlocked ts"
proof -
  have "start_threads [[Client CallGetTopicList], [DiscDatagram 1]] =
      [([], Lock SharedMutex # Lock DiscMutex # [Unlock DiscMutex, Unlock SharedMutex]),
       ([], Lock DiscMutex # Lock SharedMutex # [Unlock SharedMutex, Unlock DiscMutex])]"
    by (simp add: start_threads_def lock_defs OnNewConnection_locks_def lock_guard_def)
  then show ?thesis using crossed_reachable crossed_deadlocked by metis
qed

text \<open>A subscriber whose callback advertises a topic can block the process for ever: the
  reception thread runs the callback with the shared node locked, and the advertisement waits for
  the discovery, while another thread that subscribes has locked the discovery and waits for the
  shared node.\<close>
theorem callback_deadlock:
  "\<exists>ts. lock_step\<^sup>*\<^sup>* (start_threads [[RecvMsg [CallAdvertise]], [Client (CallSubscribe 0)]]) ts \<and>
     deadlocked ts"
proof -
  have "start_threads [[RecvMsg [CallAdvertise]], [Client (CallSubscribe 0)]] =
      [([], Lock SharedMutex # Lock DiscMutex # [Lock SharedMutex, Lock DiscMutex, Unlock DiscMutex,
         Unlock SharedMutex, Unlock DiscMutex, Unlock SharedMutex]),
       ([], Lock DiscMutex # Lock SharedMutex # [Lock DiscMutex, Unlock DiscMutex,
         Unlock SharedMutex, Unlock DiscMutex])]"
    by (simp add: start_threads_def lock_defs lock_guard_def)
  then show ?thesis using crossed_reachable crossed_deadlocked by metis
qed

end
