(* ===== verification/Lifecycle.thy ===== *)
theory Lifecycle
  imports ProcessInvariant
begin

text \<open>
  How a process begins and ends: the constructors of \<^verbatim>\<open>Discovery\<close> and \<^verbatim>\<open>NodeShared\<close> with the calls to
  the operating system and to 0MQ in their order, the loops of the four threads that they start, and the
  destructors.  Which calls fail is a parameter; what is modelled is what the code does then.
\<close>

subsection \<open>Setting up the discovery\<close>

definition MulticastGroup :: string where "MulticastGroup = ''224.0.0.7''"
definition DiscoveryPort :: nat where "DiscoveryPort = 11319"

datatype socket_call =
    UdpSocket
  | ReuseAddr
  | ReusePort
  | MulticastIf string
  | AddMembership string string
  | BindPort nat

text \<open>The calls, in the order of the constructor; \<open>reuse_port\<close> is whether the platform defines
  \<^verbatim>\<open>SO_REUSEPORT\<close>.\<close>

definition socket_calls :: "bool \<Rightarrow> string \<Rightarrow> socket_call list" where
  "socket_calls reuse_port host =
     [UdpSocket, ReuseAddr] @ (if reuse_port then [ReusePort] else []) @
     [MulticastIf host, AddMembership MulticastGroup host, BindPort DiscoveryPort]"

text \<open>Calls are made up to the first that fails.\<close>

fun until_failure :: "('c \<Rightarrow> bool) \<Rightarrow> 'c list \<Rightarrow> 'c list \<times> bool" where
  "until_failure fails [] = ([], True)"
| "until_failure fails (c # cs) =
     (if fails c then ([c], False)
      else let (made, ok) = until_failure fails cs in (c # made, ok))"

text \<open>The object: its data, and whether the pointers to the three threads are set.  The constructor
  returns early when a call fails, with the pointers still null.\<close>

record discovery_object =
  contents :: discovery
  threads_started :: bool

definition Discovery_create ::
    "(socket_call \<Rightarrow> bool) \<Rightarrow> bool \<Rightarrow> string \<Rightarrow> bool \<Rightarrow> string \<Rightarrow> discovery_object \<times> socket_call list" where
  "Discovery_create fails reuse_port u verb host =
     (let (made, ok) = until_failure fails (socket_calls reuse_port host)
      in (\<lparr>contents = Discovery_ctor u verb host, threads_started = ok\<rparr>, made))"

text \<open>The destructor joins the threads through the pointers, whatever they are.\<close>

definition Discovery_destroy :: "discovery_object \<Rightarrow> (discovery \<times> event list) res" where
  "Discovery_destroy obj =
     (if threads_started obj then Discovery_dtor (contents obj) else Inl NullPointer)"

text \<open>The overloads for member functions; a bound function is never empty.\<close>

definition SetConnectionsCb_method :: "discovery \<Rightarrow> discovery" where
  "SetConnectionsCb_method d = SetConnectionsCb True d"

definition SetDisconnectionsCb_method :: "discovery \<Rightarrow> discovery" where
  "SetDisconnectionsCb_method d = SetDisconnectionsCb True d"

definition SetConnectionsSrvCb_method :: "discovery \<Rightarrow> discovery" where
  "SetConnectionsSrvCb_method d = SetConnectionsSrvCb True d"

definition SetDisconnectionsSrvCb_method :: "discovery \<Rightarrow> discovery" where
  "SetDisconnectionsSrvCb_method d = SetDisconnectionsSrvCb True d"

subsection \<open>The loops of the threads\<close>

text \<open>
  A loop that may run forever: what it meets is given round by round, the input of the round and
  what the other threads do to the shared state while this one sleeps or waits.  The result is the
  state, the events, and whether the loop has ended; it has not when the rounds are used up.
\<close>

fun task_loop ::
    "('s \<Rightarrow> bool) \<Rightarrow> ('i \<Rightarrow> 's \<Rightarrow> ('s \<times> 'e list) res) \<Rightarrow> ('i \<times> ('s \<Rightarrow> 's)) list \<Rightarrow> 's
      \<Rightarrow> ('s \<times> 'e list \<times> bool) res" where
  "task_loop stop body [] s = Inr (s, [], False)"
| "task_loop stop body ((i, others) # rounds) s =
     rbind (body i s) (\<lambda>(s, e).
     let s = others s
     in if stop s then Inr (s, e, True)
        else rbind (task_loop stop body rounds s) (\<lambda>(s, e', b). Inr (s, e @ e', b)))"

definition RunActivityTask ::
    "(int \<Rightarrow> int) \<Rightarrow> (int \<times> (discovery \<Rightarrow> discovery)) list \<Rightarrow> discovery \<Rightarrow> (discovery \<times> event list \<times> bool) res" where
  "RunActivityTask to_ms = task_loop exit_flag (\<lambda>now d. activity_sweep to_ms now d)"

definition RunHeartbeatTask ::
    "(unit \<times> (discovery \<Rightarrow> discovery)) list \<Rightarrow> discovery \<Rightarrow> (discovery \<times> event list \<times> bool) res" where
  "RunHeartbeatTask = task_loop exit_flag (\<lambda>_ d. rbind (heartbeat d) (\<lambda>e. Inr (d, e)))"

text \<open>\<open>None\<close> is a poll that times out; otherwise the time, the bytes that the receive buffer held
  before, and what \<^verbatim>\<open>recvfrom\<close> gives.\<close>

definition Discovery_RunReceptionTask ::
    "((int \<times> string \<times> (string \<times> string) option) option \<times> (discovery \<Rightarrow> discovery)) list \<Rightarrow> discovery
      \<Rightarrow> (discovery \<times> event list \<times> bool) res" where
  "Discovery_RunReceptionTask = task_loop exit_flag (\<lambda>input d.
     case input of
       None \<Rightarrow> Inr (d, [])
     | Some (now, stack, r) \<Rightarrow> RecvDiscoveryUpdate now stack r d)"

text \<open>The thread of the shared node has an exit flag of its own.\<close>

definition NodeShared_RunReceptionTask ::
    "('m io \<Rightarrow> bool) \<Rightarrow> ((bool \<times> (string \<times> string \<times> string) option \<times> (string \<times> string \<times> string \<times> string) option \<times>
        (string \<times> string \<times> string \<times> string \<times> string \<times> string) option \<times>
        (string \<times> string \<times> string \<times> string \<times> string) option) \<times>
       ('m node_shared \<times> bool \<Rightarrow> 'm node_shared \<times> bool)) list
      \<Rightarrow> 'm node_shared \<times> bool \<Rightarrow> (('m node_shared \<times> bool) \<times> 'm io list \<times> bool) res" where
  "NodeShared_RunReceptionTask fails = task_loop snd (\<lambda>(result0, msg, control, req, rep) (s, ex).
     rbind (reception_round fails result0 msg control req rep s) (\<lambda>(s, e). Inr ((s, ex), e)))"

subsection \<open>Setting up the shared node\<close>

datatype zmq_socket = Publisher | Control | ResponseReceiver | Replier | Requester

datatype zmq_call =
    Linger zmq_socket
  | Identity zmq_socket string
  | RouterMandatory zmq_socket
  | BindTo zmq_socket string
  | LastEndpoint zmq_socket

definition zmq_calls :: "string \<Rightarrow> string \<Rightarrow> string \<Rightarrow> zmq_call list" where
  "zmq_calls host id_resp id_rep =
     (let anyTcpEp = ''tcp://'' @ host @ '':*''
      in [Linger Publisher, BindTo Publisher anyTcpEp, LastEndpoint Publisher,
          BindTo Control anyTcpEp, LastEndpoint Control,
          Identity ResponseReceiver id_resp, BindTo ResponseReceiver anyTcpEp, LastEndpoint ResponseReceiver,
          Identity Replier id_rep, Linger Replier, RouterMandatory Replier, BindTo Replier anyTcpEp,
          LastEndpoint Replier, Linger Requester, RouterMandatory Requester])"

text \<open>The process ends with \<^verbatim>\<open>std::exit\<close> when a call to 0MQ throws.\<close>

datatype 'a created = Created 'a | ExitFailure

text \<open>The constructor: \<open>endpoint\<close> is what 0MQ gives as the last end point of a socket, and the two
  sets of failures are those of the discovery's socket and of the 0MQ calls.\<close>

definition NodeShared_create ::
    "(socket_call \<Rightarrow> bool) \<Rightarrow> bool \<Rightarrow> (zmq_call \<Rightarrow> bool) \<Rightarrow> (zmq_socket \<Rightarrow> string) \<Rightarrow> string \<Rightarrow> string \<Rightarrow> string \<Rightarrow> string
      \<Rightarrow> ('m node_shared \<times> bool) created \<times> zmq_call list" where
  "NodeShared_create sock_fails reuse_port zmq_fails endpoint u host id_resp id_rep =
     (let (obj, _) = Discovery_create sock_fails reuse_port u False host;
          (made, ok) = until_failure zmq_fails (zmq_calls (hostAddr (contents obj)) id_resp id_rep)
      in if \<not> ok then (ExitFailure, made)
         else
           let d = SetDisconnectionsSrvCb_method (SetConnectionsSrvCb_method (SetDisconnectionsCb_method
                 (SetConnectionsCb_method (contents obj))))
           in (Created
                 (\<lparr>ns_pUuid = u, myAddress = endpoint Publisher, myControlAddress = endpoint Control,
                   myRequesterAddress = endpoint ResponseReceiver, myReplierAddress = endpoint Replier,
                   responseReceiverId = id_resp, replierId = id_rep, disc = d, connections = [], srvConnections = [],
                   remoteSubscribers = [], localSubscriptions = [], repliers = [], requests = [], heap = []\<rparr>,
                  threads_started obj), made))"

text \<open>The destructor sets the flag, waits for its thread, and destroys the discovery, a member.\<close>

definition NodeShared_destroy :: "'m node_shared \<times> bool \<Rightarrow> (discovery \<times> event list) res" where
  "NodeShared_destroy s = Discovery_destroy \<lparr>contents = disc (fst s), threads_started = snd s\<rparr>"

text \<open>The function-local static object: created on the first call.\<close>

definition GetInstance :: "'s \<Rightarrow> 's option \<Rightarrow> 's \<times> 's option" where
  "GetInstance create inst =
     (case inst of Some s \<Rightarrow> (s, inst) | None \<Rightarrow> (create, Some create))"

subsection \<open>Properties\<close>

lemma until_failure_spec:
  "until_failure fails cs = (if \<exists>c \<in> set cs. fails c
     then (takeWhile (\<lambda>c. \<not> fails c) cs @ [hd (dropWhile (\<lambda>c. \<not> fails c) cs)], False) else (cs, True))"
  by (induction cs) auto

lemma methods [simp]:
  "SetConnectionsCb_method = SetConnectionsCb True" "SetDisconnectionsCb_method = SetDisconnectionsCb True"
  "SetConnectionsSrvCb_method = SetConnectionsSrvCb True" "SetDisconnectionsSrvCb_method = SetDisconnectionsSrvCb True"
  by (simp_all add: fun_eq_iff SetConnectionsCb_method_def SetDisconnectionsCb_method_def
      SetConnectionsSrvCb_method_def SetDisconnectionsSrvCb_method_def)

lemma NodeShared_create_eq:
  "NodeShared_create sock_fails reuse_port zmq_fails endpoint u host id_resp id_rep =
    (let (made, ok) = until_failure zmq_fails (zmq_calls host id_resp id_rep)
     in (if ok then Created (NodeShared_ctor u host (endpoint Publisher) (endpoint Control) (endpoint ResponseReceiver)
           (endpoint Replier) id_resp id_rep, snd (until_failure sock_fails (socket_calls reuse_port host)))
         else ExitFailure, made))"
  by (simp add: NodeShared_create_def Discovery_create_def NodeShared_ctor_def Let_def case_prod_unfold
      Discovery_ctor_def)

text \<open>Starting a process.  The constructor makes the calls to 0MQ in their order.  When one
  fails, the process exits: nothing after the first that fails is called, and no shared node comes to be.
  Otherwise all are made, and the process starts in the first of the states of \<open>process_reachable\<close>,
  with the end points that 0MQ has chosen; that the discovery could not set up its socket, so that
  its threads do not run, does not stop it.\<close>
theorem process_start:
  "NodeShared_create sock_fails reuse_port zmq_fails endpoint u host id_resp id_rep =
    (let calls = zmq_calls host id_resp id_rep
     in if \<exists>c \<in> set calls. zmq_fails c
        then (ExitFailure, takeWhile (\<lambda>c. \<not> zmq_fails c) calls @ [hd (dropWhile (\<lambda>c. \<not> zmq_fails c) calls)])
        else (Created (NodeShared_ctor u host (endpoint Publisher) (endpoint Control) (endpoint ResponseReceiver)
                (endpoint Replier) id_resp id_rep, \<not> (\<exists>c \<in> set (socket_calls reuse_port host). sock_fails c)),
              calls))"
  by (simp add: NodeShared_create_eq until_failure_spec Let_def)

text \<open>C22 A discovery without a socket ends in a crash.  When any call that sets up the socket
  of the discovery fails, for instance because the host has no route for multicast, the process starts
  all the same, with a discovery whose constructor has returned early; and whatever the process does
  afterwards, its end dereferences the null pointers to the threads that were never started.\<close>
theorem failed_discovery_setup:
  assumes "c \<in> set (socket_calls reuse_port host)" and "sock_fails c"
    and "\<And>x. x \<in> set (zmq_calls host id_resp id_rep) \<Longrightarrow> \<not> zmq_fails x"
  shows "\<exists>s. NodeShared_create sock_fails reuse_port zmq_fails endpoint u host id_resp id_rep =
      (Created (s, False), zmq_calls host id_resp id_rep) \<and> process_reachable s \<and>
    NodeShared_destroy (s', False) = Inl NullPointer"
  using assms
  by (auto simp: NodeShared_create_eq until_failure_spec NodeShared_destroy_def Discovery_destroy_def
      intro: process_reachable_start)

lemma failed_discovery_setup_witness:
  "\<exists>s. NodeShared_create (\<lambda>c. c = AddMembership ''224.0.0.7'' ''10.0.0.1'') True (\<lambda>_. False)
       (\<lambda>_. ''tcp://10.0.0.1:5000'') ''A'' ''10.0.0.1'' ''i1'' ''i2'' =
     (Created (s :: string node_shared, False), zmq_calls ''10.0.0.1'' ''i1'' ''i2'') \<and>
     NodeShared_destroy (proc0 ''A'', False) = Inl NullPointer"
proof -
  have c: "AddMembership ''224.0.0.7'' ''10.0.0.1'' \<in> set (socket_calls True ''10.0.0.1'')"
    by (simp add: socket_calls_def MulticastGroup_def)
  show ?thesis
    using failed_discovery_setup [OF c, of "\<lambda>c. c = AddMembership ''224.0.0.7'' ''10.0.0.1''" "''i1''" "''i2''"
        "\<lambda>_. False" "\<lambda>_. ''tcp://10.0.0.1:5000''" "''A''" "proc0 ''A''"] by auto
qed

lemma task_loop_end:
  assumes "\<And>s. stop (oth s)"
  shows "task_loop stop body (xs @ (i, oth) # ys) s = task_loop stop body (xs @ [(i, oth)]) s"
    and "task_loop stop body (xs @ [(i, oth)]) s = Inr (s', e, b) \<Longrightarrow> b"
  using assms
proof (induction xs arbitrary: s e)
  case Nil
  {
    case 1
    then show ?case by simp
  next
    case 2
    then show ?case by (auto simp: rbind_eq_Inr_iff Let_def)
  }
next
  case (Cons x xs)
  {
    case 1
    have "task_loop stop body (xs @ (i, oth) # ys) = task_loop stop body (xs @ [(i, oth)])"
      by (rule ext) (rule Cons.IH(1), rule 1)
    then show ?case by (cases x) (simp add: Let_def cong: if_cong)
  next
    case 2
    then show ?case
      using Cons.IH(2) by (cases x) (auto simp: rbind_eq_Inr_iff Let_def split: if_splits)
  }
qed

text \<open>C23 Every thread ends.  Once the exit flag is set, at the latest after some round, each of
  the four threads returns at the end of that round at the latest: what would come after it makes no
  difference, and the loop has ended unless a round threw.  So joining them in the destructors returns,
  after one sleep or one poll with its time limit.\<close>
theorem threads_end:
  fixes to_ms :: "int \<Rightarrow> int" and fails :: "'m io \<Rightarrow> bool"
  assumes "\<And>d. exit_flag (others d)" and "\<And>s. snd (others' s)"
  shows "RunActivityTask to_ms (xs @ (now, others) # ys) d = RunActivityTask to_ms (xs @ [(now, others)]) d \<and>
    RunHeartbeatTask (us @ ((), others) # vs) d = RunHeartbeatTask (us @ [((), others)]) d \<and>
    Discovery_RunReceptionTask (rs @ (r, others) # ts) d = Discovery_RunReceptionTask (rs @ [(r, others)]) d \<and>
    NodeShared_RunReceptionTask fails (ns @ (n, others') # ms) s = NodeShared_RunReceptionTask fails (ns @ [(n, others')]) s \<and>
    (\<forall>d' e. RunActivityTask to_ms (xs @ [(now, others)]) d \<noteq> Inr (d', e, False)) \<and>
    (\<forall>d' e. RunHeartbeatTask (us @ [((), others)]) d \<noteq> Inr (d', e, False)) \<and>
    (\<forall>d' e. Discovery_RunReceptionTask (rs @ [(r, others)]) d \<noteq> Inr (d', e, False)) \<and>
    (\<forall>s' e. NodeShared_RunReceptionTask fails (ns @ [(n, others')]) s \<noteq> Inr (s', e, False))"
proof -
  note ends = task_loop_end [of exit_flag others, OF assms(1)] task_loop_end [of snd others', OF assms(2)]
  show ?thesis
    unfolding RunActivityTask_def RunHeartbeatTask_def Discovery_RunReceptionTask_def NodeShared_RunReceptionTask_def
    by (intro conjI allI notI ends(1,3)) ((drule ends(2,4), simp)+)
qed

lemma threads_end_witness:
  "\<exists>d'. RunActivityTask (\<lambda>x. x) [(0, \<lambda>d. d\<lparr>exit_flag := True\<rparr>), (7, id)] (disc (proc0 ''A'')) = Inr (d', [], True)"
proof -
  have "RunActivityTask (\<lambda>x. x) ([] @ (0, \<lambda>d. d\<lparr>exit_flag := True\<rparr>) # [(7, id)]) (disc (proc0 ''A'')) =
      RunActivityTask (\<lambda>x. x) ([] @ [(0, \<lambda>d. d\<lparr>exit_flag := True\<rparr>)]) (disc (proc0 ''A''))"
    by (rule threads_end [where others' = "\<lambda>s. (fst s, True)", THEN conjunct1]) simp_all
  moreover have "activity (disc (proc0 ''A'')) = []"
    by (simp add: proc0_def NodeShared_ctor_def Discovery_ctor_def SetConnectionsCb_def SetDisconnectionsCb_def
        SetConnectionsSrvCb_def SetDisconnectionsSrvCb_def)
  ultimately show ?thesis by (simp add: RunActivityTask_def activity_sweep_def)
qed

end
