(* ===== verification/Network.thy ===== *)
theory Network
  imports DiscoveryCorrect
begin

text \<open>
  Many processes and the multicast group between them.  A state of the network holds the discovery
  of every process that runs, all datagrams sent so far with the address they come from, and a
  log of what the clients have advertised.  A process performs the steps of \<^verbatim>\<open>Discovery\<close>, each under
  its mutex; a datagram that has been sent may be received by any process, late, twice, in another
  order or never, as UDP has it.  Nobody else sends to the group.

  The steps are the byte-level ones; a client advertises and asks for what fits in a datagram that
  the receiver's buffer holds.
\<close>

record network =
  procs :: "string \<Rightarrow> discovery option"
  sent :: "(string \<times> string) set"
  logged :: "(msg_kind \<times> string \<times> string \<times> address) set"

definition net0 :: network where
  "net0 = \<lparr>procs = (\<lambda>_. None), sent = {}, logged = {}\<rparr>"

definition transmittable :: "string \<Rightarrow> dmsg \<Rightarrow> bool" where
  "transmittable p m \<longleftrightarrow> sendable p m \<and> length (dmsg_wire p m) \<le> MaxRcvStr"

text \<open>What a process does on its own, without the receptions.\<close>

fun local_op :: "string \<Rightarrow> discovery_op \<Rightarrow> bool" where
  "local_op p (DoAdvertise k t a c n sc) \<longleftrightarrow> transmittable p (Advertised k t a c n sc)"
| "local_op p (DoDiscover t isSrv) \<longleftrightarrow> transmittable p (Requested (if isSrv then Srv else Msg) t)"
| "local_op p (DoReceive now stack r) \<longleftrightarrow> False"
| "local_op p _ \<longleftrightarrow> True"

fun op_log :: "string \<Rightarrow> discovery_op \<Rightarrow> (msg_kind \<times> string \<times> string \<times> address) set" where
  "op_log p (DoAdvertise k t a c n sc) = {(k, t, p, \<lparr>addr = a, ctrl = c, nUuid = n, scope = sc\<rparr>)}"
| "op_log p _ = {}"

definition broadcast :: "string \<Rightarrow> event list \<Rightarrow> (string \<times> string) set" where
  "broadcast ip e = {(ip, b) | b. Send b \<in> set e}"

text \<open>\<open>host\<close> gives the address of the host that a process runs on.\<close>

inductive net_step :: "(string \<Rightarrow> string) \<Rightarrow> (int \<Rightarrow> int) \<Rightarrow> network \<Rightarrow> network \<Rightarrow> bool"
  for host :: "string \<Rightarrow> string" and to_ms :: "int \<Rightarrow> int" where
  start: "procs N p = None \<Longrightarrow> transmittable p Heartbeat \<Longrightarrow>
    net_step host to_ms N (N\<lparr>procs := (procs N)(p \<mapsto> Discovery_ctor p verb (host p))\<rparr>)"
| client: "procs N p = Some d \<Longrightarrow> local_op p op \<Longrightarrow> discovery_step to_ms op d = Inr (d', e) \<Longrightarrow>
    net_step host to_ms N (N\<lparr>procs := (procs N)(p \<mapsto> d'), sent := sent N \<union> broadcast (host p) e,
      logged := logged N \<union> op_log p op\<rparr>)"
| receive: "procs N q = Some d \<Longrightarrow> (ip, b) \<in> sent N \<Longrightarrow>
    RecvDiscoveryUpdate now stack (Some (ip, b)) d = Inr (d', e) \<Longrightarrow>
    net_step host to_ms N (N\<lparr>procs := (procs N)(q \<mapsto> d'), sent := sent N \<union> broadcast (host q) e\<rparr>)"
| exit: "procs N p = Some d \<Longrightarrow> Discovery_dtor d = Inr (d', e) \<Longrightarrow>
    net_step host to_ms N (N\<lparr>procs := (procs N)(p := None), sent := sent N \<union> broadcast (host p) e\<rparr>)"

definition net_reachable :: "(string \<Rightarrow> string) \<Rightarrow> (int \<Rightarrow> int) \<Rightarrow> network \<Rightarrow> bool" where
  "net_reachable host to_ms N \<longleftrightarrow> (net_step host to_ms)\<^sup>*\<^sup>* net0 N"

subsection \<open>One step of one process\<close>

lemma address_eta [simp]: "\<lparr>addr = addr i, ctrl = ctrl i, nUuid = nUuid i, scope = scope i\<rparr> = i"
  by simp

definition own_transmittable :: "discovery \<Rightarrow> bool" where
  "own_transmittable d \<longleftrightarrow> transmittable (pUuid d) Heartbeat \<and>
     (\<forall>k t. \<forall>i \<in> set (records k d t (pUuid d)). transmittable (pUuid d) (own_dmsg k t i))"

lemma own_transmittable_sendable: "own_transmittable d \<Longrightarrow> own_sendable d"
  by (auto simp: own_transmittable_def own_sendable_def transmittable_def)

text \<open>Everything in \<open>e\<close> that is sent is a message of the process, and an advertisement among them
  is of a record that the process has, or of the one it is just adding.\<close>

definition truthful :: "discovery \<Rightarrow> (msg_kind \<times> string \<times> string \<times> address) set \<Rightarrow> event list \<Rightarrow> bool" where
  "truthful d new e \<longleftrightarrow> (\<forall>b. Send b \<in> set e \<longrightarrow>
     (\<exists>m. b = dmsg_wire (pUuid d) m \<and> transmittable (pUuid d) m \<and>
       (\<forall>k t a c n sc. m = Advertised k t a c n sc \<longrightarrow>
         \<lparr>addr = a, ctrl = c, nUuid = n, scope = sc\<rparr> \<in> set (records k d t (pUuid d)) \<or>
         (k, t, pUuid d, \<lparr>addr = a, ctrl = c, nUuid = n, scope = sc\<rparr>) \<in> new)))"

lemma truthful_no_send: "(\<And>b. Send b \<notin> set e) \<Longrightarrow> truthful d new e"
  by (simp add: truthful_def)

lemma truthful_Cons_call: "truthful d new (Call cb t a c p n sc # e) = truthful d new e"
  by (simp add: truthful_def)

lemma truthful_own:
  assumes "own_transmittable d"
    and "\<And>b. Send b \<in> set e \<Longrightarrow> \<exists>k t. \<exists>i \<in> set (records k d t (pUuid d)). b = dmsg_wire (pUuid d) (own_dmsg k t i)"
  shows "truthful d new e"
  unfolding truthful_def
proof (intro allI impI)
  fix b assume "Send b \<in> set e"
  from assms(2) [OF this] obtain k t i where i: "i \<in> set (records k d t (pUuid d))"
    "b = dmsg_wire (pUuid d) (own_dmsg k t i)" by blast
  have rec: "\<lparr>addr = addr i, ctrl = ctrl i, nUuid = nUuid i, scope = scope i\<rparr> = i" by simp
  from i assms(1) show "\<exists>m. b = dmsg_wire (pUuid d) m \<and> transmittable (pUuid d) m \<and>
      (\<forall>k t a c n sc. m = Advertised k t a c n sc \<longrightarrow>
        \<lparr>addr = a, ctrl = c, nUuid = n, scope = sc\<rparr> \<in> set (records k d t (pUuid d)) \<or>
        (k, t, pUuid d, \<lparr>addr = a, ctrl = c, nUuid = n, scope = sc\<rparr>) \<in> new)"
    by (intro exI [of _ "own_dmsg k t i"]) (auto simp: own_transmittable_def own_dmsg_def rec)
qed

lemma truthful_say:
  assumes "say m d = Inr e" and "transmittable (pUuid d) m"
    and "\<And>k t a c n sc. m = Advertised k t a c n sc \<Longrightarrow>
      (k, t, pUuid d, \<lparr>addr = a, ctrl = c, nUuid = n, scope = sc\<rparr>) \<in> new"
  shows "truthful d new e"
  using assms say_wire [of d m] by (auto simp: truthful_def transmittable_def)

lemma SendMsg_pUuid: "pUuid d' = pUuid d \<Longrightarrow> SendMsg ty t a c n sc f d' = SendMsg ty t a c n sc f d"
  by (simp add: SendMsg_def)

text \<open>What a local step may change.\<close>

lemma Advertise_effect:
  assumes "Advertise k t a c n sc d = Inr (d', e)" and "discovery_ok d"
    and "transmittable (pUuid d) (Advertised k t a c n sc)"
  shows "truthful d (op_log (pUuid d) (DoAdvertise k t a c n sc)) e"
    and "i \<in> set (records k' d' t' q) \<Longrightarrow> i \<in> set (records k' d t' q) \<or>
      (k', t', q, i) \<in> op_log (pUuid d) (DoAdvertise k t a c n sc)"
proof -
  let ?d = "set_info k (snd (AddAddress t a c (pUuid d) n sc (info k d))) d"
  have "e = [] \<or> say (Advertised k t a c n sc) ?d = Inr e"
    using assms(1) by (auto simp: Advertise_def Let_def rbind_eq_Inr_iff split: if_splits)
  then have "e = [] \<or> say (Advertised k t a c n sc) d = Inr e"
    by (simp add: SendMsg_pUuid [of ?d d])
  then show "truthful d (op_log (pUuid d) (DoAdvertise k t a c n sc)) e"
    using truthful_say [OF _ assms(3), of e] by (auto simp: truthful_no_send)
  have "d' = ?d" using Advertise_state [OF assms(1)] .
  then show "i \<in> set (records k' d' t' q) \<Longrightarrow> i \<in> set (records k' d t' q) \<or>
      (k', t', q, i) \<in> op_log (pUuid d) (DoAdvertise k t a c n sc)"
    using records_add [OF assms(2), of k' k t a c "pUuid d" n sc t' q] by (auto split: if_splits)
qed

lemma Unadvertise_effect:
  assumes "Unadvertise k t n d = Inr (d', e)" and "discovery_ok d" and "own_transmittable d"
  shows "truthful d {} e"
    and "i \<in> set (records k' d' t' q) \<Longrightarrow> i \<in> set (records k' d t' q)"
proof -
  have found: "i \<in> set (records k d t (pUuid d)) \<and> nUuid i = n" if "GetAddress t (pUuid d) n (info k d) = Some i" for i
    using that by (auto simp: GetAddress_def records_def vec_def split: option.splits dest: find_SomeD)
  have "e = [] \<or> (\<exists>i. GetAddress t (pUuid d) n (info k d) = Some i \<and>
      say (Unadvertised k t (addr i) (ctrl i) n (scope i))
        (set_info k (snd (DelAddressByNode t (pUuid d) n (info k d))) d) = Inr e)"
    using assms(1) by (auto simp: Unadvertise_def Let_def rbind_eq_Inr_iff split: option.splits if_splits)
  then show "truthful d {} e"
  proof
    assume "\<exists>i. GetAddress t (pUuid d) n (info k d) = Some i \<and>
      say (Unadvertised k t (addr i) (ctrl i) n (scope i))
        (set_info k (snd (DelAddressByNode t (pUuid d) n (info k d))) d) = Inr e"
    then obtain i where i: "GetAddress t (pUuid d) n (info k d) = Some i"
      and e: "say (Unadvertised k t (addr i) (ctrl i) n (scope i)) d = Inr e"
      by (auto simp: SendMsg_pUuid [of "set_info k (snd (DelAddressByNode t (pUuid d) n (info k d))) d" d])
    have "transmittable (pUuid d) (own_dmsg k t i)"
      using assms(3) found [OF i] by (simp add: own_transmittable_def)
    then have "transmittable (pUuid d) (Unadvertised k t (addr i) (ctrl i) n (scope i))"
      using found [OF i] by (simp add: transmittable_def sendable_def own_dmsg_def fits_def length_dmsg_wire)
    then show ?thesis by (rule truthful_say [OF e]) simp
  qed (simp add: truthful_no_send)
  show "i \<in> set (records k' d' t' q) \<Longrightarrow> i \<in> set (records k' d t' q)"
    using Unadvertise_state [OF assms(1)] records_del_node [OF assms(2), of k' k t "pUuid d" n t' q]
    by (auto split: if_splits)
qed

lemma info_settings [simp]:
  "info k (d\<lparr>activityInterval := x\<rparr>) = info k d" "info k (d\<lparr>heartbeatInterval := x\<rparr>) = info k d"
  "info k (d\<lparr>advertiseInterval := x\<rparr>) = info k d" "info k (d\<lparr>silenceInterval := x\<rparr>) = info k d"
  by (cases k; simp)+

lemma sweep_loop_silent: "sweep_loop to_ms now l d = Inr (d', e) \<Longrightarrow> Send b \<notin> set e"
proof (induction l arbitrary: d e)
  case Nil
  then show ?case by simp
next
  case (Cons x l)
  obtain p t where x: "x = (p, t)" by (cases x)
  show ?case
  proof (cases "expired to_ms now d (p, t)")
    case True
    with Cons.prems obtain e' where "sweep_loop to_ms now l (forget p d) = Inr (d', e')" "e = gone p # e'"
      unfolding x sweep_loop_forget by (auto simp: rbind_eq_Inr_iff split: if_splits)
    then show ?thesis using Cons.IH by (simp add: gone_def)
  next
    case False
    then have "sweep_loop to_ms now l d = Inr (d', e)"
      using Cons.prems unfolding x sweep_loop_forget by simp
    then show ?thesis by (rule Cons.IH)
  qed
qed

lemma sweep_silent: "activity_sweep to_ms now d = Inr (d', e) \<Longrightarrow> Send b \<notin> set e"
  unfolding activity_sweep_def by (rule sweep_loop_silent)

lemma heartbeat_effect:
  assumes "heartbeat d = Inr e" and "discovery_ok d" and "own_transmittable d"
  shows "truthful d {} e"
proof -
  have e: "e = datagrams (pUuid d) (Heartbeat # own_dmsgs Msg d @ own_dmsgs Srv d)"
    using assms(1) heartbeat_eq [OF assms(2) own_transmittable_sendable [OF assms(3)]] by simp
  have Cons: "truthful d {} [x] \<Longrightarrow> truthful d {} e' \<Longrightarrow> truthful d {} (x # e')" for x e'
    by (auto simp: truthful_def)
  have "truthful d {} [Send (dmsg_wire (pUuid d) Heartbeat)]"
    using assms(3) by (auto simp: truthful_def own_transmittable_def)
  moreover have "truthful d {} (datagrams (pUuid d) (own_dmsgs Msg d @ own_dmsgs Srv d))"
    by (rule truthful_own [OF assms(3)])
      (auto simp: datagrams_def set_own_dmsgs [OF assms(2)])
  moreover have "e = Send (dmsg_wire (pUuid d) Heartbeat) #
      datagrams (pUuid d) (own_dmsgs Msg d @ own_dmsgs Srv d)"
    by (simp add: e datagrams_def)
  ultimately show ?thesis by (simp add: Cons)
qed

lemma Discover_effect:
  assumes "Discover t isSrv d = Inr e" and "discovery_ok d"
    and "transmittable (pUuid d) (Requested (if isSrv then Srv else Msg) t)"
  shows "truthful d {} e"
proof -
  let ?k = "if isSrv then Srv else Msg"
  have "sendable (pUuid d) (Requested ?k t)" using assms(3) by (simp add: transmittable_def)
  from Discover_eq [OF assms(2) this] assms(1) obtain calls where
    "e = Send (dmsg_wire (pUuid d) (Requested ?k t)) # calls" "\<And>b. Send b \<notin> set calls" by auto
  then show ?thesis using assms(3) by (auto simp: truthful_def)
qed

lemma local_effect:
  assumes "discovery_step to_ms op d = Inr (d', e)" and "local_op (pUuid d) op"
    and "discovery_ok d" and "own_transmittable d"
  shows "truthful d (op_log (pUuid d) op) e \<and> pUuid d' = pUuid d \<and> hostAddr d' = hostAddr d \<and>
    (\<forall>k t q i. i \<in> set (records k d' t q) \<longrightarrow>
      i \<in> set (records k d t q) \<or> (k, t, q, i) \<in> op_log (pUuid d) op)"
proof (cases op)
  case (DoAdvertise k t a c n sc)
  then have step: "Advertise k t a c n sc d = Inr (d', e)"
    and tr: "transmittable (pUuid d) (Advertised k t a c n sc)" using assms by simp_all
  show ?thesis
    using Advertise_effect [OF step assms(3) tr] Advertise_state [OF step] unfolding DoAdvertise by auto
next
  case (DoUnadvertise k t n)
  then have step: "Unadvertise k t n d = Inr (d', e)" using assms by simp
  show ?thesis
    using Unadvertise_effect [OF step assms(3,4)] Unadvertise_state [OF step] unfolding DoUnadvertise by auto
next
  case (DoDiscover t isSrv)
  then show ?thesis using assms Discover_effect [OF _ assms(3)] by (auto simp: rbind_eq_Inr_iff)
next
  case (DoReceive now stack r)
  then show ?thesis using assms by simp
next
  case (DoSweep now)
  then have step: "activity_sweep to_ms now d = Inr (d', e)" using assms by simp
  have "i \<in> set (records k d t q)" if "i \<in> set (records k d' t q)" for k t q i
    using that sweep_cases [OF step] by (simp add: records_fold_forget [OF assms(3)] split: if_splits)
  then show ?thesis
    using sweep_cases [OF step] truthful_no_send [OF sweep_silent [OF step]] unfolding DoSweep by simp
next
  case DoHeartbeat
  then show ?thesis using assms heartbeat_effect [OF _ assms(3,4)] by (auto simp: rbind_eq_Inr_iff)
next
  case (DoSetCallback cb b)
  have "info k (set_callback cb b d) = info k d" for k
    by (cases cb; cases k) (simp_all add: SetConnectionsCb_def SetDisconnectionsCb_def
        SetConnectionsSrvCb_def SetDisconnectionsSrvCb_def)
  moreover have "pUuid (set_callback cb b d) = pUuid d" "hostAddr (set_callback cb b d) = hostAddr d"
    by (cases cb; simp add: SetConnectionsCb_def SetDisconnectionsCb_def SetConnectionsSrvCb_def
        SetDisconnectionsSrvCb_def)+
  ultimately show ?thesis
    using assms unfolding DoSetCallback by (simp add: records_def truthful_no_send)
qed (use assms in \<open>auto simp: truthful_no_send records_def SetActivityInterval_def SetHeartbeatInterval_def
    SetAdvertiseInterval_def SetSilenceInterval_def\<close>)

text \<open>What a reception may change.\<close>

lemma receive_deliver:
  "transmittable p m \<Longrightarrow>
     RecvDiscoveryUpdate now stack (Some (ip, dmsg_wire p m)) d = deliver now ip p m d"
  using Dispatch_dmsg_wire [OF sendable_readable, of p m]
  by (simp add: transmittable_def RecvDiscoveryUpdate_def Let_def)

lemma receive_effect:
  assumes "RecvDiscoveryUpdate now stack (Some (ip, dmsg_wire p m)) d = Inr (d', e)" and "transmittable p m"
    and "discovery_ok d" and "own_transmittable d"
  shows "truthful d {} e \<and> pUuid d' = pUuid d \<and> hostAddr d' = hostAddr d \<and>
    (\<forall>k t q i. i \<in> set (records k d' t q) \<longrightarrow> i \<in> set (records k d t q) \<or>
      q = p \<and> p \<noteq> pUuid d \<and> m = own_dmsg k t i \<and> \<not> hidden ip (scope i) d)"
proof -
  have del: "deliver now ip p m d = Inr (d', e)"
    using assms(1) receive_deliver [OF assms(2)] by simp
  have frame: "pUuid d' = pUuid d" "hostAddr d' = hostAddr d"
    using assms(1) Dispatch_frame by (auto simp: RecvDiscoveryUpdate_def Let_def)
  have notify: "Send b \<notin> set (notify cb d t a c q n sc)" for b cb t a c q n sc by (simp add: notify_def)
  show ?thesis
  proof (cases "p = pUuid d")
    case True
    then show ?thesis using del frame by (simp add: deliver_def truthful_no_send)
  next
    case other: False
    show ?thesis
    proof (cases m)
      case (Advertised k t a c n sc)
      then show ?thesis
        using deliver_advertised [OF assms(3) other, of now ip k t a c n sc] del frame other notify
        by (auto simp: own_dmsg_def intro!: truthful_no_send split: if_splits)
    next
      case (Unadvertised k t a c n sc)
      then show ?thesis
        using deliver_unadvertised [OF assms(3) other, of now ip k t a c n sc] del frame notify
        by (auto intro!: truthful_no_send split: if_splits)
    next
      case (Requested k t)
      let ?d = "d\<lparr>activity := map_put p now (activity d)\<rparr>"
      have own: "\<And>i. i \<in> set (records k ?d t (pUuid ?d)) \<Longrightarrow> sendable (pUuid ?d) (own_dmsg k t i)"
        using assms(4) by (simp add: own_transmittable_def transmittable_def)
      have "deliver now ip p m d = Inr (?d, map (\<lambda>i. Send (dmsg_wire (pUuid d) (own_dmsg k t i)))
          (filter (\<lambda>i. \<not> hidden ip (scope i) d) (records k d t (pUuid d))))"
        using on_subscribe_eq [OF discovery_ok_activity [OF assms(3) other] own] other Requested
        by (simp add: deliver_def)
      with del have "d' = ?d" "e = map (\<lambda>i. Send (dmsg_wire (pUuid d) (own_dmsg k t i)))
          (filter (\<lambda>i. \<not> hidden ip (scope i) d) (records k d t (pUuid d)))" by simp_all
      moreover from this(2) have "truthful d {} e" by (intro truthful_own [OF assms(4)]) auto
      ultimately show ?thesis using frame by simp
    next
      case Heartbeat
      then show ?thesis using del frame other by (auto simp: deliver_def Let_def truthful_no_send)
    next
      case Bye
      then show ?thesis
        using deliver_bye [OF assms(3) other, of now ip] del frame notify
        by (auto intro!: truthful_no_send split: if_splits)
    qed
  qed
qed

subsection \<open>The invariant of the network\<close>

definition visible :: "(string \<Rightarrow> string) \<Rightarrow> string \<Rightarrow> string \<Rightarrow> address \<Rightarrow> bool" where
  "visible host q p i \<longleftrightarrow> scope i \<noteq> Process \<and> (scope i = Host \<longrightarrow> host p = host q)"

definition member_ok :: "(string \<Rightarrow> string) \<Rightarrow> network \<Rightarrow> string \<Rightarrow> discovery \<Rightarrow> bool" where
  "member_ok host N p d \<longleftrightarrow> discovery_ok d \<and> pUuid d = p \<and> hostAddr d = host p \<and> own_transmittable d \<and>
     (\<forall>k t q i. i \<in> set (records k d t q) \<longrightarrow> (k, t, q, i) \<in> logged N \<and> (q \<noteq> p \<longrightarrow> visible host p q i))"

definition datagram_ok :: "(string \<Rightarrow> string) \<Rightarrow> network \<Rightarrow> string \<times> string \<Rightarrow> bool" where
  "datagram_ok host N x \<longleftrightarrow> (\<exists>p m. x = (host p, dmsg_wire p m) \<and> transmittable p m \<and>
     (\<forall>k t i. m = own_dmsg k t i \<longrightarrow> (k, t, p, i) \<in> logged N))"

definition net_ok :: "(string \<Rightarrow> string) \<Rightarrow> network \<Rightarrow> bool" where
  "net_ok host N \<longleftrightarrow> (\<forall>p d. procs N p = Some d \<longrightarrow> member_ok host N p d) \<and>
     (\<forall>x \<in> sent N. datagram_ok host N x) \<and>
     (\<forall>k t p i. (k, t, p, i) \<in> logged N \<longrightarrow> transmittable p (own_dmsg k t i))"

lemma own_dmsg_eq [simp]: "own_dmsg k t i = own_dmsg k' t' i' \<longleftrightarrow> k = k' \<and> t = t' \<and> i = i'"
  by (auto simp: own_dmsg_def)

lemma Advertised_own_dmsg:
  "Advertised k t a c n sc = own_dmsg k' t' i \<longleftrightarrow>
     k = k' \<and> t = t' \<and> i = \<lparr>addr = a, ctrl = c, nUuid = n, scope = sc\<rparr>"
  by (auto simp: own_dmsg_def)

text \<open>Members and datagrams stay well formed when the log grows.\<close>

lemma member_ok_mono: "member_ok host N p d \<Longrightarrow> logged N \<subseteq> logged N' \<Longrightarrow> member_ok host N' p d"
  unfolding member_ok_def by blast

lemma datagram_ok_mono: "datagram_ok host N x \<Longrightarrow> logged N \<subseteq> logged N' \<Longrightarrow> datagram_ok host N' x"
  unfolding datagram_ok_def by blast

lemma broadcast_ok:
  assumes "member_ok host N p d" and "truthful d new e" and "logged N \<subseteq> logged N'" "new \<subseteq> logged N'"
    and "x \<in> broadcast (host p) e"
  shows "datagram_ok host N' x"
proof -
  from assms(5) obtain b where b: "Send b \<in> set e" "x = (host p, b)" by (auto simp: broadcast_def)
  from assms(2) b(1) obtain m where m: "b = dmsg_wire (pUuid d) m" "transmittable (pUuid d) m"
    "\<And>k t a c n sc. m = Advertised k t a c n sc \<Longrightarrow>
      \<lparr>addr = a, ctrl = c, nUuid = n, scope = sc\<rparr> \<in> set (records k d t (pUuid d)) \<or>
      (k, t, pUuid d, \<lparr>addr = a, ctrl = c, nUuid = n, scope = sc\<rparr>) \<in> new"
    unfolding truthful_def by blast
  have "(k, t, p, i) \<in> logged N'" if "m = own_dmsg k t i" for k t i
  proof -
    have "i \<in> set (records k d t (pUuid d)) \<or> (k, t, pUuid d, i) \<in> new"
      using m(3) [of k t "addr i" "ctrl i" "nUuid i" "scope i"] that by (simp add: own_dmsg_def)
    then show ?thesis using assms(1,3,4) by (auto simp: member_ok_def)
  qed
  then show ?thesis using b(2) m(1,2) assms(1) by (auto simp: datagram_ok_def member_ok_def)
qed

subsection \<open>Every step keeps it\<close>

lemma member_ok_step:
  assumes d: "member_ok host N p d" and N': "logged N' = logged N \<union> new" and "discovery_ok d'"
    and "pUuid d' = pUuid d" "hostAddr d' = hostAddr d"
    and recs: "\<And>k t q i. i \<in> set (records k d' t q) \<Longrightarrow> i \<in> set (records k d t q) \<or>
      (k, t, q, i) \<in> logged N' \<and> (q \<noteq> p \<longrightarrow> visible host p q i)"
    and sends: "\<And>k t q i. (k, t, q, i) \<in> logged N' \<Longrightarrow> transmittable q (own_dmsg k t i)"
  shows "member_ok host N' p d'"
proof -
  have p: "pUuid d = p" "transmittable p Heartbeat" "hostAddr d = host p"
    using d by (auto simp: member_ok_def own_transmittable_def)
  have all: "(k, t, q, i) \<in> logged N' \<and> (q \<noteq> p \<longrightarrow> visible host p q i)"
    if "i \<in> set (records k d' t q)" for k t q i
    using recs [OF that] d N' by (auto simp: member_ok_def)
  then have "own_transmittable d'"
    using sends p assms(4) by (auto simp: own_transmittable_def)
  then show ?thesis using assms(3-5) p all by (simp add: member_ok_def)
qed

lemma net_okD:
  assumes "net_ok host N"
  shows "procs N p = Some d \<Longrightarrow> member_ok host N p d" "x \<in> sent N \<Longrightarrow> datagram_ok host N x"
    "(k, t, p, i) \<in> logged N \<Longrightarrow> transmittable p (own_dmsg k t i)"
  using assms unfolding net_ok_def by blast+

text \<open>The part that is common to all steps in which one process changes its state and sends.\<close>

lemma net_ok_process_step:
  assumes N: "net_ok host N" and "procs N p = Some d" and "truthful d new e"
    and "discovery_ok d'" and "pUuid d' = pUuid d" "hostAddr d' = hostAddr d"
    and recs: "\<And>k t q i. i \<in> set (records k d' t q) \<Longrightarrow> i \<in> set (records k d t q) \<or>
      (k, t, q, i) \<in> logged N \<union> new \<and> (q \<noteq> p \<longrightarrow> visible host p q i)"
    and new: "\<And>k t q i. (k, t, q, i) \<in> new \<Longrightarrow> transmittable q (own_dmsg k t i)"
  shows "net_ok host (N\<lparr>procs := (procs N)(p \<mapsto> d'), sent := sent N \<union> broadcast (host p) e,
      logged := logged N \<union> new\<rparr>)" (is "net_ok host ?N")
proof -
  have log: "logged N \<subseteq> logged ?N" "logged ?N = logged N \<union> new" by auto
  have d: "member_ok host N p d" using net_okD(1) [OF N assms(2)] .
  have sends: "transmittable q (own_dmsg k t i)" if "(k, t, q, i) \<in> logged ?N" for k t q i
    using that net_okD(3) [OF N] new by auto
  have "member_ok host ?N p d'"
  proof (rule member_ok_step [OF d log(2) assms(4-6)])
    show "i \<in> set (records k d' t q) \<Longrightarrow> i \<in> set (records k d t q) \<or>
        (k, t, q, i) \<in> logged ?N \<and> (q \<noteq> p \<longrightarrow> visible host p q i)" for k t q i
      using recs [of i k t q] by simp
  qed (rule sends)
  moreover have "member_ok host ?N q b" if "procs N q = Some b" for q b
    using member_ok_mono [OF net_okD(1) [OF N that] log(1)] .
  moreover have "datagram_ok host ?N x" if "x \<in> sent ?N" for x
    using that broadcast_ok [OF d assms(3), of ?N x] datagram_ok_mono [OF net_okD(2) [OF N] log(1), of x] by auto
  ultimately show ?thesis using sends unfolding net_ok_def by auto
qed

lemma own_dmsg_transmittable:
  "transmittable p (Advertised k t a c n sc) \<longleftrightarrow>
     transmittable p (own_dmsg k t \<lparr>addr = a, ctrl = c, nUuid = n, scope = sc\<rparr>)"
  by (simp add: own_dmsg_def)

lemma dtor_truthful:
  assumes "Discovery_dtor d = Inr (d', e)" and "own_transmittable d"
  shows "truthful d {} e"
proof -
  have "say Bye d = Inr e"
    using assms(1) by (auto simp: Discovery_dtor_def Let_def rbind_eq_Inr_iff SendMsg_pUuid [of "d\<lparr>exit_flag := True\<rparr>" d])
  moreover have "transmittable (pUuid d) Bye"
    using assms(2) by (simp add: own_transmittable_def transmittable_def sendable_def fits_def length_dmsg_wire)
  ultimately show ?thesis by (rule truthful_say) simp
qed

lemma net_ok_step: "net_step host to_ms N N' \<Longrightarrow> net_ok host N \<Longrightarrow> net_ok host N'"
proof (induction rule: net_step.induct)
  case (start N p verb)
  let ?d = "Discovery_ctor p verb (host p)"
  have "pUuid ?d = p" "hostAddr ?d = host p" by (simp_all add: Discovery_ctor_def)
  then have "member_ok host N p ?d"
    using start.hyps discovery_ok_ctor by (simp add: member_ok_def own_transmittable_def records_def)
  then show ?case using start.prems
    by (auto simp: net_ok_def member_ok_def datagram_ok_def split: if_splits)
next
  case (client N p d op d' e)
  have d: "member_ok host N p d" using net_okD(1) [OF client.prems client.hyps(1)] .
  then have ok: "discovery_ok d" "own_transmittable d" "pUuid d = p" by (simp_all add: member_ok_def)
  have eff: "truthful d (op_log p op) e" "pUuid d' = pUuid d" "hostAddr d' = hostAddr d"
    "\<And>k t q i. i \<in> set (records k d' t q) \<Longrightarrow> i \<in> set (records k d t q) \<or> (k, t, q, i) \<in> op_log p op"
    using local_effect [OF client.hyps(3) _ ok(1,2)] client.hyps(2) ok(3) by auto
  have new: "q = p \<and> transmittable q (own_dmsg k t i)" if "(k, t, q, i) \<in> op_log p op" for k t q i
    using that client.hyps(2) by (cases op) (auto simp: own_dmsg_transmittable)
  have recs: "i \<in> set (records k d t q) \<or> (k, t, q, i) \<in> logged N \<union> op_log p op \<and> (q \<noteq> p \<longrightarrow> visible host p q i)"
    if "i \<in> set (records k d' t q)" for k t q i
    using eff(4) [OF that] new [of k t q i] by blast
  show ?case
    by (rule net_ok_process_step [OF client.prems client.hyps(1) eff(1)
          discovery_ok_step [OF ok(1) client.hyps(3)] eff(2,3) recs]) (use new in blast)+
next
  case (receive N q d ip b now stack d' e)
  have d: "member_ok host N q d" using net_okD(1) [OF receive.prems receive.hyps(1)] .
  then have ok: "discovery_ok d" "own_transmittable d" "pUuid d = q" "hostAddr d = host q"
    by (simp_all add: member_ok_def)
  obtain p m where m: "ip = host p" "b = dmsg_wire p m" "transmittable p m"
    "\<And>k t i. m = own_dmsg k t i \<Longrightarrow> (k, t, p, i) \<in> logged N"
    using net_okD(2) [OF receive.prems receive.hyps(2)] by (auto simp: datagram_ok_def)
  have eff: "truthful d {} e" "pUuid d' = pUuid d" "hostAddr d' = hostAddr d"
    "\<And>k t q' i. i \<in> set (records k d' t q') \<Longrightarrow> i \<in> set (records k d t q') \<or>
      q' = p \<and> p \<noteq> pUuid d \<and> m = own_dmsg k t i \<and> \<not> hidden ip (scope i) d"
    using receive_effect [OF receive.hyps(3) [unfolded m(2)] m(3) ok(1,2)] by blast+
  have recs: "i \<in> set (records k d t q') \<or> (k, t, q', i) \<in> logged N \<union> {} \<and> (q' \<noteq> q \<longrightarrow> visible host q q' i)"
    if "i \<in> set (records k d' t q')" for k t q' i
    using eff(4) [OF that] m(1,4) ok(3,4) by (auto simp: hidden_def visible_def)
  have "net_ok host (N\<lparr>procs := (procs N)(q \<mapsto> d'), sent := sent N \<union> broadcast (host q) e, logged := logged N \<union> {}\<rparr>)"
    by (rule net_ok_process_step [OF receive.prems receive.hyps(1) eff(1)
          discovery_ok_Recv [OF ok(1) receive.hyps(3)] eff(2,3) recs]) simp_all
  then show ?case by simp
next
  case (exit N p d d' e)
  have d: "member_ok host N p d" using net_okD(1) [OF exit.prems exit.hyps(1)] .
  then have "truthful d {} e" using dtor_truthful [OF exit.hyps(2)] by (simp add: member_ok_def)
  then have "datagram_ok host N x" if "x \<in> broadcast (host p) e" for x
    using broadcast_ok [OF d _ order_refl empty_subsetI that] by simp
  then show ?case using exit.prems
    by (auto simp: net_ok_def member_ok_def datagram_ok_def split: if_splits)
qed

lemma net_reachable_net0: "net_reachable host to_ms net0"
  by (simp add: net_reachable_def)

lemma net_reachable_step: "net_reachable host to_ms N \<Longrightarrow> net_step host to_ms N N' \<Longrightarrow> net_reachable host to_ms N'"
  unfolding net_reachable_def by (rule rtranclp.rtrancl_into_rtrancl)

lemma net_ok_net0: "net_ok host net0"
  by (simp add: net_ok_def net0_def)

lemma net_reachable_ok: "net_reachable host to_ms N \<Longrightarrow> net_ok host N"
  unfolding net_reachable_def
  by (induction rule: rtranclp_induct) (auto intro: net_ok_step net_ok_net0)

subsection \<open>A small network\<close>

text \<open>The processes A and B run on one host, A has advertised a topic, and then B has heard of it.\<close>

abbreviation one_host :: "string \<Rightarrow> string" where
  "one_host p \<equiv> ''10.0.0.1''"

abbreviation fresh :: "string \<Rightarrow> discovery" where
  "fresh p \<equiv> Discovery_ctor p False ''10.0.0.1''"

definition adv_a :: discovery where
  "adv_a = set_info Msg (snd (AddAddress ''@/a'' ''tcp:1'' ''c1'' ''A'' ''na'' All [])) (fresh ''A'')"

definition heard_b :: discovery where
  "heard_b = (let d = (fresh ''B'')\<lparr>activity := map_put ''A'' 7 []\<rparr>
     in set_info Msg (snd (AddAddress ''@/a'' ''tcp:1'' ''c1'' ''A'' ''na'' All [])) d)"

abbreviation wire_a :: string where
  "wire_a \<equiv> dmsg_wire ''A'' (own_dmsg Msg ''@/a'' rec_a)"

definition net_a :: network where
  "net_a = \<lparr>procs = [''A'' \<mapsto> adv_a, ''B'' \<mapsto> fresh ''B''], sent = {(''10.0.0.1'', wire_a)},
     logged = {(Msg, ''@/a'', ''A'', rec_a)}\<rparr>"

definition net_ab :: network where
  "net_ab = \<lparr>procs = [''A'' \<mapsto> adv_a, ''B'' \<mapsto> heard_b], sent = {(''10.0.0.1'', wire_a)},
     logged = {(Msg, ''@/a'', ''A'', rec_a)}\<rparr>"

lemma net_a_reachable: "net_reachable one_host to_ms net_a"
proof -
  let ?N1 = "net0\<lparr>procs := (procs net0)(''A'' \<mapsto> fresh ''A'')\<rparr>"
  let ?N2 = "?N1\<lparr>procs := (procs ?N1)(''B'' \<mapsto> fresh ''B'')\<rparr>"
  let ?op = "DoAdvertise Msg ''@/a'' ''tcp:1'' ''c1'' ''na'' All"
  let ?N3 = "?N2\<lparr>procs := (procs ?N2)(''A'' \<mapsto> adv_a),
    sent := sent ?N2 \<union> broadcast (one_host ''A'') [Send wire_a], logged := logged ?N2 \<union> op_log ''A'' ?op\<rparr>"
  have 1: "net_step one_host to_ms net0 ?N1"
    by (rule net_step.start) (simp_all add: net0_def transmittable_def size_simps)
  have 2: "net_step one_host to_ms ?N1 ?N2"
    by (rule net_step.start) (simp_all add: net0_def transmittable_def size_simps)
  have send: "say (Advertised Msg ''@/a'' ''tcp:1'' ''c1'' ''na'' All) adv_a = Inr [Send wire_a]"
    using say_wire [of adv_a "own_dmsg Msg ''@/a'' rec_a"]
    by (simp add: size_simps rec_a_def own_dmsg_def adv_a_def Discovery_ctor_def)
  have adv: "discovery_step to_ms ?op (fresh ''A'') = Inr (adv_a, [Send wire_a])"
    using send by (simp add: Advertise_def adv_a_def Discovery_ctor_def)
  have op: "local_op ''A'' ?op"
    by (simp add: transmittable_def size_simps)
  have 3: "net_step one_host to_ms ?N2 ?N3"
    by (rule net_step.client [OF _ op adv]) simp
  have "?N3 = net_a"
    by (auto simp: net_a_def net0_def broadcast_def rec_a_def fun_eq_iff)
  with net_reachable_step [OF net_reachable_step [OF net_reachable_step [OF net_reachable_net0 1] 2] 3]
  show ?thesis by simp
qed

lemma recv_wire_a:
  "RecvDiscoveryUpdate 7 '''' (Some (''10.0.0.1'', wire_a)) (fresh ''B'') = Inr (heard_b, [])"
proof -
  have "transmittable ''A'' (own_dmsg Msg ''@/a'' rec_a)"
    by (simp add: transmittable_def size_simps rec_a_def own_dmsg_def)
  moreover have "deliver 7 ''10.0.0.1'' ''A'' (own_dmsg Msg ''@/a'' rec_a) (fresh ''B'') = Inr (heard_b, [])"
    by code_simp
  ultimately show ?thesis by (simp add: receive_deliver)
qed

lemma net_ab_reachable: "net_reachable one_host to_ms net_ab"
proof -
  let ?N = "net_a\<lparr>procs := (procs net_a)(''B'' \<mapsto> heard_b), sent := sent net_a \<union> broadcast (one_host ''B'') []\<rparr>"
  have "net_step one_host to_ms net_a ?N"
    by (rule net_step.receive [OF _ _ recv_wire_a, of net_a "''B''"]) (simp_all add: net_a_def)
  moreover have "?N = net_ab"
    by (auto simp: net_a_def net_ab_def broadcast_def fun_eq_iff)
  ultimately show ?thesis using net_reachable_step [OF net_a_reachable] by simp
qed

lemma records_small:
  "records Msg adv_a ''@/a'' ''A'' = [rec_a]" "records Msg heard_b ''@/a'' ''A'' = [rec_a]"
  by code_simp+

lemma heard_b_small: "activity heard_b = [(''A'', 7)]" "silenceInterval heard_b = 3000" "\<not> disconnectionCb heard_b"
  by code_simp+

subsection \<open>Nothing is forged\<close>

text \<open>C5 What a process knows of another one is true and not private: in every reachable
  state of the network, whatever was lost, duplicated or reordered, a record that process \<open>q\<close>
  holds of another process \<open>p\<close> is one that a client of \<open>p\<close> has advertised, field by field, its
  scope is not \<open>Process\<close>, and if its scope is \<open>Host\<close> both run on the same host.\<close>
theorem network_authentic:
  assumes "net_reachable host to_ms N" and "procs N q = Some d" and "i \<in> set (records k d t p)" and "p \<noteq> q"
  shows "(k, t, p, i) \<in> logged N \<and> scope i \<noteq> Process \<and> (scope i = Host \<longrightarrow> host p = host q)"
  using net_okD(1) [OF net_reachable_ok [OF assms(1)] assms(2)] assms(3,4)
  by (auto simp: member_ok_def visible_def)

lemma network_authentic_witness:
  "(Msg, ''@/a'', ''A'', rec_a) \<in> logged net_ab \<and> scope rec_a \<noteq> Process"
  using network_authentic [OF net_ab_reachable, of "''B''" heard_b rec_a Msg "''@/a''" "''A''"]
  by (simp add: net_ab_def records_small)

subsection \<open>No datagram of the network makes a receiver fail\<close>

lemma receive_total:
  assumes "transmittable p m" and "discovery_ok d" and "own_transmittable d"
  shows "\<exists>d' e. RecvDiscoveryUpdate now stack (Some (ip, dmsg_wire p m)) d = Inr (d', e)"
proof (cases "p = pUuid d")
  case True
  then show ?thesis unfolding receive_deliver [OF assms(1)] by (simp add: deliver_def)
next
  case other: False
  show ?thesis
  proof (cases m)
    case (Advertised k t a c n sc)
    then show ?thesis unfolding receive_deliver [OF assms(1)]
      using deliver_advertised [OF assms(2) other, of now ip k t a c n sc] by blast
  next
    case (Unadvertised k t a c n sc)
    then show ?thesis unfolding receive_deliver [OF assms(1)]
      using deliver_unadvertised [OF assms(2) other, of now ip k t a c n sc] by blast
  next
    case (Requested k t)
    let ?d = "d\<lparr>activity := map_put p now (activity d)\<rparr>"
    have "\<And>i. i \<in> set (records k ?d t (pUuid ?d)) \<Longrightarrow> sendable (pUuid ?d) (own_dmsg k t i)"
      using assms(3) by (simp add: own_transmittable_def transmittable_def)
    from on_subscribe_eq [OF discovery_ok_activity [OF assms(2) other] this]
    show ?thesis unfolding receive_deliver [OF assms(1)] using other Requested by (simp add: deliver_def)
  next
    case Heartbeat
    then show ?thesis unfolding receive_deliver [OF assms(1)] using other by (simp add: deliver_def Let_def)
  next
    case Bye
    then show ?thesis unfolding receive_deliver [OF assms(1)]
      using deliver_bye [OF assms(2) other, of now ip] by blast
  qed
qed

text \<open>C7 In every reachable state of the network a process can take in any datagram that
  any process has sent before, at any time and whatever its receive buffer held: no read outside
  the buffer, no exception and no failed assertion.\<close>
theorem network_reception_total:
  assumes "net_reachable host to_ms N" and "procs N q = Some d" and "(ip, b) \<in> sent N"
  shows "\<exists>d' e. RecvDiscoveryUpdate now stack (Some (ip, b)) d = Inr (d', e)"
proof -
  have N: "net_ok host N" using net_reachable_ok [OF assms(1)] .
  obtain p m where "b = dmsg_wire p m" "transmittable p m"
    using net_okD(2) [OF N assms(3)] by (auto simp: datagram_ok_def)
  then show ?thesis
    using receive_total net_okD(1) [OF N assms(2)] by (simp add: member_ok_def)
qed

lemma network_reception_total_witness:
  "\<exists>d' e. RecvDiscoveryUpdate 9 ''junk'' (Some (''10.0.0.1'', wire_a)) heard_b = Inr (d', e)"
  by (rule network_reception_total [OF net_ab_reachable, of "''B''"]) (simp_all add: net_ab_def)

subsection \<open>When an operation of a process throws\<close>

lemma Advertise_total:
  assumes "transmittable (pUuid d) (Advertised k t a c n sc)"
  shows "\<exists>d' e. Advertise k t a c n sc d = Inr (d', e)"
  using say_wire [of d "Advertised k t a c n sc"] assms
  by (auto simp: Advertise_def Let_def transmittable_def
      SendMsg_pUuid [of "set_info k (snd (AddAddress t a c (pUuid d) n sc (info k d))) d" d])

lemma Unadvertise_total:
  assumes "own_transmittable d"
  shows "\<exists>d' e. Unadvertise k t n d = Inr (d', e)"
proof (cases "GetAddress t (pUuid d) n (info k d)")
  case None
  then show ?thesis by (simp add: Unadvertise_def)
next
  case (Some i)
  then have "i \<in> set (records k d t (pUuid d)) \<and> nUuid i = n"
    by (auto simp: GetAddress_def records_def vec_def split: option.splits dest: find_SomeD)
  then have "transmittable (pUuid d) (own_dmsg k t i)" "nUuid i = n"
    using assms by (simp_all add: own_transmittable_def)
  then have "sendable (pUuid d) (Unadvertised k t (addr i) (ctrl i) n (scope i))"
    by (simp add: transmittable_def sendable_def own_dmsg_def fits_def length_dmsg_wire)
  from say_wire [OF this] show ?thesis
    using Some by (simp add: Unadvertise_def Let_def
        SendMsg_pUuid [of "set_info k (snd (DelAddressByNode t (pUuid d) n (info k d))) d" d])
qed

lemma sweep_total:
  "(\<exists>d' e. activity_sweep to_ms now d = Inr (d', e)) \<longleftrightarrow>
     disconnectionCb d \<or> (\<forall>x \<in> set (activity d). \<not> expired to_ms now d x)"
proof (cases "\<exists>x \<in> set (activity d). expired to_ms now d x")
  case True
  then show ?thesis
    using sweep_loop_eq [of d to_ms now "activity d"] sweep_loop_unset [of d "activity d" to_ms now]
    by (cases "disconnectionCb d") (auto simp: activity_sweep_def)
next
  case False
  then have "filter (expired to_ms now d) (activity d) = []" by (simp add: filter_empty_conv)
  from sweep_loop_none [OF this] False show ?thesis by (simp add: activity_sweep_def)
qed

text \<open>C30 The only operation of a process in the network that can throw is the round of the
  activity task, and it does so exactly when some process has been silent for too long and no
  disconnection callback has been set; everything else returns, from every reachable state.\<close>
theorem operation_throws_iff:
  assumes "net_reachable host to_ms N" and "procs N p = Some d" and "local_op p op"
  shows "(\<exists>x. discovery_step to_ms op d = Inl x) \<longleftrightarrow>
    (\<exists>now. op = DoSweep now \<and> \<not> disconnectionCb d \<and> (\<exists>x \<in> set (activity d). expired to_ms now d x))"
proof -
  have d: "discovery_ok d" "own_transmittable d" "pUuid d = p"
    using net_okD(1) [OF net_reachable_ok [OF assms(1)] assms(2)] by (simp_all add: member_ok_def)
  have returns: "(\<exists>x. r = Inl x) \<longleftrightarrow> \<not> (\<exists>d' e. r = Inr (d', e))" for r :: "(discovery \<times> event list) res"
    by (cases r) auto
  show ?thesis
  proof (cases op)
    case (DoAdvertise k t a c n sc)
    then show ?thesis using Advertise_total assms(3) d(3) by (simp add: returns)
  next
    case (DoUnadvertise k t n)
    then show ?thesis using Unadvertise_total [OF d(2)] by (simp add: returns)
  next
    case (DoDiscover t isSrv)
    then have "sendable (pUuid d) (Requested (if isSrv then Srv else Msg) t)"
      using assms(3) d(3) by (simp add: transmittable_def)
    from Discover_eq [OF d(1) this] show ?thesis using DoDiscover by auto
  next
    case (DoSweep now)
    then show ?thesis using sweep_total [of to_ms now d] by (auto simp: returns)
  next
    case DoHeartbeat
    then show ?thesis using heartbeat_eq [OF d(1) own_transmittable_sendable [OF d(2)]] by simp
  qed (use assms(3) in simp_all)
qed

lemma operation_throws_iff_witness:
  "\<exists>x. discovery_step (\<lambda>x. x div 1000000) (DoSweep 4000000007) heard_b = Inl x"
proof (rule operation_throws_iff [OF net_ab_reachable, of "''B''", THEN iffD2])
  show "\<exists>now. DoSweep 4000000007 = DoSweep now \<and> \<not> disconnectionCb heard_b \<and>
      (\<exists>x \<in> set (activity heard_b). expired (\<lambda>x. x div 1000000) now heard_b x)"
    by (simp add: heard_b_small expired_def)
qed (simp_all add: net_ab_def)

subsection \<open>A heartbeat brings another process up to date\<close>

abbreviation known :: "msg_kind \<Rightarrow> discovery \<Rightarrow> string \<Rightarrow> string \<Rightarrow> address \<Rightarrow> bool" where
  "known k d t p i \<equiv> duplicate k d t p (addr i) (nUuid i)"

text \<open>A message of a heartbeat: the heartbeat itself or one of the advertisements.\<close>

definition beat :: "dmsg \<Rightarrow> bool" where
  "beat m \<longleftrightarrow> m = Heartbeat \<or> (\<exists>k t i. m = own_dmsg k t i)"

lemma deliver_beat:
  assumes "discovery_ok d" and "p \<noteq> pUuid d" and "beat m"
  shows "\<exists>d' e. deliver now ip p m d = Inr (d', e) \<and>
    (\<forall>k t. set (records k d t p) \<subseteq> set (records k d' t p)) \<and>
    (\<forall>k t i. m = own_dmsg k t i \<longrightarrow> \<not> hidden ip (scope i) d \<longrightarrow> known k d' t p i)"
proof (cases "m = Heartbeat")
  case True
  then show ?thesis using assms(2) by (auto simp: deliver_def Let_def own_dmsg_def)
next
  case False
  then obtain k t i where m: "m = own_dmsg k t i" using assms(3) by (auto simp: beat_def)
  obtain d' e where "deliver now ip p m d = Inr (d', e)"
    "\<And>k' t' q. records k' d' t' q =
      (if k' = k \<and> t' = t \<and> q = p \<and> \<not> hidden ip (scope i) d \<and> \<not> known k d t p i
       then records k d t p @ [i] else records k' d t' q)"
    using deliver_advertised [OF assms(1,2), of now ip k t "addr i" "ctrl i" "nUuid i" "scope i"]
    unfolding m by (auto simp: own_dmsg_def)
  then show ?thesis by (auto simp: m duplicate_def)
qed

text \<open>Process \<open>q\<close> receives these datagrams, one after the other, all from the address \<open>ip\<close>; when it does so
  and what is in its receive buffer is left open.\<close>

inductive receives :: "(string \<Rightarrow> string) \<Rightarrow> string \<Rightarrow> string \<Rightarrow> string list \<Rightarrow> network \<Rightarrow> network \<Rightarrow> bool"
  for host :: "string \<Rightarrow> string" and ip :: string and q :: string where
  none: "receives host ip q [] N N"
| one: "procs N q = Some d \<Longrightarrow> RecvDiscoveryUpdate now stack (Some (ip, x)) d = Inr (d', e) \<Longrightarrow>
    receives host ip q xs (N\<lparr>procs := (procs N)(q \<mapsto> d'), sent := sent N \<union> broadcast (host q) e\<rparr>) N' \<Longrightarrow>
    receives host ip q (x # xs) N N'"

inductive_cases receives_Nil: "receives host ip q [] N N'"
inductive_cases receives_Cons: "receives host ip q (x # xs) N N'"

text \<open>The datagram of such a message, from \<open>p\<close>.\<close>

definition beat_wire :: "string \<Rightarrow> string \<Rightarrow> bool" where
  "beat_wire p x \<longleftrightarrow> (\<exists>m. x = dmsg_wire p m \<and> transmittable p m \<and> beat m)"

lemma receive_beat:
  assumes "net_ok host N" and "procs N q = Some b" and "p \<noteq> q" and "beat_wire p x"
  shows "\<exists>b' e. RecvDiscoveryUpdate now stack (Some (host p, x)) b = Inr (b', e) \<and>
    (\<forall>k t. set (records k b t p) \<subseteq> set (records k b' t p)) \<and>
    (\<forall>k t i. x = dmsg_wire p (own_dmsg k t i) \<longrightarrow> transmittable p (own_dmsg k t i) \<longrightarrow> visible host q p i \<longrightarrow>
      known k b' t p i)"
proof -
  have b: "discovery_ok b" "p \<noteq> pUuid b" "hostAddr b = host q"
    using net_okD(1) [OF assms(1,2)] assms(3) by (auto simp: member_ok_def)
  obtain m where m: "x = dmsg_wire p m" "transmittable p m" "beat m" using assms(4) by (auto simp: beat_wire_def)
  obtain b' e where del: "deliver now (host p) p m b = Inr (b', e)"
    and mono: "\<forall>k t. set (records k b t p) \<subseteq> set (records k b' t p)"
    using deliver_beat [OF b(1,2) m(3)] by blast
  have recv: "RecvDiscoveryUpdate now stack (Some (host p, x)) b = Inr (b', e)"
    using del receive_deliver [OF m(2)] by (simp add: m(1))
  have "known k b' t p i"
    if "x = dmsg_wire p (own_dmsg k t i)" "transmittable p (own_dmsg k t i)" "visible host q p i" for k t i
  proof -
    have "deliver now (host p) p (own_dmsg k t i) b = Inr (b', e)"
      using recv receive_deliver [OF that(2)] by (simp add: that(1))
    moreover have "beat (own_dmsg k t i)" by (auto simp: beat_def)
    moreover have "\<not> hidden (host p) (scope i) b" using that(3) b(3) by (auto simp: visible_def hidden_def)
    ultimately show ?thesis using deliver_beat [OF b(1,2), of "own_dmsg k t i" now "host p"] by auto
  qed
  then show ?thesis using recv mono by blast
qed

lemma receives_total:
  assumes "net_ok host N" and "procs N q = Some b" and "p \<noteq> q"
    and "\<forall>x \<in> set xs. beat_wire p x \<and> (host p, x) \<in> sent N"
  shows "\<exists>N'. receives host (host p) q xs N N'"
  using assms(1,2,4)
proof (induction xs arbitrary: N b)
  case Nil
  then show ?case by (auto intro: receives.none)
next
  case (Cons x xs)
  obtain b' e where recv: "RecvDiscoveryUpdate 0 '''' (Some (host p, x)) b = Inr (b', e)"
    using receive_beat [OF Cons.prems(1,2) assms(3), of x 0 "''''"] Cons.prems(3) by auto
  let ?N = "N\<lparr>procs := (procs N)(q \<mapsto> b'), sent := sent N \<union> broadcast (host q) e\<rparr>"
  have "net_step host (\<lambda>x. x) N ?N" using Cons.prems(2,3) recv by (intro net_step.receive) auto
  from Cons.IH [OF net_ok_step [OF this Cons.prems(1)]] obtain N' where "receives host (host p) q xs ?N N'"
    using Cons.prems(3) by auto
  then show ?case using receives.one [OF Cons.prems(2) recv] by blast
qed

lemma receives_beats:
  assumes "net_ok host N" and "procs N q = Some b" and "p \<noteq> q"
    and "\<forall>x \<in> set xs. beat_wire p x \<and> (host p, x) \<in> sent N" and "receives host (host p) q xs N N'"
  shows "\<exists>b'. (net_step host to_ms)\<^sup>*\<^sup>* N N' \<and> procs N' q = Some b' \<and>
    (\<forall>k t. set (records k b t p) \<subseteq> set (records k b' t p)) \<and>
    (\<forall>k t i. dmsg_wire p (own_dmsg k t i) \<in> set xs \<longrightarrow> transmittable p (own_dmsg k t i) \<longrightarrow> visible host q p i \<longrightarrow>
      known k b' t p i)"
  using assms(1,2,4,5)
proof (induction xs arbitrary: N b)
  case Nil
  then show ?case by (auto elim: receives_Nil)
next
  case (Cons x xs)
  obtain b1 e now stack where recv: "RecvDiscoveryUpdate now stack (Some (host p, x)) b = Inr (b1, e)"
    and rest: "receives host (host p) q xs (N\<lparr>procs := (procs N)(q \<mapsto> b1), sent := sent N \<union> broadcast (host q) e\<rparr>) N'"
    using Cons.prems(4) Cons.prems(2) by (auto elim: receives_Cons)
  let ?N = "N\<lparr>procs := (procs N)(q \<mapsto> b1), sent := sent N \<union> broadcast (host q) e\<rparr>"
  have step: "net_step host to_ms N ?N" using Cons.prems(2,3) recv by (intro net_step.receive) auto
  have mono: "\<And>k t. set (records k b t p) \<subseteq> set (records k b1 t p)"
    and got: "\<And>k t i. x = dmsg_wire p (own_dmsg k t i) \<Longrightarrow> transmittable p (own_dmsg k t i) \<Longrightarrow> visible host q p i \<Longrightarrow>
      known k b1 t p i"
    using receive_beat [OF Cons.prems(1,2) assms(3), of x now stack] Cons.prems(3) recv by auto
  obtain b' where 2: "(net_step host to_ms)\<^sup>*\<^sup>* ?N N'" "procs N' q = Some b'"
    and mono': "\<And>k t. set (records k b1 t p) \<subseteq> set (records k b' t p)"
    and got': "\<And>k t i. dmsg_wire p (own_dmsg k t i) \<in> set xs \<Longrightarrow> transmittable p (own_dmsg k t i) \<Longrightarrow> visible host q p i \<Longrightarrow>
      known k b' t p i"
    using Cons.IH [OF net_ok_step [OF step Cons.prems(1)] _ _ rest] Cons.prems(3) by fastforce
  have keep: "known k b1 t p i \<Longrightarrow> known k b' t p i" for k t i
    using mono' by (auto simp: duplicate_def)
  have steps: "(net_step host to_ms)\<^sup>*\<^sup>* N N'" using step 2(1) by (rule converse_rtranclp_into_rtranclp)
  have m: "known k b' t p i"
    if "dmsg_wire p (own_dmsg k t i) \<in> set (x # xs)" "transmittable p (own_dmsg k t i)" "visible host q p i" for k t i
    using that got [of k t i] got' [of k t i] keep [of k t i] by auto
  show ?case
    by (intro exI [of _ b'] conjI steps 2(2) allI impI order_trans [OF mono mono'] m)
qed

text \<open>What a heartbeat sends, and that it is a step of the network.\<close>

lemma heartbeat_wires:
  assumes "net_ok host N" and "procs N p = Some a"
  obtains e where "heartbeat a = Inr e"
    "net_step host to_ms N (N\<lparr>sent := sent N \<union> {(host p, x) | x. Send x \<in> set e}\<rparr>)"
    "\<And>x. Send x \<in> set e \<Longrightarrow> beat_wire p x"
    "\<And>k t i. i \<in> set (records k a t p) \<Longrightarrow>
      Send (dmsg_wire p (own_dmsg k t i)) \<in> set e \<and> transmittable p (own_dmsg k t i)"
proof -
  have a: "discovery_ok a" "pUuid a = p" "own_transmittable a"
    using net_okD(1) [OF assms] by (simp_all add: member_ok_def)
  let ?ms = "Heartbeat # own_dmsgs Msg a @ own_dmsgs Srv a"
  let ?e = "datagrams p ?ms"
  have beat: "heartbeat a = Inr ?e"
    using heartbeat_eq [OF a(1) own_transmittable_sendable [OF a(3)]] by (simp add: a(2))
  have "net_step host to_ms N (N\<lparr>procs := (procs N)(p \<mapsto> a), sent := sent N \<union> broadcast (host p) ?e,
      logged := logged N \<union> op_log p DoHeartbeat\<rparr>)"
    by (rule net_step.client [OF assms(2)]) (simp_all add: beat)
  moreover have "(procs N)(p \<mapsto> a) = procs N" using assms(2) by auto
  ultimately have step: "net_step host to_ms N (N\<lparr>sent := sent N \<union> {(host p, x) | x. Send x \<in> set ?e}\<rparr>)"
    by (simp add: broadcast_def)
  have tr: "transmittable p m \<and> beat m" if "m \<in> set ?ms" for m
    using that a(3) by (auto simp: own_transmittable_def set_own_dmsgs [OF a(1)] a(2) beat_def)
  have in_ms: "own_dmsg k t i \<in> set ?ms" if "i \<in> set (records k a t p)" for k t i
    using that by (cases k) (auto simp: set_own_dmsgs [OF a(1)] a(2))
  have sends: "Send x \<in> set ?e \<longleftrightarrow> (\<exists>m \<in> set ?ms. x = dmsg_wire p m)" for x by (auto simp: datagrams_def)
  show thesis
  proof (rule that [OF beat step])
    show "beat_wire p x" if "Send x \<in> set ?e" for x
      using that tr unfolding sends beat_wire_def by blast
    show "Send (dmsg_wire p (own_dmsg k t i)) \<in> set ?e \<and> transmittable p (own_dmsg k t i)"
      if "i \<in> set (records k a t p)" for k t i
      using in_ms [OF that] tr unfolding sends by blast
  qed
qed

text \<open>C6 Convergence: in every reachable state, whatever has been lost before, the heartbeat of a process
  \<open>p\<close> succeeds, and it is a step that only sends certain datagrams.  Let another process \<open>q\<close> then receive all of
  these and nothing else, in any order, some of them possibly more than once: it can, this is a run of the
  network, and in the end \<open>q\<close> has an address for each topic and each service of \<open>p\<close> that it may see, and still
  has all that it knew about \<open>p\<close> before.\<close>
theorem heartbeat_converges:
  assumes "net_reachable host to_ms N" and "procs N p = Some a" and "procs N q = Some b" and "p \<noteq> q"
  shows "\<exists>e N1. heartbeat a = Inr e \<and> N1 = N\<lparr>sent := sent N \<union> {(host p, x) | x. Send x \<in> set e}\<rparr> \<and>
    net_step host to_ms N N1 \<and>
    (\<forall>xs. set xs = {x. Send x \<in> set e} \<longrightarrow> (\<exists>N2. receives host (host p) q xs N1 N2) \<and>
      (\<forall>N2. receives host (host p) q xs N1 N2 \<longrightarrow> (net_step host to_ms)\<^sup>*\<^sup>* N1 N2 \<and>
        (\<exists>b'. procs N2 q = Some b' \<and> (\<forall>k t. set (records k b t p) \<subseteq> set (records k b' t p)) \<and>
          (\<forall>k t. \<forall>i \<in> set (records k a t p). scope i \<noteq> Process \<and> (scope i = Host \<longrightarrow> host p = host q) \<longrightarrow>
            (\<exists>j \<in> set (records k b' t p). addr j = addr i \<and> nUuid j = nUuid i)))))"
proof -
  have N: "net_ok host N" using net_reachable_ok [OF assms(1)] .
  obtain e where e: "heartbeat a = Inr e" "net_step host to_ms N (N\<lparr>sent := sent N \<union> {(host p, x) | x. Send x \<in> set e}\<rparr>)"
    and wires: "\<And>x. Send x \<in> set e \<Longrightarrow> beat_wire p x"
    and own: "\<And>k t i. i \<in> set (records k a t p) \<Longrightarrow>
      Send (dmsg_wire p (own_dmsg k t i)) \<in> set e \<and> transmittable p (own_dmsg k t i)"
    using heartbeat_wires [OF N assms(2)] by blast
  let ?N = "N\<lparr>sent := sent N \<union> {(host p, x) | x. Send x \<in> set e}\<rparr>"
  have q: "procs ?N q = Some b" using assms(3) by simp
  have ok: "net_ok host ?N" using net_ok_step [OF e(2) N] .
  have all: "\<forall>x \<in> set xs. beat_wire p x \<and> (host p, x) \<in> sent ?N" if "set xs = {x. Send x \<in> set e}" for xs
    using wires that by auto
  have reached: "(net_step host to_ms)\<^sup>*\<^sup>* ?N N2 \<and> (\<exists>b'. procs N2 q = Some b' \<and>
      (\<forall>k t. set (records k b t p) \<subseteq> set (records k b' t p)) \<and>
      (\<forall>k t. \<forall>i \<in> set (records k a t p). scope i \<noteq> Process \<and> (scope i = Host \<longrightarrow> host p = host q) \<longrightarrow>
        (\<exists>j \<in> set (records k b' t p). addr j = addr i \<and> nUuid j = nUuid i)))"
    if xs: "set xs = {x. Send x \<in> set e}" and run: "receives host (host p) q xs ?N N2" for xs N2
  proof -
    obtain b' where b': "(net_step host to_ms)\<^sup>*\<^sup>* ?N N2" "procs N2 q = Some b'"
        "\<forall>k t. set (records k b t p) \<subseteq> set (records k b' t p)"
      and got: "\<And>k t i. dmsg_wire p (own_dmsg k t i) \<in> set xs \<Longrightarrow> transmittable p (own_dmsg k t i) \<Longrightarrow>
        visible host q p i \<Longrightarrow> known k b' t p i"
      using receives_beats [OF ok q assms(4) all [OF xs] run, of to_ms] by blast
    have "\<exists>j \<in> set (records k b' t p). addr j = addr i \<and> nUuid j = nUuid i"
      if "i \<in> set (records k a t p)" "scope i \<noteq> Process \<and> (scope i = Host \<longrightarrow> host p = host q)" for k t i
      using got [of k t i] own [OF that(1)] that(2) by (simp add: xs visible_def duplicate_def)
    then show ?thesis using b' by blast
  qed
  have total: "\<exists>N2. receives host (host p) q xs ?N N2" if "set xs = {x. Send x \<in> set e}" for xs
    by (rule receives_total [OF ok q assms(4) all [OF that]])
  show ?thesis
    by (rule exI, rule exI, rule conjI [OF e(1)], rule conjI [OF refl], rule conjI [OF e(2)], intro allI impI,
        rule conjI [OF total], assumption, intro allI impI, rule reached)
qed

text \<open>From the state in which B has not heard of A yet.\<close>
lemma heartbeat_converges_witness:
  "\<exists>e N' b'. heartbeat adv_a = Inr e \<and>
     receives one_host ''10.0.0.1'' ''B'' (concat (map (\<lambda>x. case x of Send b \<Rightarrow> [b] | _ \<Rightarrow> []) e))
       (net_a\<lparr>sent := sent net_a \<union> {(''10.0.0.1'', x) | x. Send x \<in> set e}\<rparr>) N' \<and> procs N' ''B'' = Some b' \<and>
     (\<exists>j \<in> set (records Msg b' ''@/a'' ''A''). addr j = ''tcp:1'' \<and> nUuid j = ''na'')"
proof -
  have "procs net_a ''A'' = Some adv_a" "procs net_a ''B'' = Some (fresh ''B'')" by (simp_all add: net_a_def)
  from heartbeat_converges [OF net_a_reachable [of "\<lambda>x. x"] this] obtain e
    where e: "heartbeat adv_a = Inr e"
      and all: "\<forall>xs. set xs = {x. Send x \<in> set e} \<longrightarrow>
        (\<exists>N'. receives one_host ''10.0.0.1'' ''B'' xs
          (net_a\<lparr>sent := sent net_a \<union> {(''10.0.0.1'', x) | x. Send x \<in> set e}\<rparr>) N') \<and>
        (\<forall>N'. receives one_host ''10.0.0.1'' ''B'' xs
          (net_a\<lparr>sent := sent net_a \<union> {(''10.0.0.1'', x) | x. Send x \<in> set e}\<rparr>) N' \<longrightarrow>
          (net_step one_host (\<lambda>x. x))\<^sup>*\<^sup>* (net_a\<lparr>sent := sent net_a \<union> {(''10.0.0.1'', x) | x. Send x \<in> set e}\<rparr>) N' \<and>
          (\<exists>b'. procs N' ''B'' = Some b' \<and>
            (\<forall>k t. set (records k (fresh ''B'') t ''A'') \<subseteq> set (records k b' t ''A'')) \<and>
            (\<forall>k t. \<forall>i \<in> set (records k adv_a t ''A''). scope i \<noteq> Process \<and>
              (scope i = Host \<longrightarrow> one_host ''A'' = one_host ''B'') \<longrightarrow>
              (\<exists>j \<in> set (records k b' t ''A''). addr j = addr i \<and> nUuid j = nUuid i))))"
    by auto
  let ?xs = "concat (map (\<lambda>x. case x of Send b \<Rightarrow> [b] | _ \<Rightarrow> []) e)"
  have "set ?xs = {x. Send x \<in> set e}" by (force split: event.splits)
  note run = mp [OF spec [OF all] this]
  obtain N' where N': "receives one_host ''10.0.0.1'' ''B'' ?xs
      (net_a\<lparr>sent := sent net_a \<union> {(''10.0.0.1'', x) | x. Send x \<in> set e}\<rparr>) N'" using conjunct1 [OF run] by blast
  obtain b' where b': "procs N' ''B'' = Some b'"
    and recs: "\<forall>i \<in> set (records Msg adv_a ''@/a'' ''A''). scope i \<noteq> Process \<and>
      (scope i = Host \<longrightarrow> one_host ''A'' = one_host ''B'') \<longrightarrow>
      (\<exists>j \<in> set (records Msg b' ''@/a'' ''A''). addr j = addr i \<and> nUuid j = nUuid i)"
    using mp [OF spec [OF conjunct2 [OF run]] N'] by blast
  have "\<exists>j \<in> set (records Msg b' ''@/a'' ''A''). addr j = ''tcp:1'' \<and> nUuid j = ''na''"
    using recs by (simp add: records_small rec_a_def)
  then show ?thesis using e N' b' by blast
qed

subsection \<open>A process that ends is forgotten\<close>

text \<open>C29 From every reachable state in which \<open>p\<close> and \<open>q\<close> run, \<open>p\<close> can end, and when its
  last datagram reaches \<open>q\<close>, no record of \<open>p\<close> is left there.\<close>
theorem exit_forgotten:
  assumes "net_reachable host to_ms N" and "procs N p = Some a" and "procs N q = Some b" and "p \<noteq> q"
  shows "\<exists>N1 N2 b'. net_step host to_ms N N1 \<and> procs N1 p = None \<and>
    net_step host to_ms N1 N2 \<and> procs N2 q = Some b' \<and> (\<forall>k t. records k b' t p = [])"
proof -
  have N: "net_ok host N" using net_reachable_ok [OF assms(1)] .
  have a: "pUuid a = p" "transmittable p Heartbeat"
    using net_okD(1) [OF N assms(2)] by (auto simp: member_ok_def own_transmittable_def)
  have b: "discovery_ok b" "pUuid b = q" using net_okD(1) [OF N assms(3)] by (simp_all add: member_ok_def)
  have bye: "transmittable p Bye"
    using a(2) by (simp add: transmittable_def sendable_def fits_def length_dmsg_wire)
  obtain a' e where dtor: "Discovery_dtor a = Inr (a', e)" and e: "Send (dmsg_wire p Bye) \<in> set e"
    using bye a(1) say_wire [of "a\<lparr>exit_flag := True\<rparr>" Bye]
    by (auto simp: Discovery_dtor_def Let_def transmittable_def)
  let ?N1 = "N\<lparr>procs := (procs N)(p := None), sent := sent N \<union> broadcast (host p) e\<rparr>"
  have q: "procs ?N1 q = Some b" using assms(3,4) by simp
  have sent: "(host p, dmsg_wire p Bye) \<in> sent ?N1" using e by (auto simp: broadcast_def)
  obtain b' e' where del: "deliver 0 (host p) p Bye b = Inr (b', e')"
    and none: "\<And>k t. records k b' t p = []"
    using deliver_bye [OF b(1), of p 0 "host p"] b(2) assms(4) by auto
  have recv: "RecvDiscoveryUpdate 0 '''' (Some (host p, dmsg_wire p Bye)) b = Inr (b', e')"
    using del receive_deliver [OF bye] by simp
  have exits: "net_step host to_ms N ?N1" using assms(2) dtor by (rule net_step.exit)
  have gone: "procs ?N1 p = None" by simp
  have heard: "net_step host to_ms ?N1
      (?N1\<lparr>procs := (procs ?N1)(q \<mapsto> b'), sent := sent ?N1 \<union> broadcast (host q) e'\<rparr>)"
    using q sent recv by (rule net_step.receive)
  show ?thesis
    by (rule exI, rule exI, rule exI [of _ b'],
        rule conjI [OF exits], rule conjI [OF gone], rule conjI [OF heard]) (simp add: none)
qed

lemma exit_forgotten_witness:
  "\<exists>N1 N2 b'. net_step one_host (\<lambda>x. x) net_ab N1 \<and> procs N1 ''A'' = None \<and>
     net_step one_host (\<lambda>x. x) N1 N2 \<and> procs N2 ''B'' = Some b' \<and> (\<forall>k t. records k b' t ''A'' = [])"
  by (rule exit_forgotten [OF net_ab_reachable, of _ adv_a _ heard_b]) (simp_all add: net_ab_def)

end
