(* ===== verification/System.thy ===== *)
theory System
  imports NodeCorrect Network
begin

text \<open>
  Whole processes that run together: each has its shared node, with the discovery inside, and its
  nodes.  The datagrams go through the multicast group, the frames through the 0MQ sockets of the
  processes.  A state holds the running processes, what each process has asked of its sockets so
  far, and a journal of what the users have done.

  What has been sent may be received at any time, more than once, or never.  Frames of the control,
  request and reply sockets go to the process whose end point or identity they name.  When a
  subscriber socket hands over a published message is the business of the 0MQ library: it is the
  parameter \<open>deliverable\<close>, a property of what the process has asked of its sockets, of the
  address that the message comes from, and of its topic.
\<close>

subsection \<open>Operations of a node\<close>

datatype 'm node_op =
    OpAdvertise string scope
  | OpUnadvertise string
  | OpSubscribe string string "string \<Rightarrow> 'm" bool
  | OpUnsubscribe string
  | OpPublish string 'm "'m \<Rightarrow> string"
  | OpAdvertiseSrv string string "string \<Rightarrow> 'm" 'm "'m \<Rightarrow> string"
      "(string \<Rightarrow> 'm \<Rightarrow> 'm \<Rightarrow> bool \<Rightarrow> 'm \<times> bool) option" scope
  | OpUnadvertiseSrv string
  | OpRequest string 'm string "string \<Rightarrow> 'm" "'m \<Rightarrow> string" 'm bool 'm bool
  | OpRequestWait string 'm string "string \<Rightarrow> 'm" "'m \<Rightarrow> string" 'm 'm bool

definition without_result :: "'m node_result \<Rightarrow> (node \<times> 'm node_shared \<times> 'm io list) res" where
  "without_result r = rbind r (\<lambda>(nd, s, e, _). Inr (nd, s, e))"

fun node_step ::
    "('m io \<Rightarrow> bool) \<Rightarrow> 'm node_op \<Rightarrow> node \<Rightarrow> 'm node_shared \<Rightarrow> (node \<times> 'm node_shared \<times> 'm io list) res" where
  "node_step fails (OpAdvertise topic sc) nd s = without_result (Node_Advertise fails topic sc nd s)"
| "node_step fails (OpUnadvertise topic) nd s = without_result (Node_Unadvertise fails topic nd s)"
| "node_step fails (OpSubscribe topic u create cb) nd s =
     without_result (Node_Subscribe fails topic u create cb nd s)"
| "node_step fails (OpUnsubscribe topic) nd s = without_result (Node_Unsubscribe fails topic nd s)"
| "node_step fails (OpPublish topic msg serialize) nd s =
     Inr (nd, s, fst (Node_Publish fails serialize topic msg nd s))"
| "node_step fails (OpAdvertiseSrv topic u create new serialize cb sc) nd s =
     without_result (Node_AdvertiseSrv fails topic u create new serialize cb sc nd s)"
| "node_step fails (OpUnadvertiseSrv topic) nd s = without_result (Node_UnadvertiseSrv fails topic nd s)"
| "node_step fails (OpRequest topic msg u create serialize new cb rep0 result0) nd s =
     without_result (Node_Request fails topic msg u create serialize new cb rep0 result0 nd s)"
| "node_step fails (OpRequestWait topic msg u create serialize new rep0 result0) nd s =
     rbind (Node_Request_start fails topic msg u create serialize new rep0 result0 nd s)
       (\<lambda>(st, s, e). Inr (nd, s, e))"

text \<open>What the operation asks of the discovery, if it comes to that.\<close>

fun discovery_ops :: "'m node_op \<Rightarrow> string \<Rightarrow> node \<Rightarrow> 'm node_shared \<Rightarrow> discovery_op list" where
  "discovery_ops (OpAdvertise topic sc) t nd s =
     [DoAdvertise Msg t (myAddress s) (myControlAddress s) (nd_nUuid nd) sc]"
| "discovery_ops (OpUnadvertise topic) t nd s = [DoUnadvertise Msg t (nd_nUuid nd)]"
| "discovery_ops (OpSubscribe topic u create cb) t nd s = [DoDiscover t False]"
| "discovery_ops (OpAdvertiseSrv topic u create new serialize cb sc) t nd s =
     [DoAdvertise Srv t (myReplierAddress s) (replierId s) (nd_nUuid nd) sc]"
| "discovery_ops (OpUnadvertiseSrv topic) t nd s = [DoUnadvertise Msg t (nd_nUuid nd)]"
| "discovery_ops (OpRequest topic msg u create serialize new cb rep0 result0) t nd s = [DoDiscover t True]"
| "discovery_ops (OpRequestWait topic msg u create serialize new rep0 result0) t nd s = [DoDiscover t True]"
| "discovery_ops _ t nd s = []"

fun op_topic :: "'m node_op \<Rightarrow> string" where
  "op_topic (OpAdvertise topic sc) = topic"
| "op_topic (OpUnadvertise topic) = topic"
| "op_topic (OpSubscribe topic u create cb) = topic"
| "op_topic (OpUnsubscribe topic) = topic"
| "op_topic (OpPublish topic msg serialize) = topic"
| "op_topic (OpAdvertiseSrv topic u create new serialize cb sc) = topic"
| "op_topic (OpUnadvertiseSrv topic) = topic"
| "op_topic (OpRequest topic msg u create serialize new cb rep0 result0) = topic"
| "op_topic (OpRequestWait topic msg u create serialize new rep0 result0) = topic"

text \<open>The names and addresses fit into a datagram.\<close>

definition op_fits :: "string \<Rightarrow> 'm node_op \<Rightarrow> node \<Rightarrow> 'm node_shared \<Rightarrow> bool" where
  "op_fits p op nd s \<longleftrightarrow>
     (\<forall>t. fqn nd (op_topic op) = Some t \<longrightarrow> (\<forall>x \<in> set (discovery_ops op t nd s). local_op p x))"

text \<open>The journal of what users have done: records advertised, subscriptions, publications with
  their data, requests, and services offered, each with its handler.\<close>

record 'm journal =
  adverts :: "(msg_kind \<times> string \<times> string \<times> address) set"
  subs :: "(string \<times> string \<times> 'm sub_handler) set"
  pubs :: "(string \<times> string \<times> 'm \<times> string) set"
  reqs :: "(string \<times> string \<times> 'm req_handler) set"
  reps :: "(string \<times> string \<times> 'm rep_handler) set"

definition op_adverts ::
    "string \<Rightarrow> 'm node_op \<Rightarrow> node \<Rightarrow> 'm node_shared \<Rightarrow> (msg_kind \<times> string \<times> string \<times> address) set" where
  "op_adverts p op nd s =
     (case fqn nd (op_topic op) of
        None \<Rightarrow> {}
      | Some t \<Rightarrow> \<Union> (op_log p ` set (discovery_ops op t nd s)))"

fun op_subs :: "'m node_op \<Rightarrow> node \<Rightarrow> 'm sub_handler set" where
  "op_subs (OpSubscribe topic u create cb) nd =
     {sub_SetCallback cb (SubscriptionHandler_ctor u (nd_nUuid nd) create)}"
| "op_subs _ nd = {}"

fun op_pubs :: "'m node_op \<Rightarrow> string \<Rightarrow> node \<Rightarrow> ('m \<times> string) set" where
  "op_pubs (OpPublish topic msg serialize) t nd =
     (if t \<in> set (topicsAdvertised nd) then {(msg, serialize msg)} else {})"
| "op_pubs _ t nd = {}"

fun op_reqs :: "'m node_op \<Rightarrow> node \<Rightarrow> 'm req_handler set" where
  "op_reqs (OpRequest topic msg u create serialize new cb rep0 result0) nd =
     {req_SetCallback cb (req_SetMessage msg (ReqHandler_ctor u (nd_nUuid nd) create serialize new))}"
| "op_reqs (OpRequestWait topic msg u create serialize new rep0 result0) nd =
     {req_SetMessage msg (ReqHandler_ctor u (nd_nUuid nd) create serialize new)}"
| "op_reqs _ nd = {}"

fun op_reps :: "'m node_op \<Rightarrow> 'm rep_handler set" where
  "op_reps (OpAdvertiseSrv topic u create new serialize cb sc) =
     {rep_SetCallback cb (RepHandler_ctor u create new serialize)}"
| "op_reps _ = {}"

definition enter :: "string \<Rightarrow> 'm node_op \<Rightarrow> node \<Rightarrow> 'm node_shared \<Rightarrow> 'm journal \<Rightarrow> 'm journal" where
  "enter p op nd s j =
     (case fqn nd (op_topic op) of
        None \<Rightarrow> j
      | Some t \<Rightarrow> \<lparr>adverts = adverts j \<union> op_adverts p op nd s,
          subs = subs j \<union> (\<lambda>h. (t, p, h)) ` op_subs op nd,
          pubs = pubs j \<union> (\<lambda>(m, data). (t, p, m, data)) ` op_pubs op t nd,
          reqs = reqs j \<union> (\<lambda>h. (t, p, h)) ` op_reqs op nd,
          reps = reps j \<union> (\<lambda>h. (t, p, h)) ` op_reps op\<rparr>)"

subsection \<open>States and steps\<close>

record 'm member =
  shared :: "'m node_shared"
  nodes :: "string \<Rightarrow> node option"

record 'm system =
  members :: "string \<Rightarrow> 'm member option"
  hist :: "string \<Rightarrow> 'm io list"
  journal :: "'m journal"

definition system0 :: "'m system" where
  "system0 = \<lparr>members = (\<lambda>_. None), hist = (\<lambda>_. []),
     journal = \<lparr>adverts = {}, subs = {}, pubs = {}, reqs = {}, reps = {}\<rparr>\<rparr>"

text \<open>Process \<open>p\<close> changes to \<open>m\<close> and asks \<open>e\<close> of its sockets.\<close>

definition evolve :: "string \<Rightarrow> 'm member option \<Rightarrow> 'm io list \<Rightarrow> 'm system \<Rightarrow> 'm system" where
  "evolve p m e S = S\<lparr>members := (members S)(p := m), hist := (hist S)(p := hist S p @ e)\<rparr>"

definition log_op :: "string \<Rightarrow> 'm node_op \<Rightarrow> node \<Rightarrow> 'm node_shared \<Rightarrow> 'm system \<Rightarrow> 'm system" where
  "log_op p op nd s S = S\<lparr>journal := enter p op nd s (journal S)\<rparr>"

fun send_io :: "event \<Rightarrow> 'm io list" where
  "send_io (Send b) = [Datagram b]"
| "send_io (Call cb t a c p n sc) = []"

inductive sys_step ::
    "(string \<Rightarrow> string) \<Rightarrow> (int \<Rightarrow> int) \<Rightarrow> ('m io list \<Rightarrow> string \<Rightarrow> string \<Rightarrow> bool) \<Rightarrow> 'm system \<Rightarrow> 'm system \<Rightarrow> bool"
  for host :: "string \<Rightarrow> string" and to_ms :: "int \<Rightarrow> int"
    and deliverable :: "'m io list \<Rightarrow> string \<Rightarrow> string \<Rightarrow> bool" where
  start: "members S p = None \<Longrightarrow> hist S p = [] \<Longrightarrow> transmittable p Heartbeat \<Longrightarrow>
    (\<And>k t i. (k, t, p, i) \<notin> adverts (journal S)) \<Longrightarrow>
    sys_step host to_ms deliverable S
      (evolve p (Some \<lparr>shared = NodeShared_ctor p (host p) a_pub a_ctrl a_req a_rep id_resp id_rep,
         nodes = (\<lambda>_. None)\<rparr>) [] S)"
| new_node: "members S p = Some m \<Longrightarrow> nodes m u = None \<Longrightarrow>
    nd = Node_ctor env u \<or> nd = Node_ctor_with env u0 part ns u \<Longrightarrow>
    sys_step host to_ms deliverable S (evolve p (Some (m\<lparr>nodes := (nodes m)(u \<mapsto> nd)\<rparr>)) [] S)"
| node: "members S p = Some m \<Longrightarrow> nodes m u = Some nd \<Longrightarrow> op_fits p op nd (shared m) \<Longrightarrow>
    node_step fails op nd (shared m) = Inr (nd', s', e) \<Longrightarrow>
    sys_step host to_ms deliverable S
      (log_op p op nd (shared m) (evolve p (Some \<lparr>shared = s', nodes = (nodes m)(u \<mapsto> nd')\<rparr>) e S))"
| end_node: "members S p = Some m \<Longrightarrow> nodes m u = Some nd \<Longrightarrow>
    SubscribedTopics nd = [] \<Longrightarrow> AdvertisedTopics nd = [] \<Longrightarrow> AdvertisedServices nd = [] \<Longrightarrow>
    sys_step host to_ms deliverable S (evolve p (Some (m\<lparr>nodes := (nodes m)(u := None)\<rparr>)) [] S)"
| task: "members S p = Some m \<Longrightarrow> op = DoSweep now \<or> op = DoHeartbeat \<Longrightarrow>
    with_discovery fails (discovery_step to_ms op) (shared m) = Inr (s', e) \<Longrightarrow>
    sys_step host to_ms deliverable S (evolve p (Some (m\<lparr>shared := s'\<rparr>)) e S)"
| datagram: "members S q = Some m \<Longrightarrow> Datagram b \<in> set (hist S p) \<Longrightarrow>
    with_discovery fails (RecvDiscoveryUpdate now stack (Some (host p, b))) (shared m) = Inr (s', e) \<Longrightarrow>
    sys_step host to_ms deliverable S (evolve q (Some (m\<lparr>shared := s'\<rparr>)) e S)"
| msg: "members S q = Some m \<Longrightarrow> PublishFrames [t, a, data] \<in> set (hist S p) \<Longrightarrow>
    deliverable (hist S q) a t \<Longrightarrow>
    sys_step host to_ms deliverable S (evolve q (Some m) (RecvMsgUpdate (Some (t, a, data)) (shared m)) S)"
| control: "members S q = Some m \<Longrightarrow> ControlFrames (myControlAddress (shared m)) [t, u, n, data] \<in> set (hist S p) \<Longrightarrow>
    RecvControlUpdate (Some (t, u, n, data)) (shared m) = Inr s' \<Longrightarrow>
    sys_step host to_ms deliverable S (evolve q (Some (m\<lparr>shared := s'\<rparr>)) [] S)"
| request: "members S q = Some m \<Longrightarrow>
    RequestFrames [replierId (shared m), t, sender, dst, n, u, req] \<in> set (hist S p) \<Longrightarrow>
    RecvSrvRequest fails result0 (Some (t, sender, dst, n, u, req)) (shared m) = Inr (s', e) \<Longrightarrow>
    sys_step host to_ms deliverable S (evolve q (Some (m\<lparr>shared := s'\<rparr>)) e S)"
| response: "members S q = Some m \<Longrightarrow>
    ReplyFrames [responseReceiverId (shared m), t, n, u, rep, flag] \<in> set (hist S p) \<Longrightarrow>
    RecvSrvResponse (Some (t, n, u, rep, flag)) (shared m) = (s', e) \<Longrightarrow>
    sys_step host to_ms deliverable S (evolve q (Some (m\<lparr>shared := s'\<rparr>)) e S)"
| exit: "members S p = Some m \<Longrightarrow> Discovery_dtor (disc (shared m)) = Inr (d, e) \<Longrightarrow>
    sys_step host to_ms deliverable S (evolve p None (concat (map send_io e)) S)"

definition sys_reachable ::
    "(string \<Rightarrow> string) \<Rightarrow> (int \<Rightarrow> int) \<Rightarrow> ('m io list \<Rightarrow> string \<Rightarrow> string \<Rightarrow> bool) \<Rightarrow> 'm system \<Rightarrow> bool" where
  "sys_reachable host to_ms deliverable S \<longleftrightarrow> (sys_step host to_ms deliverable)\<^sup>*\<^sup>* system0 S"

subsection \<open>What a step does to the discovery\<close>

text \<open>The callbacks leave the discovery alone and send no datagrams.\<close>

definition datagrams_of :: "'m io list \<Rightarrow> string set" where
  "datagrams_of e = {b. Datagram b \<in> set e}"

definition sends_of :: "event list \<Rightarrow> string set" where
  "sends_of e = {b. Send b \<in> set e}"

lemma datagrams_of_simps [simp]:
  "datagrams_of [] = {}" "datagrams_of (e @ e') = datagrams_of e \<union> datagrams_of e'"
  "datagrams_of (Datagram b # e) = insert b (datagrams_of e)"
  by (auto simp: datagrams_of_def)

lemma sends_of_simps [simp]:
  "sends_of [] = {}" "sends_of (Send b # e) = insert b (sends_of e)"
  "sends_of (Call cb t a c p n sc # e) = sends_of e"
  by (auto simp: sends_of_def)

lemma datagrams_of_send_io [simp]: "datagrams_of (concat (map send_io e)) = sends_of e"
proof (induction e)
  case (Cons x e)
  then show ?case by (cases x) simp_all
qed simp

lemma OnNewConnection_disc:
  "disc (fst (OnNewConnection fails t a c p n sc s)) = disc s"
  "datagrams_of (snd (OnNewConnection fails t a c p n sc s)) = {}"
  by (auto simp: OnNewConnection_def Let_def datagrams_of_def dest!: set_takeWhileD)

lemma OnNewDisconnection_disc:
  "OnNewDisconnection fails t p n s = Inr (s', e) \<Longrightarrow> disc s' = disc s \<and> datagrams_of e = {}"
  by (auto simp: OnNewDisconnection_def Let_def datagrams_of_def split: if_splits option.splits)

lemma send_pending_disc:
  "disc (fst (send_pending fails t i rs s)) = disc s \<and> datagrams_of (snd (send_pending fails t i rs s)) = {}"
proof (induction rs arbitrary: s)
  case (Cons r rs)
  show ?case
    using Cons.IH [of s] Cons.IH [of "s\<lparr>heap := (heap s)[r := SetRequested True (heap s ! r)]\<rparr>"]
    by (auto simp: Let_def case_prod_unfold request_frames_def datagrams_of_def)
qed simp

lemma SendPending_disc:
  assumes "SendPendingRemoteReqs fails t s = Inr (s', e)"
  shows "disc s' = disc s \<and> datagrams_of e = {}"
proof -
  have "(s', e) = (s, []) \<or> (\<exists>i rs. (s', e) = send_pending fails t i rs s)"
    using assms
    by (auto simp: SendPendingRemoteReqs_def split: option.splits list.splits prod.splits intro: sym)
  then show ?thesis
    using send_pending_disc by (metis datagrams_of_simps(1) fst_conv snd_conv)
qed

lemma OnNewSrvConnection_disc:
  "OnNewSrvConnection fails t a s = Inr (s', e) \<Longrightarrow> disc s' = disc s \<and> datagrams_of e = {}"
  by (auto simp: OnNewSrvConnection_def Let_def rbind_eq_Inr_iff datagrams_of_def
      split: if_splits dest!: SendPending_disc)

lemma handle_event_disc:
  assumes "handle_event fails x s = Inr (s', e)"
  shows "disc s' = disc s \<and> datagrams_of e = sends_of [x]"
proof (cases x)
  case (Send b)
  then show ?thesis using assms by auto
next
  case (Call cb t a c p n sc)
  then show ?thesis
    using assms OnNewConnection_disc [of fails t a c p n sc s] OnNewDisconnection_disc [of fails t p n s s' e]
      OnNewSrvConnection_disc [of fails t a s s' e]
    by (cases cb) (auto simp: OnNewSrvDisconnection_def)
qed

lemma handle_events_disc:
  "handle_events fails ev s = Inr (s', e) \<Longrightarrow> disc s' = disc s \<and> datagrams_of e = sends_of ev"
proof (induction ev arbitrary: s e)
  case (Cons x ev)
  from Cons.prems obtain s1 e1 e2 where "handle_event fails x s = Inr (s1, e1)"
    "handle_events fails ev s1 = Inr (s', e2)" "e = e1 @ e2"
    by (auto simp: rbind_eq_Inr_iff)
  then show ?case
    using handle_event_disc [of fails x s s1 e1] Cons.IH [of s1 e2] by (auto simp: sends_of_def)
qed simp

lemma with_discovery_disc:
  assumes "with_discovery fails f s = Inr (s', e)"
  shows "\<exists>ev. f (disc s) = Inr (disc s', ev) \<and> datagrams_of e = sends_of ev"
  using assms handle_events_disc by (fastforce simp: with_discovery_def rbind_eq_Inr_iff)

text \<open>An operation of a node makes at most the request to the discovery that \<open>discovery_ops\<close> names.\<close>

definition serves :: "string \<Rightarrow> (int \<Rightarrow> int) \<Rightarrow> discovery_op list \<Rightarrow> discovery \<Rightarrow> discovery \<Rightarrow> string set \<Rightarrow> bool" where
  "serves p to_ms ops d d' bs \<longleftrightarrow>
     (d' = d \<and> bs = {} \<and> (\<forall>x \<in> set ops. op_log p x = {})) \<or>
     (\<exists>x ev. ops = [x] \<and> discovery_step to_ms x d = Inr (d', ev) \<and> bs = sends_of ev)"

lemma serves_none: "\<forall>x \<in> set ops. op_log p x = {} \<Longrightarrow> serves p to_ms ops d d {}"
  by (simp add: serves_def)

lemma serves_discovery:
  "with_discovery fails f s = Inr (s', e) \<Longrightarrow> discovery_step to_ms x = f \<Longrightarrow> disc s = d \<Longrightarrow>
     serves p to_ms [x] d (disc s') (datagrams_of e)"
  by (drule with_discovery_disc) (auto simp: serves_def)

lemma discovery_step_fun:
  "discovery_step to_ms (DoAdvertise k t a c n sc) = Advertise k t a c n sc"
  "discovery_step to_ms (DoUnadvertise k t n) = Unadvertise k t n"
  "discovery_step to_ms (DoDiscover t b) = (\<lambda>d. rbind (Discover t b d) (\<lambda>e. Inr (d, e)))"
  by (simp_all add: fun_eq_iff)

lemma file_request_serves:
  assumes "file_request fails t h nd s = Inr (s', e)"
  shows "serves p to_ms [DoDiscover t True] (disc s) (disc s') (datagrams_of e)"
proof (cases "GetSrvAddresses t (disc s)")
  case None
  with assms show ?thesis
    by (auto simp: file_request_def Let_def intro: serves_discovery [OF _ discovery_step_fun(3)])
next
  case (Some v)
  then show ?thesis
    using assms SendPending_disc
    by (fastforce simp: file_request_def Let_def intro: serves_none)
qed

lemma node_step_serves:
  assumes "node_step fails op nd s = Inr (nd', s', e)" and "fqn nd (op_topic op) = Some t"
  shows "serves p to_ms (discovery_ops op t nd s) (disc s) (disc s') (datagrams_of e)"
proof (cases op)
  case (OpAdvertise topic sc)
  then show ?thesis using assms
    by (auto simp: without_result_def Node_Advertise_def Let_def rbind_eq_Inr_iff
        intro: serves_discovery [OF _ discovery_step_fun(1)])
next
  case (OpUnadvertise topic)
  then show ?thesis using assms
    by (auto simp: without_result_def Node_Unadvertise_def Let_def rbind_eq_Inr_iff
        intro: serves_discovery [OF _ discovery_step_fun(2)])
next
  case (OpSubscribe topic u create cb)
  then show ?thesis using assms
    by (auto simp: without_result_def Node_Subscribe_def Let_def rbind_eq_Inr_iff
        intro: serves_discovery [OF _ discovery_step_fun(3)])
next
  case (OpUnsubscribe topic)
  then show ?thesis using assms
    by (auto simp: without_result_def Node_Unsubscribe_def Let_def rbind_eq_Inr_iff datagrams_of_def
        serves_def split: if_splits option.splits)
next
  case (OpPublish topic msg serialize)
  then show ?thesis using assms
    by (auto simp: Node_Publish_def Publish_def Let_def datagrams_of_def serves_def split: if_splits option.splits)
next
  case (OpAdvertiseSrv topic u create new serialize cb sc)
  then show ?thesis using assms
    by (auto simp: without_result_def Node_AdvertiseSrv_def Let_def rbind_eq_Inr_iff
        intro: serves_discovery [OF _ discovery_step_fun(1)])
next
  case (OpUnadvertiseSrv topic)
  then show ?thesis using assms
    by (auto simp: without_result_def Node_UnadvertiseSrv_def Let_def rbind_eq_Inr_iff
        intro: serves_discovery [OF _ discovery_step_fun(2)])
next
  case (OpRequest topic msg u create serialize new cb rep0 result0)
  then show ?thesis using assms
    by (auto simp: without_result_def Node_Request_def Let_def rbind_eq_Inr_iff case_prod_unfold datagrams_of_def [of "[UserCall x]" for x]
        serves_none split: option.splits intro: file_request_serves)
next
  case (OpRequestWait topic msg u create serialize new rep0 result0)
  then show ?thesis using assms
    by (auto simp: Node_Request_start_def Let_def rbind_eq_Inr_iff case_prod_unfold
        serves_none split: option.splits intro: file_request_serves)
qed

lemma node_step_invalid:
  assumes "node_step fails op nd s = Inr (nd', s', e)" and "fqn nd (op_topic op) = None"
  shows "nd' = nd \<and> s' = s \<and> e = []"
  using assms
  by (cases op)
    (auto simp: without_result_def Node_Advertise_def Node_Unadvertise_def Node_Subscribe_def
      Node_Unsubscribe_def Node_Publish_def Node_AdvertiseSrv_def Node_UnadvertiseSrv_def
      Node_Request_def Node_Request_start_def rbind_eq_Inr_iff)

subsection \<open>The system simulates the network\<close>

definition net_of :: "(string \<Rightarrow> string) \<Rightarrow> 'm system \<Rightarrow> network" where
  "net_of host S = \<lparr>procs = (\<lambda>p. map_option (disc \<circ> shared) (members S p)),
     sent = {(host p, b) | p b. b \<in> datagrams_of (hist S p)}, logged = adverts (journal S)\<rparr>"

lemma net_of_evolve:
  "net_of host (evolve p m e S) = (net_of host S)\<lparr>
     procs := (procs (net_of host S))(p := map_option (disc \<circ> shared) m),
     sent := sent (net_of host S) \<union> {(host p, b) | b. b \<in> datagrams_of e}\<rparr>"
  by (auto simp: net_of_def evolve_def fun_eq_iff split: if_splits)

lemma net_of_log_op:
  "net_of host (log_op p op nd s S) = (net_of host S)\<lparr>logged := adverts (journal S) \<union> op_adverts p op nd s\<rparr>"
  by (simp add: net_of_def log_op_def enter_def op_adverts_def split: option.split)

lemma net_of_fields [simp]:
  "procs (net_of host S) p = map_option (disc \<circ> shared) (members S p)"
  "logged (net_of host S) = adverts (journal S)"
  by (simp_all add: net_of_def)

lemma broadcast_sends: "broadcast ip e = {(ip, b) | b. b \<in> sends_of e}"
  by (simp add: broadcast_def sends_of_def)

text \<open>A change that leaves the discovery and the network alone.\<close>

lemma net_of_silent:
  "members S p = Some m \<Longrightarrow> disc (shared m') = disc (shared m) \<Longrightarrow> datagrams_of e = {} \<Longrightarrow>
     net_of host (evolve p (Some m') e S) = net_of host S"
  by (auto simp: net_of_def evolve_def fun_eq_iff split: if_splits)

lemma net_client:
  assumes "procs N p = Some d" and "local_op p x" and "discovery_step to_ms x d = Inr (d', ev)"
    and "N' = N\<lparr>procs := (procs N)(p \<mapsto> d'), sent := sent N \<union> {(host p, b) | b. b \<in> sends_of ev},
      logged := logged N \<union> op_log p x\<rparr>"
  shows "net_step host to_ms N N'"
  using net_step.client [OF assms(1-3), of host] by (simp add: assms(4) broadcast_sends)

lemma net_client_quiet:
  assumes "procs N p = Some d" and "local_op p x" and "op_log p x = {}"
    and "discovery_step to_ms x d = Inr (d', ev)"
    and "N' = N\<lparr>procs := (procs N)(p \<mapsto> d'), sent := sent N \<union> {(host p, b) | b. b \<in> sends_of ev}\<rparr>"
  shows "net_step host to_ms N N'"
  by (rule net_client [OF assms(1,2,4)]) (simp add: assms(3,5))

lemma net_node_step:
  assumes "procs N p = Some (disc s)" and "op_fits p op nd s" and "node_step fails op nd s = Inr (nd', s', e)"
    and "N' = N\<lparr>procs := (procs N)(p \<mapsto> disc s'), sent := sent N \<union> {(host p, b) | b. b \<in> datagrams_of e},
      logged := logged N \<union> op_adverts p op nd s\<rparr>"
  shows "(net_step host to_ms)\<^sup>*\<^sup>* N N'"
proof (cases "fqn nd (op_topic op)")
  case None
  then have "s' = s" "e = []" using node_step_invalid [OF assms(3)] by simp_all
  then have "N' = N" using None assms(1,4) by (auto simp: op_adverts_def fun_upd_idem)
  then show ?thesis by simp
next
  case (Some t)
  from node_step_serves [OF assms(3) Some, of p to_ms]
  consider "disc s' = disc s" "datagrams_of e = {}" "\<forall>x \<in> set (discovery_ops op t nd s). op_log p x = {}"
    | x ev where "discovery_ops op t nd s = [x]" "discovery_step to_ms x (disc s) = Inr (disc s', ev)"
      "datagrams_of e = sends_of ev"
    unfolding serves_def by blast
  then show ?thesis
  proof cases
    case 1
    then have "N' = N" using Some assms(1,4) by (simp add: op_adverts_def fun_upd_idem)
    then show ?thesis by simp
  next
    case (2 x ev)
    moreover have "local_op p x" using assms(2) Some 2(1) by (simp add: op_fits_def)
    ultimately have "net_step host to_ms N N'"
      using assms(1,4) Some by (intro net_client [where d = "disc s"]) (simp_all add: op_adverts_def)
    then show ?thesis by (rule r_into_rtranclp)
  qed
qed

lemma net_start:
  assumes "procs N p = None" and "transmittable p Heartbeat"
  shows "(net_step host to_ms)\<^sup>*\<^sup>* N
    (N\<lparr>procs := (procs N)(p \<mapsto> disc (NodeShared_ctor p (host p) a_pub a_ctrl a_req a_rep id_resp id_rep))\<rparr>)"
proof -
  let ?N = "\<lambda>d. N\<lparr>procs := (procs N)(p \<mapsto> d)\<rparr>"
  let ?d0 = "Discovery_ctor p False (host p)"
  let ?d1 = "SetConnectionsCb True ?d0"
  let ?d2 = "SetDisconnectionsCb True ?d1"
  let ?d3 = "SetConnectionsSrvCb True ?d2"
  have "net_step host to_ms N (?N ?d0)" using assms by (rule net_step.start)
  moreover have cb: "net_step host to_ms (?N d) (?N (set_callback cb True d))" for cb d
    by (rule net_client_quiet [where x = "DoSetCallback cb True" and ev = "[]" and p = p and d = d])
      simp_all
  have "net_step host to_ms (?N ?d0) (?N ?d1)" "net_step host to_ms (?N ?d1) (?N ?d2)"
    "net_step host to_ms (?N ?d2) (?N ?d3)" "net_step host to_ms (?N ?d3) (?N (SetDisconnectionsSrvCb True ?d3))"
    using cb [of ?d0 ConnectionCb] cb [of ?d1 DisconnectionCb] cb [of ?d2 ConnectionSrvCb]
      cb [of ?d3 DisconnectionSrvCb] by simp_all
  ultimately show ?thesis
    by (simp add: NodeShared_ctor_def)
qed

lemma net_of_step:
  assumes "sys_step host to_ms deliverable S S'"
  shows "(net_step host to_ms)\<^sup>*\<^sup>* (net_of host S) (net_of host S')"
  using assms
proof cases
  case (start p a_pub a_ctrl a_req a_rep id_resp id_rep)
  then have "net_of host S' = (net_of host S)\<lparr>procs := (procs (net_of host S))
      (p \<mapsto> disc (NodeShared_ctor p (host p) a_pub a_ctrl a_req a_rep id_resp id_rep :: 'a node_shared))\<rparr>"
    by (simp add: net_of_evolve)
  then show ?thesis using start net_start [where N = "net_of host S" and p = p and host = host and to_ms = to_ms] by simp
next
  case (node p m u nd op fails nd' s' e)
  have "net_of host S' = (net_of host S)\<lparr>procs := (procs (net_of host S))(p \<mapsto> disc s'),
      sent := sent (net_of host S) \<union> {(host p, b) | b. b \<in> datagrams_of e},
      logged := logged (net_of host S) \<union> op_adverts p op nd (shared m)\<rparr>"
    by (simp add: node(1) net_of_log_op net_of_evolve) (simp add: evolve_def)
  then show ?thesis using node by (intro net_node_step [of _ _ "shared m"]) simp_all
next
  case (task p m op now fails s' e)
  obtain ev where ev: "discovery_step to_ms op (disc (shared m)) = Inr (disc s', ev)"
    "datagrams_of e = sends_of ev" using with_discovery_disc [OF task(4)] by blast
  have "net_step host to_ms (net_of host S) (net_of host S')"
  proof (rule net_client_quiet [OF _ _ _ ev(1)])
    show "procs (net_of host S) p = Some (disc (shared m))" using task(2) by simp
    show "local_op p op" "op_log p op = {}" using task(3) by auto
  qed (simp add: task(1) net_of_evolve ev(2))
  then show ?thesis by (rule r_into_rtranclp)
next
  case (datagram q m b p fails now stack s' e)
  obtain ev where ev: "RecvDiscoveryUpdate now stack (Some (host p, b)) (disc (shared m)) = Inr (disc s', ev)"
    "datagrams_of e = sends_of ev" using with_discovery_disc [OF datagram(4)] by blast
  have "procs (net_of host S) q = Some (disc (shared m))" using datagram(2) by simp
  moreover have "(host p, b) \<in> sent (net_of host S)"
    using datagram(3) by (auto simp: net_of_def datagrams_of_def)
  ultimately have "net_step host to_ms (net_of host S) (net_of host S')"
    using net_step.receive [OF _ _ ev(1), where N = "net_of host S" and q = q and to_ms = to_ms and host = host]
    by (simp add: datagram(1) net_of_evolve ev(2) broadcast_sends)
  then show ?thesis by (rule r_into_rtranclp)
next
  case (exit p m d e)
  have "net_step host to_ms (net_of host S) (net_of host S')"
    using net_step.exit [OF _ exit(3), where N = "net_of host S" and p = p and host = host and to_ms = to_ms] exit(2)
    by (simp add: exit(1) net_of_evolve broadcast_sends)
  then show ?thesis by (rule r_into_rtranclp)
next
  case (msg q m t a data p)
  have "datagrams_of (RecvMsgUpdate (Some (t, a, data)) (shared m)) = {}"
    by (auto simp: RecvMsgUpdate_def datagrams_of_def sub_RunCallback_def)
  then show ?thesis using msg net_of_silent [OF msg(2)] by simp
next
  case (control q m t u n data p s')
  then have "disc s' = disc (shared m)"
    by (auto simp: RecvControlUpdate_def rbind_eq_Inr_iff split: if_splits)
  then show ?thesis using control net_of_silent [OF control(2)] by simp
next
  case (request q m t sender dst n u req p fails result0 s' e)
  then have "disc s' = disc (shared m)" "datagrams_of e = {}"
    by (auto simp: RecvSrvRequest_def rbind_eq_Inr_iff Let_def case_prod_unfold datagrams_of_def
        split: option.splits if_splits)
  then show ?thesis using request net_of_silent [OF request(2)] by simp
next
  case (response q m t n u rep flag p s' e)
  then have "disc s' = disc (shared m)" "datagrams_of e = {}"
    by (auto simp: RecvSrvResponse_def Let_def case_prod_unfold datagrams_of_def split: option.splits)
  then show ?thesis using response net_of_silent [OF response(2)] by simp
qed (simp_all add: net_of_silent)

lemma net_of_system0: "net_of host system0 = net0"
  by (simp add: net_of_def system0_def net0_def)

lemma net_of_reachable:
  assumes "sys_reachable host to_ms deliverable S"
  shows "net_reachable host to_ms (net_of host S)"
  using assms unfolding sys_reachable_def
proof (induction rule: rtranclp_induct)
  case base
  show ?case by (simp add: net_of_system0 net_reachable_net0)
next
  case (step S S')
  then show ?case using net_of_step [OF step(2)] unfolding net_reachable_def by (meson rtranclp_trans)
qed

end
