(* ===== verification/SystemCorrect.thy ===== *)
theory SystemCorrect
  imports System
begin

text \<open>
  What holds in every reachable state of a system of processes: the state of each process is one
  of its reachable states, everything that is stored about other processes and everything that goes
  over the network or to a user's callback can be traced back to something that a user has done.
\<close>

subsection \<open>Where things come from\<close>

text \<open>A request handler without what changes in it.\<close>

definition same_request :: "'m req_handler \<Rightarrow> 'm req_handler \<Rightarrow> bool" where
  "same_request h h' \<longleftrightarrow> rq_hUuid h' = rq_hUuid h \<and> rq_nUuid h' = rq_nUuid h \<and>
     rq_CreateMsg h' = rq_CreateMsg h \<and> rq_SerializeReq h' = rq_SerializeReq h \<and>
     rq_reqMsg h' = rq_reqMsg h \<and> rq_cb h' = rq_cb h"

lemma same_request_refl [simp]: "same_request h h"
  by (simp add: same_request_def)

lemma same_request_trans: "same_request h h' \<Longrightarrow> same_request h' h'' \<Longrightarrow> same_request h h''"
  by (simp add: same_request_def)

lemma same_request_SetRequested [simp]: "same_request h (SetRequested b h)"
  by (simp add: same_request_def SetRequested_def)

lemma same_request_NotifyResult [simp]: "same_request h (fst (NotifyResult t rep b h))"
  by (simp add: same_request_def NotifyResult_def)

lemma same_request_Serialize: "same_request h h' \<Longrightarrow> req_Serialize h' = req_Serialize h"
  by (simp add: same_request_def req_Serialize_def)

text \<open>Process \<open>b\<close> has computed the response \<open>out\<close> with the result flag \<open>res\<close> from a request with
  these identifiers.\<close>

definition served ::
    "'m journal \<Rightarrow> string \<Rightarrow> string \<Rightarrow> string \<Rightarrow> string \<Rightarrow> string \<Rightarrow> bool \<Rightarrow> bool" where
  "served j b t n u out res \<longleftrightarrow> (\<exists>a h rh result0. (t, b, rh) \<in> reps j \<and> (t, a, h) \<in> reqs j \<and>
     rq_nUuid h = n \<and> rq_hUuid h = u \<and>
     rep_RunCallback t (req_Serialize h) '''' result0 rh = (out, res))"

fun call_ok :: "'m journal \<Rightarrow> string \<Rightarrow> 'm call \<Rightarrow> bool" where
  "call_ok j p (SubCall u name m) \<longleftrightarrow>
     (\<exists>t h q m' data. (t, p, h) \<in> subs j \<and> sh_hUuid h = u \<and> sh_cb h \<and> name = strip_partition t \<and>
       (t, q, m', data) \<in> pubs j \<and> (q = p \<and> m = m' \<or> m = sh_CreateMsg h data))"
| "call_ok j p (ReqCall u name m res) \<longleftrightarrow>
     (\<exists>t h b out. (t, p, h) \<in> reqs j \<and> rq_hUuid h = u \<and> rq_cb h \<and> name = strip_partition t \<and>
       m = rq_CreateMsg h out \<and> served j b t (rq_nUuid h) u out res)"
| "call_ok j p (LocalReply name m res) \<longleftrightarrow>
     (\<exists>t h rh rep0 result0. (t, p, h) \<in> reqs j \<and> (t, p, rh) \<in> reps j \<and> name = strip_partition t \<and>
       rep_RunLocalCallback t (rq_reqMsg h) rep0 result0 rh = (m, res))"

fun io_ok :: "'m journal \<Rightarrow> string \<Rightarrow> 'm io \<Rightarrow> bool" where
  "io_ok j p (PublishFrames fr) \<longleftrightarrow> (\<exists>t a m data. fr = [t, a, data] \<and> (t, p, m, data) \<in> pubs j)"
| "io_ok j p (ControlFrames c fr) \<longleftrightarrow>
     (\<exists>t h. fr = [t, p, sh_nUuid h, to_string NewConnection] \<and> (t, p, h) \<in> subs j) \<or>
     (\<exists>t a n. fr = [t, a, n, to_string EndConnection])"
| "io_ok j p (RequestFrames fr) \<longleftrightarrow>
     (\<exists>i t sender dst h. fr = [i, t, sender, dst, rq_nUuid h, rq_hUuid h, req_Serialize h] \<and> (t, p, h) \<in> reqs j)"
| "io_ok j p (ReplyFrames fr) \<longleftrightarrow>
     (\<exists>dst t n u out res. fr = [dst, t, n, u, out, if res then ''1'' else ''0''] \<and> served j p t n u out res)"
| "io_ok j p (UserCall c) \<longleftrightarrow> call_ok j p c"
| "io_ok j p _ \<longleftrightarrow> True"

definition filed :: "'m journal \<Rightarrow> string \<Rightarrow> 'm node_shared \<Rightarrow> bool" where
  "filed j p s \<longleftrightarrow>
     (\<forall>t n u h. GetHandler t n u (localSubscriptions s) = Some h \<longrightarrow> (t, p, h) \<in> subs j) \<and>
     (\<forall>t n u r. GetHandler t n u (requests s) = Some r \<longrightarrow>
       (\<exists>h. (t, p, h) \<in> reqs j \<and> same_request h (heap s ! r))) \<and>
     (\<forall>t n u h. GetHandler t n u (repliers s) = Some h \<longrightarrow> (t, p, h) \<in> reps j) \<and>
     (\<forall>t q i. i \<in> set (vec (remoteSubscribers s) t q) \<longrightarrow> (\<exists>h. (t, q, h) \<in> subs j \<and> sh_nUuid h = nUuid i))"

lemma filedD:
  assumes "filed j p s"
  shows "GetHandler t n u (localSubscriptions s) = Some h \<Longrightarrow> (t, p, h) \<in> subs j"
    "GetHandler t n u (requests s) = Some r \<Longrightarrow> \<exists>h. (t, p, h) \<in> reqs j \<and> same_request h (heap s ! r)"
    "GetHandler t n u (repliers s) = Some rh \<Longrightarrow> (t, p, rh) \<in> reps j"
    "i \<in> set (vec (remoteSubscribers s) t q) \<Longrightarrow> \<exists>h. (t, q, h) \<in> subs j \<and> sh_nUuid h = nUuid i"
  using assms unfolding filed_def by blast+

text \<open>A longer journal.\<close>

definition journal_le :: "'m journal \<Rightarrow> 'm journal \<Rightarrow> bool" where
  "journal_le j j' \<longleftrightarrow> adverts j \<subseteq> adverts j' \<and> subs j \<subseteq> subs j' \<and> pubs j \<subseteq> pubs j' \<and>
     reqs j \<subseteq> reqs j' \<and> reps j \<subseteq> reps j'"

lemma journal_le_refl [simp]: "journal_le j j"
  by (simp add: journal_le_def)

lemma journal_le_enter: "journal_le j (enter p op nd s j)"
  by (auto simp: journal_le_def enter_def split: option.split)

lemma served_mono: "served j b t n u out res \<Longrightarrow> journal_le j j' \<Longrightarrow> served j' b t n u out res"
  unfolding served_def journal_le_def by blast

lemma call_ok_mono: "call_ok j p c \<Longrightarrow> journal_le j j' \<Longrightarrow> call_ok j' p c"
proof (induction j p c rule: call_ok.induct)
  case (1 j p u name m)
  then show ?case unfolding call_ok.simps journal_le_def by blast
next
  case (2 j p u name m res)
  then show ?case unfolding call_ok.simps using served_mono [of j _ _ _ _ _ _ j']
    by (metis journal_le_def subsetD)
next
  case (3 j p name m res)
  then show ?case unfolding call_ok.simps journal_le_def by blast
qed

lemma io_ok_mono: "io_ok j p x \<Longrightarrow> journal_le j j' \<Longrightarrow> io_ok j' p x"
proof (induction j p x rule: io_ok.induct)
  case (1 j p fr)
  then show ?case unfolding io_ok.simps journal_le_def by blast
next
  case (2 j p c fr)
  then show ?case unfolding io_ok.simps journal_le_def by blast
next
  case (3 j p fr)
  then show ?case unfolding io_ok.simps journal_le_def by blast
next
  case (4 j p fr)
  from \<open>io_ok j p (ReplyFrames fr)\<close> obtain dst t n u out res where
    "fr = [dst, t, n, u, out, if res then ''1'' else ''0'']" "served j p t n u out res" by auto
  then show ?case using served_mono [OF _ \<open>journal_le j j'\<close>] by auto
next
  case (5 j p c)
  then show ?case using call_ok_mono by simp
qed simp_all

lemma filed_mono: "filed j p s \<Longrightarrow> journal_le j j' \<Longrightarrow> filed j' p s"
  unfolding filed_def journal_le_def by (intro conjI allI impI) (meson subsetD)+

subsection \<open>One operation of a process\<close>

text \<open>The state \<open>s'\<close> and the events \<open>e\<close> of an operation are accounted for in the journal \<open>j\<close>.\<close>

definition accounted :: "'m journal \<Rightarrow> string \<Rightarrow> 'm node_shared \<Rightarrow> 'm io list \<Rightarrow> bool" where
  "accounted j p s' e \<longleftrightarrow> ns_pUuid s' = p \<and> filed j p s' \<and> (\<forall>x \<in> set e. io_ok j p x)"

text \<open>What a step does not touch.\<close>

lemma filed_frame:
  assumes "filed j p s" and "localSubscriptions s' = localSubscriptions s" "requests s' = requests s"
    "heap s' = heap s" "repliers s' = repliers s" "remoteSubscribers s' = remoteSubscribers s"
  shows "filed j p s'"
  using assms by (simp add: filed_def)

lemma filed_subscribers:
  assumes "filed j p s" and "\<And>t q. set (vec d t q) \<subseteq> set (vec (remoteSubscribers s) t q)"
  shows "filed j p (s\<lparr>remoteSubscribers := d\<rparr>)"
  using assms by (simp add: filed_def) blast

lemma filed_heap:
  assumes "filed j p s" and "\<And>r. r < length (heap s) \<Longrightarrow> same_request (heap s ! r) (hp ! r)"
    and "requests_ok s"
  shows "filed j p (s\<lparr>heap := hp\<rparr>)"
proof -
  have "\<exists>h. (t, p, h) \<in> reqs j \<and> same_request h (hp ! r)" if "GetHandler t n u (requests s) = Some r" for t n u r
    using filedD(2) [OF assms(1) that] assms(2,3) that same_request_trans
    unfolding requests_ok_def by metis
  then show ?thesis using assms(1) by (simp add: filed_def)
qed

lemma accounted_OnNewConnection:
  assumes "process_ok s" and "ns_pUuid s = p" and "filed j p s"
  shows "accounted j p (fst (OnNewConnection fails t a c q n sc s)) (snd (OnNewConnection fails t a c q n sc s))"
proof -
  have h: "(t, p, h) \<in> subs j" if "h \<in> set (handlers_of t (localSubscriptions s))" for h
  proof -
    have "handlers_ok (localSubscriptions s)"
      using process_okD(7) [OF assms(1)] by (simp add: subscriptions_ok_def)
    then show ?thesis using that filedD(1) [OF assms(3)] by (auto simp: set_handlers_of)
  qed
  have frames: "io_ok j p (ControlFrames c [t, p, sh_nUuid h, to_string NewConnection])"
    if "h \<in> set (handlers_of t (localSubscriptions s))" for h
    using h [OF that] by auto
  have "filed j p (fst (OnNewConnection fails t a c q n sc s))"
    by (rule filed_frame [OF assms(3)]) (simp_all add: OnNewConnection_def Let_def)
  moreover have "ns_pUuid (fst (OnNewConnection fails t a c q n sc s)) = p"
    using assms(2) by (simp add: OnNewConnection_def Let_def)
  moreover have "io_ok j p x" if "x \<in> set (snd (OnNewConnection fails t a c q n sc s))" for x
    using that frames assms(2)
    by (auto simp: OnNewConnection_def Let_def simp del: io_ok.simps(2) split: if_splits dest!: set_takeWhileD)
  ultimately show ?thesis by (simp add: accounted_def)
qed

lemma accounted_OnNewDisconnection:
  assumes "process_ok s" and "ns_pUuid s = p" and "filed j p s"
    and "OnNewDisconnection fails t q n s = Inr (s', e)"
  shows "accounted j p s' e"
proof -
  note ok = process_okD(6) [OF assms(1)]
  have "set (vec (snd (DelAddressByNode t q n (remoteSubscribers s))) t' q') \<subseteq> set (vec (remoteSubscribers s) t' q')"
    "set (vec (snd (DelAddressesByProc q (remoteSubscribers s))) t' q') \<subseteq> set (vec (remoteSubscribers s) t' q')" for t' q'
    using ok by (auto simp: ts.recs_del_node ts.recs_del_proc)
  then have filed: "filed j p (s\<lparr>remoteSubscribers := snd (DelAddressByNode t q n (remoteSubscribers s))\<rparr>)"
    "filed j p (s\<lparr>remoteSubscribers := snd (DelAddressesByProc q (remoteSubscribers s))\<rparr>)"
    using filed_subscribers [OF assms(3)] by blast+
  have "filed j p s'"
    using assms(4)
    by (auto simp: OnNewDisconnection_def Let_def split: if_splits option.splits
        intro: filed filed_frame [OF filed(1)] filed_frame [OF filed(2)])
  moreover have "ns_pUuid s' = p" "\<forall>x \<in> set e. io_ok j p x"
    using assms(2,4) by (auto simp: OnNewDisconnection_def Let_def split: if_splits option.splits)
  ultimately show ?thesis by (simp add: accounted_def)
qed

lemma same_request_mark:
  "same_request (heap s ! q) (heap (s\<lparr>heap := (heap s)[r := SetRequested True (heap s ! r)]\<rparr>) ! q)"
  by (cases "q = r"; cases "r < length (heap s)") (simp_all add: list_update_beyond)

lemma send_pending_Cons:
  assumes "\<not> rq_requested (heap s ! r)" and "s1 = s\<lparr>heap := (heap s)[r := SetRequested True (heap s ! r)]\<rparr>"
  shows "fst (send_pending fails t i (r # rs) s) = fst (send_pending fails t i rs s1)"
    and "x \<in> set (snd (send_pending fails t i (r # rs) s)) \<Longrightarrow>
      x = request_frames t i s1 (heap s1 ! r) \<or> x \<in> set (snd (send_pending fails t i rs s1))"
  using assms by (auto simp: Let_def case_prod_unfold split: if_splits)

lemma request_frames_ok:
  "(t, p, h) \<in> reqs j \<Longrightarrow> same_request h h' \<Longrightarrow> io_ok j p (request_frames t i s h')"
  using same_request_Serialize [of h h'] by (auto simp: request_frames_def same_request_def)

lemma send_pending_same:
  "same_request (heap s ! q) (heap (fst (send_pending fails t i rs s)) ! q)"
proof (induction rs arbitrary: s)
  case (Cons r rs)
  show ?case
  proof (cases "rq_requested (heap s ! r)")
    case True
    then show ?thesis using Cons.IH [of s] by simp
  next
    case False
    define s1 where "s1 = s\<lparr>heap := (heap s)[r := SetRequested True (heap s ! r)]\<rparr>"
    have "same_request (heap s ! q) (heap s1 ! q)" unfolding s1_def by (rule same_request_mark)
    then show ?thesis
      unfolding send_pending_Cons(1) [OF False s1_def] using Cons.IH by (rule same_request_trans)
  qed
qed simp

lemma send_pending_accounted:
  assumes "x \<in> set (snd (send_pending fails t i rs s))"
    and "\<And>r. r \<in> set rs \<Longrightarrow> \<exists>h. (t, p, h) \<in> reqs j \<and> same_request h (heap s ! r)"
  shows "io_ok j p x"
  using assms
proof (induction rs arbitrary: s)
  case (Cons r rs)
  define s1 where "s1 = s\<lparr>heap := (heap s)[r := SetRequested True (heap s ! r)]\<rparr>"
  have same: "same_request (heap s ! q) (heap s1 ! q)" for q
    unfolding s1_def by (rule same_request_mark)
  have reqs: "\<exists>h. (t, p, h) \<in> reqs j \<and> same_request h (heap s1 ! q)" if "q \<in> set (r # rs)" for q
    using Cons.prems(2) [OF that] same_request_trans [OF _ same [of q]] by blast
  show ?case
  proof (cases "rq_requested (heap s ! r)")
    case True
    then show ?thesis using Cons.IH [of s] Cons.prems by simp
  next
    case False
    show ?thesis
      using send_pending_Cons(2) [OF False s1_def Cons.prems(1)]
    proof
      assume "x = request_frames t i s1 (heap s1 ! r)"
      then show ?thesis using reqs [of r] request_frames_ok by auto
    next
      assume "x \<in> set (snd (send_pending fails t i rs s1))"
      then show ?thesis
        by (rule Cons.IH) (rule reqs, simp)
    qed
  qed
qed simp

lemma send_pending_fields:
  "\<exists>h. fst (send_pending fails t i rs s) = s\<lparr>heap := h\<rparr>"
  using send_pending_heap [of fails t i rs s] by blast

lemma accounted_SendPending:
  assumes "requests_ok s" and "ns_pUuid s = p" and "filed j p s"
    and "SendPendingRemoteReqs fails t s = Inr (s', e)"
  shows "accounted j p s' e"
proof -
  consider "s' = s" "e = []" | i where "(s', e) = send_pending fails t i (handlers_of t (requests s)) s"
    using assms(4)
    by (auto simp: SendPendingRemoteReqs_def split: option.splits list.splits prod.splits) (metis+)
  then show ?thesis
  proof cases
    case 1
    then show ?thesis using assms by (simp add: accounted_def)
  next
    case (2 i)
    have "\<exists>h. (t, p, h) \<in> reqs j \<and> same_request h (heap s ! r)" if "r \<in> set (handlers_of t (requests s))" for r
      using that filedD(2) [OF assms(3)] assms(1) by (auto simp: requests_ok_def set_handlers_of)
    then have "\<forall>x \<in> set (snd (send_pending fails t i (handlers_of t (requests s)) s)). io_ok j p x"
      using send_pending_accounted by blast
    then have frames: "\<forall>x \<in> set e. io_ok j p x" by (simp add: 2 [symmetric])
    obtain hp where hp: "s' = s\<lparr>heap := hp\<rparr>" using send_pending_fields 2 by (metis fst_conv)
    moreover have "fst (send_pending fails t i (handlers_of t (requests s)) s) = s'"
      "snd (send_pending fails t i (handlers_of t (requests s)) s) = e" by (simp_all add: 2 [symmetric])
    ultimately show ?thesis
      using send_pending_same [of s _ fails t i "handlers_of t (requests s)"]
        filed_heap [OF assms(3) _ assms(1), of hp] assms(2) frames by (simp add: accounted_def)
  qed
qed

lemma accounted_OnNewSrvConnection:
  assumes "process_ok s" and "ns_pUuid s = p" and "filed j p s"
    and "OnNewSrvConnection fails t a s = Inr (s', e)"
  shows "accounted j p s' e"
proof -
  let ?s1 = "s\<lparr>srvConnections := srvConnections s @ [a]\<rparr>"
  have "\<exists>s1 e1 conn. (s1 = s \<or> s1 = ?s1) \<and> (conn = [] \<or> conn = [ConnectReq a]) \<and> e = conn @ e1 \<and>
      SendPendingRemoteReqs fails t s1 = Inr (s', e1)"
  proof (cases "a \<in> set (srvConnections s)")
    case True
    with assms(4) have "SendPendingRemoteReqs fails t s = Inr (s', e)"
      by (auto simp: OnNewSrvConnection_def rbind_eq_Inr_iff)
    then show ?thesis by (intro exI [of _ s] exI [of _ e] exI [of _ "[]"]) simp
  next
    case False
    with assms(4) obtain e1 where "SendPendingRemoteReqs fails t ?s1 = Inr (s', e1)" "e = [ConnectReq a] @ e1"
      by (auto simp: OnNewSrvConnection_def Let_def rbind_eq_Inr_iff split: if_splits)
    then show ?thesis by (intro exI [of _ ?s1] exI [of _ e1] exI [of _ "[ConnectReq a]"]) simp
  qed
  then obtain s1 e1 conn where s1: "s1 = s \<or> s1 = ?s1" and conn: "conn = [] \<or> conn = [ConnectReq a]"
    and e: "e = conn @ e1" and pending: "SendPendingRemoteReqs fails t s1 = Inr (s', e1)"
    by blast
  have "requests_ok s1" "ns_pUuid s1 = p" "filed j p s1"
    using s1 process_okD(9) [OF assms(1)] assms(2) filed_frame [OF assms(3)] assms(3)
    by (auto simp: requests_ok_def)
  from accounted_SendPending [OF this pending] conn e show ?thesis by (auto simp: accounted_def)
qed

lemma accounted_handle_event:
  assumes "process_ok s" and "ns_pUuid s = p" and "filed j p s"
    and "handle_event fails x s = Inr (s', e)"
  shows "accounted j p s' e"
proof (cases x)
  case (Send b)
  then show ?thesis using assms by (auto simp: accounted_def)
next
  case (Call cb t a c q n sc)
  show ?thesis
  proof (cases cb)
    case ConnectionCb
    then show ?thesis
      using assms(4) Call accounted_OnNewConnection [OF assms(1-3), of fails t a c q n sc] by simp
  next
    case DisconnectionCb
    then show ?thesis using assms(4) Call accounted_OnNewDisconnection [OF assms(1-3)] by simp
  next
    case ConnectionSrvCb
    then show ?thesis using assms(4) Call accounted_OnNewSrvConnection [OF assms(1-3)] by simp
  next
    case DisconnectionSrvCb
    then show ?thesis
      using assms Call filed_frame [OF assms(3)] by (auto simp: accounted_def OnNewSrvDisconnection_def)
  qed
qed

lemma accounted_handle_events:
  "handle_events fails ev s = Inr (s', e) \<Longrightarrow> process_ok s \<Longrightarrow> ns_pUuid s = p \<Longrightarrow> filed j p s \<Longrightarrow>
     accounted j p s' e"
proof (induction ev arbitrary: s e)
  case Nil
  then show ?case by (simp add: accounted_def)
next
  case (Cons x ev)
  from Cons.prems(1) obtain s1 e1 e2 where h: "handle_event fails x s = Inr (s1, e1)"
    "handle_events fails ev s1 = Inr (s', e2)" "e = e1 @ e2"
    by (auto simp: rbind_eq_Inr_iff)
  note acc = accounted_handle_event [OF Cons.prems(2-4) h(1)]
  have "accounted j p s' e2"
    using Cons.IH [OF h(2) process_ok_handle_event [OF Cons.prems(2) h(1)]] acc by (simp add: accounted_def)
  then show ?case using acc h(3) by (auto simp: accounted_def)
qed

lemma accounted_with_discovery:
  assumes "with_discovery fails f s = Inr (s', e)" and "process_ok s" and "ns_pUuid s = p" and "filed j p s"
    and "\<And>d ev. f (disc s) = Inr (d, ev) \<Longrightarrow> discovery_ok d \<and> same_client (disc s) d"
  shows "accounted j p s' e"
proof -
  from assms(1) obtain d ev where d: "f (disc s) = Inr (d, ev)"
    and h: "handle_events fails ev (s\<lparr>disc := d\<rparr>) = Inr (s', e)"
    by (auto simp: with_discovery_def rbind_eq_Inr_iff)
  have "process_ok (s\<lparr>disc := d\<rparr>)" using assms(2,5) d by (simp add: process_ok_discovery)
  moreover have "filed j p (s\<lparr>disc := d\<rparr>)" by (rule filed_frame [OF assms(4)]) simp_all
  ultimately show ?thesis using accounted_handle_events [OF h] assms(3) by simp
qed

lemma discovery_requests_client:
  assumes "discovery_ok d" and "discovery_step to_ms x d = Inr (d', ev)"
    and "x = DoAdvertise k t a c n sc \<or> x = DoUnadvertise k t n \<or> x = DoDiscover t b \<or> x = DoReceive now stack r \<or>
      x = DoSweep now \<or> x = DoHeartbeat"
  shows "discovery_ok d' \<and> same_client d d'"
  using assms(3) discovery_ok_step [OF assms(1,2)] assms(2)
    same_client_Advertise same_client_Unadvertise discovery_steps [of x now stack r to_ms d d' ev]
  by (auto simp: rbind_eq_Inr_iff)

subsection \<open>Receptions\<close>

lemma accounted_RecvMsg:
  assumes "ns_pUuid s = p" and "filed j p s" and "subscriptions_ok (localSubscriptions s)"
    and "(t, q, m, data) \<in> pubs j"
  shows "accounted j p s (RecvMsgUpdate (Some (t, a, data)) s)"
proof -
  have "\<exists>n u. GetHandler t n u (localSubscriptions s) = Some h"
    if "h \<in> set (handlers_of t (localSubscriptions s))" for h
    using that assms(3) by (simp add: subscriptions_ok_def set_handlers_of)
  then have "(t, p, h) \<in> subs j" if "h \<in> set (handlers_of t (localSubscriptions s))" for h
    using filedD(1) [OF assms(2)] that by blast
  then have "io_ok j p x" if "x \<in> set (RecvMsgUpdate (Some (t, a, data)) s)" for x
    using that assms(4) by (auto simp: RecvMsgUpdate_def sub_RunCallback_def split: if_splits) blast
  then show ?thesis using assms(1,2) by (simp add: accounted_def)
qed

lemma accounted_RecvControl:
  assumes "process_ok s" and "ns_pUuid s = p" and "filed j p s"
    and "io_ok j q (ControlFrames c [t, u, n, data])"
    and "RecvControlUpdate (Some (t, u, n, data)) s = Inr s'"
  shows "accounted j p s' []"
proof -
  note ok = process_okD(6) [OF assms(1)]
  from assms(4) consider h where "u = q" "n = sh_nUuid h" "data = to_string NewConnection" "(t, q, h) \<in> subs j"
    | "data = to_string EndConnection" by auto
  then show ?thesis
  proof cases
    case (1 h)
    let ?d = "snd (AddAddress t '''' '''' u n All (remoteSubscribers s))"
    have s': "s' = s\<lparr>remoteSubscribers := ?d\<rparr>" using assms(5) 1 by (simp add: RecvControl_new)
    have "\<exists>h. (t', q', h) \<in> subs j \<and> sh_nUuid h = nUuid i" if "i \<in> set (vec ?d t' q')" for t' q' i
      using that filedD(4) [OF assms(3)] 1 ok by (auto simp: ts.recs_add split: if_splits)
    then have "filed j p s'" using assms(3) by (simp add: s' filed_def)
    then show ?thesis using assms(2) by (simp add: accounted_def s')
  next
    case 2
    let ?d = "snd (DelAddressByNode t u n (remoteSubscribers s))"
    have s': "s' = s\<lparr>remoteSubscribers := ?d\<rparr>" using assms(5) 2 by (simp add: RecvControl_end)
    have "filed j p s'"
      unfolding s' by (rule filed_subscribers [OF assms(3)]) (use ok in \<open>auto simp: ts.recs_del_node\<close>)
    then show ?thesis using assms(2) by (simp add: accounted_def s')
  qed
qed

lemma RecvSrvRequest_cases:
  assumes "RecvSrvRequest fails result0 (Some (t, sender, dst, n, u, req)) s = Inr (s', e)"
    and "GetHandler_first t (repliers s) = Inr (Some rh)" "rep_RunCallback t req '''' result0 rh = (out, res)"
  shows "s' = s \<or> s' = s\<lparr>srvConnections := srvConnections s @ [sender]\<rparr>"
    and "x \<in> set e \<Longrightarrow> x = ConnectRep sender \<or> x = ReplyFrames [dst, t, n, u, out, if res then ''1'' else ''0'']"
  using assms(1) unfolding RecvSrvRequest_def
  by (simp_all add: assms(2,3) Let_def split: if_splits) auto

lemma accounted_RecvSrvRequest:
  assumes "process_ok s" and "ns_pUuid s = p" and "filed j p s"
    and "io_ok j q (RequestFrames [i, t, sender, dst, n, u, req])"
    and "RecvSrvRequest fails result0 (Some (t, sender, dst, n, u, req)) s = Inr (s', e)"
  shows "accounted j p s' e"
proof -
  from assms(4) obtain h where h: "(t, q, h) \<in> reqs j" "n = rq_nUuid h" "u = rq_hUuid h" "req = req_Serialize h"
    unfolding io_ok.simps list.inject by blast
  show ?thesis
  proof (cases "GetHandler_first t (repliers s)")
    case (Inl x)
    then show ?thesis using assms(5) by (simp add: RecvSrvRequest_def)
  next
    case (Inr found)
    show ?thesis
    proof (cases found)
      case None
      then show ?thesis using assms(2,3,5) Inr by (simp add: RecvSrvRequest_def accounted_def)
    next
      case (Some rh)
      have "handlers_ok (repliers s)" using process_okD(8) [OF assms(1)] by (simp add: repliers_ok_def)
      from GetHandler_first_ok [OF this, of t] have "\<exists>n u. GetHandler t n u (repliers s) = Some rh"
        unfolding Inr Some GetHandler_at by blast
      then have rh: "(t, p, rh) \<in> reps j" using filedD(3) [OF assms(3)] by blast
      obtain out res where run: "rep_RunCallback t req '''' result0 rh = (out, res)" by fastforce
      have "served j p t n u out res" unfolding served_def using rh h run by blast
      then have reply: "io_ok j p (ReplyFrames [dst, t, n, u, out, if res then ''1'' else ''0''])"
        unfolding io_ok.simps by blast
      note split = RecvSrvRequest_cases [OF assms(5) Inr [unfolded Some] run]
      have "filed j p s'" "ns_pUuid s' = p"
        using split(1) assms(2) filed_frame [OF assms(3)] assms(3) by auto
      moreover have "\<forall>x \<in> set e. io_ok j p x"
      proof
        fix x assume "x \<in> set e"
        from split(2) [OF this] show "io_ok j p x"
        proof
          assume "x = ConnectRep sender"
          then show ?thesis by simp
        next
          assume "x = ReplyFrames [dst, t, n, u, out, if res then ''1'' else ''0'']"
          then show ?thesis by (simp only: reply)
        qed
      qed
      ultimately show ?thesis by (simp add: accounted_def)
    qed
  qed
qed

lemma accounted_RecvSrvResponse:
  assumes "process_ok s" and "ns_pUuid s = p" and "filed j p s"
    and "io_ok j q (ReplyFrames [dst, t, n, u, rep, flag])"
    and "RecvSrvResponse (Some (t, n, u, rep, flag)) s = (s', e)"
  shows "accounted j p s' e"
proof (cases "GetHandler t n u (requests s)")
  case None
  then show ?thesis using assms(2,3,5) by (simp add: RecvSrvResponse_def accounted_def)
next
  case (Some r)
  note ok = process_okD(9) [OF assms(1)]
  from assms(4) obtain res where res: "flag = (if res then ''1'' else ''0'')" "served j q t n u rep res"
    by auto
  then have flag: "(flag = ''1'') = res" by simp
  obtain h where h: "(t, p, h) \<in> reqs j" "same_request h (heap s ! r)" using filedD(2) [OF assms(3) Some] by blast
  have ids: "rq_nUuid (heap s ! r) = n" "rq_hUuid (heap s ! r) = u" using ok Some by (auto simp: requests_ok_def)
  let ?hp = "(heap s)[r := fst (NotifyResult t rep res (heap s ! r))]"
  have s': "s' = s\<lparr>heap := ?hp, requests := snd (RemoveHandler t n u (requests s))\<rparr>"
    and e: "e = map UserCall (snd (NotifyResult t rep res (heap s ! r)))"
    using assms(5) unfolding RecvSrvResponse_eq [OF Some] flag by simp_all
  have "filed j p (s\<lparr>heap := ?hp\<rparr>)"
  proof (rule filed_heap [OF assms(3) _ ok])
    show "same_request (heap s ! q) (?hp ! q)" if "q < length (heap s)" for q
      using that by (cases "q = r") simp_all
  qed
  moreover have "GetHandler t' n' u' (snd (RemoveHandler t n u (requests s))) = Some r' \<Longrightarrow>
      GetHandler t' n' u' (requests s) = Some r'" for t' n' u' r'
    using ok by (auto simp: requests_ok_def GetHandler_RemoveHandler split: if_splits)
  ultimately have "filed j p s'" unfolding s' by (simp add: filed_def) blast
  moreover have "io_ok j p x" if "x \<in> set e" for x
  proof -
    have "x = UserCall (ReqCall u (strip_partition t) (rq_CreateMsg h rep) res)" "rq_cb h"
      using that h(2) ids unfolding e by (auto simp: NotifyResult_def same_request_def split: if_splits)
    then show ?thesis using h ids res(2) by (auto simp: same_request_def)
  qed
  ultimately show ?thesis using assms(2) by (simp add: accounted_def s')
qed

subsection \<open>Operations of the nodes\<close>

lemma enter_None: "fqn nd (op_topic op) = None \<Longrightarrow> enter p op nd s j = j"
  by (simp add: enter_def)

lemma enter_sets:
  assumes "fqn nd (op_topic op) = Some t"
  shows "h \<in> op_subs op nd \<Longrightarrow> (t, p, h) \<in> subs (enter p op nd s j)"
    and "(m, data) \<in> op_pubs op t nd \<Longrightarrow> (t, p, m, data) \<in> pubs (enter p op nd s j)"
    and "r \<in> op_reqs op nd \<Longrightarrow> (t, p, r) \<in> reqs (enter p op nd s j)"
    and "rh \<in> op_reps op \<Longrightarrow> (t, p, rh) \<in> reps (enter p op nd s j)"
  using assms by (force simp: enter_def)+

lemma accounted_Advertise:
  "with_discovery fails (Advertise k t a c n sc) s = Inr (s', e) \<Longrightarrow> process_ok s \<Longrightarrow> ns_pUuid s = p \<Longrightarrow>
     filed j p s \<Longrightarrow> accounted j p s' e"
  by (erule accounted_with_discovery) (auto intro: discovery_ok_Advertise process_okD same_client_Advertise)

lemma accounted_Unadvertise:
  "with_discovery fails (Unadvertise k t n) s = Inr (s', e) \<Longrightarrow> process_ok s \<Longrightarrow> ns_pUuid s = p \<Longrightarrow>
     filed j p s \<Longrightarrow> accounted j p s' e"
  by (erule accounted_with_discovery) (auto intro: discovery_ok_Unadvertise process_okD same_client_Unadvertise)

lemma accounted_Discover:
  "with_discovery fails (\<lambda>d. rbind (Discover t b d) (\<lambda>e. Inr (d, e))) s = Inr (s', e) \<Longrightarrow> process_ok s \<Longrightarrow>
     ns_pUuid s = p \<Longrightarrow> filed j p s \<Longrightarrow> accounted j p s' e"
  by (erule accounted_with_discovery) (auto simp: rbind_eq_Inr_iff intro: process_okD)

text \<open>A handler more, or some fewer.\<close>

lemma filed_subscribe:
  assumes "filed j p s" and "subscriptions_ok (localSubscriptions s)" and "(t, p, h) \<in> subs j"
  shows "filed j p (s\<lparr>localSubscriptions := AddHandler sh_hUuid t n h (localSubscriptions s)\<rparr>)"
  using assms
  by (auto simp: filed_def subscriptions_ok_def GetHandler_at hs.at_add split: if_splits)

lemma filed_unsubscribe:
  assumes "filed j p s" and "subscriptions_ok (localSubscriptions s)"
  shows "filed j p (s\<lparr>localSubscriptions := snd (RemoveHandlersForNode t n (localSubscriptions s))\<rparr>)"
  using assms
  by (auto simp: filed_def subscriptions_ok_def GetHandler_at hs.at_remove_node split: if_splits)

lemma filed_offer:
  assumes "filed j p s" and "repliers_ok (repliers s)" and "(t, p, h) \<in> reps j"
  shows "filed j p (s\<lparr>repliers := AddHandler rh_hUuid t n h (repliers s)\<rparr>)"
  using assms by (auto simp: filed_def repliers_ok_def GetHandler_at hs.at_add split: if_splits)

lemma filed_withdraw:
  assumes "filed j p s" and "repliers_ok (repliers s)"
  shows "filed j p (s\<lparr>repliers := snd (RemoveHandlersForNode t n (repliers s))\<rparr>)"
  using assms by (auto simp: filed_def repliers_ok_def GetHandler_at hs.at_remove_node split: if_splits)

lemma filed_request:
  assumes "filed j p s" and "requests_ok s" and "(t, p, h) \<in> reqs j"
  shows "filed j p (s\<lparr>heap := heap s @ [h], requests :=
      AddHandler (\<lambda>r. rq_hUuid ((heap s @ [h]) ! r)) t n (length (heap s)) (requests s)\<rparr>)"
proof -
  let ?add = "AddHandler (\<lambda>r. rq_hUuid ((heap s @ [h]) ! r)) t n (length (heap s)) (requests s)"
  have "\<exists>h'. (t', p, h') \<in> reqs j \<and> same_request h' ((heap s @ [h]) ! r)"
    if "GetHandler t' n' u ?add = Some r" for t' n' u r
  proof -
    have "GetHandler t' n' u (requests s) = Some r \<or> t' = t \<and> r = length (heap s)"
      using that assms(2) by (auto simp: requests_ok_def GetHandler_at hs.at_add split: if_splits)
    then show ?thesis
    proof
      assume old: "GetHandler t' n' u (requests s) = Some r"
      then have "r < length (heap s)" using assms(2) by (simp add: requests_ok_def)
      then show ?thesis using filedD(2) [OF assms(1) old] by (simp add: nth_append)
    next
      assume "t' = t \<and> r = length (heap s)"
      then show ?thesis using assms(3) by (intro exI [of _ h]) simp
    qed
  qed
  then show ?thesis using assms(1) by (simp add: filed_def)
qed

lemma accounted_file_request:
  assumes "process_ok s" and "ns_pUuid s = p" and "filed j p s"
    and "file_request fails t h nd s = Inr (s', e)" and "rq_nUuid h = nd_nUuid nd" and "(t, p, h) \<in> reqs j"
  shows "accounted j p s' e"
proof -
  let ?s = "s\<lparr>heap := heap s @ [h], requests :=
      AddHandler (\<lambda>r. rq_hUuid ((heap s @ [h]) ! r)) t (nd_nUuid nd) (length (heap s)) (requests s)\<rparr>"
  have ok: "process_ok ?s" using assms by (intro process_ok_requests requests_ok_file process_okD)
  have filed: "filed j p ?s" using assms process_okD(9) by (intro filed_request) auto
  show ?thesis
  proof (cases "GetSrvAddresses t (disc s)")
    case None
    then show ?thesis
      using assms(4) accounted_Discover [OF _ ok _ filed] assms(2) by (simp add: file_request_def Let_def)
  next
    case (Some v)
    then show ?thesis
      using assms(4) accounted_SendPending [OF process_okD(9) [OF ok] _ filed] assms(2)
      by (simp add: file_request_def Let_def)
  qed
qed

text \<open>Every operation of a node.\<close>

lemma accounted_frame:
  "ns_pUuid s = p \<Longrightarrow> filed j p s \<Longrightarrow> (\<And>x. x \<in> set e \<Longrightarrow> io_ok j p x) \<Longrightarrow> accounted j p s e"
  by (simp add: accounted_def)

lemma publish_ok:
  assumes "filed j p s" and "subscriptions_ok (localSubscriptions s)" and "(t, p, msg, data) \<in> pubs j"
    and "x \<in> set (concat (map (\<lambda>h. map UserCall (fst (sub_RunLocalCallback t msg h)))
        (handlers_of t (localSubscriptions s)))) \<or> x = PublishFrames [t, a, data]"
  shows "io_ok j p x"
  using assms(4)
proof
  assume "x \<in> set (concat (map (\<lambda>h. map UserCall (fst (sub_RunLocalCallback t msg h)))
        (handlers_of t (localSubscriptions s))))"
  then obtain h where h: "h \<in> set (handlers_of t (localSubscriptions s))"
    and x: "x = UserCall (SubCall (sh_hUuid h) (strip_partition t) msg)" "sh_cb h"
    by (auto simp: sub_RunLocalCallback_def split: if_splits)
  from h have "\<exists>n u. GetHandler t n u (localSubscriptions s) = Some h"
    using assms(2) by (simp add: subscriptions_ok_def set_handlers_of)
  then have "(t, p, h) \<in> subs j" using filedD(1) [OF assms(1)] by blast
  then show ?thesis using assms(3) x(2) unfolding x(1) io_ok.simps call_ok.simps by blast
next
  assume "x = PublishFrames [t, a, data]"
  then show ?thesis using assms(3) by auto
qed

lemma accounted_Node_Subscribe:
  assumes "process_ok s" and "ns_pUuid s = p" and "filed j p s" and "fqn nd topic = Some t"
    and "Node_Subscribe fails topic u create cb nd s = Inr (nd', s', e, ok)"
    and "(t, p, sub_SetCallback cb (SubscriptionHandler_ctor u (nd_nUuid nd) create)) \<in> subs j"
  shows "accounted j p s' e"
proof -
  let ?h = "sub_SetCallback cb (SubscriptionHandler_ctor u (nd_nUuid nd) create)"
  let ?s = "s\<lparr>localSubscriptions := AddHandler sh_hUuid t (nd_nUuid nd) ?h (localSubscriptions s)\<rparr>"
  note subs_ok = process_okD(7) [OF assms(1)]
  have "subscriptions_ok (localSubscriptions ?s)"
    using subs_ok assms(4) fqn_not_Nil
    by (auto intro!: subscriptions_ok_add simp: sub_SetCallback_def SubscriptionHandler_ctor_def)
  then have "process_ok ?s" using assms(1) by (simp add: process_ok_subscriptions)
  moreover have "filed j p ?s" by (intro filed_subscribe assms(3,6) subs_ok)
  moreover have "with_discovery fails (\<lambda>d. rbind (Discover t False d) (\<lambda>e. Inr (d, e))) ?s = Inr (s', e)"
    using assms(4,5) by (auto simp: Node_Subscribe_def Let_def rbind_eq_Inr_iff)
  ultimately show ?thesis using assms(2) by (intro accounted_Discover) simp_all
qed

lemma accounted_Node_Unsubscribe:
  assumes "process_ok s" and "ns_pUuid s = p" and "filed j p s" and "fqn nd topic = Some t"
    and "Node_Unsubscribe fails topic nd s = Inr (nd', s', e, ok)"
  shows "accounted j p s' e"
proof -
  let ?s = "s\<lparr>localSubscriptions := snd (RemoveHandlersForNode t (nd_nUuid nd) (localSubscriptions s))\<rparr>"
  from assms(4,5) have s': "s' = ?s" and
    e: "\<And>x. x \<in> set e \<Longrightarrow> x = RemoveFilter t \<or> (\<exists>c. x = ConnectControl c) \<or>
      (\<exists>c. x = ControlFrames c [t, myAddress s, nd_nUuid nd, to_string EndConnection])"
    by (auto simp: Node_Unsubscribe_def Let_def split: if_splits option.splits)
  show ?thesis
    unfolding s'
  proof (rule accounted_frame)
    show "filed j p ?s" by (rule filed_unsubscribe [OF assms(3) process_okD(7) [OF assms(1)]])
    show "io_ok j p x" if "x \<in> set e" for x using e [OF that] by auto
  qed (simp add: assms(2))
qed

lemma accounted_Node_Publish:
  assumes "process_ok s" and "ns_pUuid s = p" and "filed j p s" and "fqn nd topic = Some t"
    and "t \<in> set (topicsAdvertised nd) \<Longrightarrow> (t, p, msg, serialize msg) \<in> pubs j"
  shows "accounted j p s (fst (Node_Publish fails serialize topic msg nd s))"
proof (cases "t \<in> set (topicsAdvertised nd)")
  case False
  then show ?thesis using assms(2,3) by (simp add: Node_Publish_def assms(4) accounted_def)
next
  case True
  have "x \<in> set (concat (map (\<lambda>h. map UserCall (fst (sub_RunLocalCallback t msg h)))
      (handlers_of t (localSubscriptions s)))) \<or> x = PublishFrames [t, myAddress s, serialize msg]"
    if "x \<in> set (fst (Node_Publish fails serialize topic msg nd s))" for x
    using that True by (auto simp: Node_Publish_def assms(4) Publish_def Let_def split: if_splits)
  then show ?thesis
    using publish_ok [OF assms(3) process_okD(7) [OF assms(1)] assms(5) [OF True]]
    by (intro accounted_frame [OF assms(2,3)]) blast
qed

lemma accounted_Node_AdvertiseSrv:
  assumes "process_ok s" and "ns_pUuid s = p" and "filed j p s" and "fqn nd topic = Some t"
    and "Node_AdvertiseSrv fails topic u create new serialize cb sc nd s = Inr (nd', s', e, ok)"
    and "(t, p, rep_SetCallback cb (RepHandler_ctor u create new serialize)) \<in> reps j"
  shows "accounted j p s' e"
proof -
  let ?h = "rep_SetCallback cb (RepHandler_ctor u create new serialize)"
  let ?s = "s\<lparr>repliers := AddHandler rh_hUuid t (nd_nUuid nd) ?h (repliers s)\<rparr>"
  note reps_ok = process_okD(8) [OF assms(1)]
  have "process_ok ?s"
    using assms(1,4) reps_ok fqn_not_Nil by (intro process_ok_repliers repliers_ok_add) auto
  moreover have "filed j p ?s" by (intro filed_offer assms(3,6) reps_ok)
  moreover have
    "with_discovery fails (Advertise Srv t (myReplierAddress s) (replierId s) (nd_nUuid nd) sc) ?s = Inr (s', e)"
    using assms(4,5) by (auto simp: Node_AdvertiseSrv_def Let_def rbind_eq_Inr_iff)
  ultimately show ?thesis using assms(2) by (intro accounted_Advertise) simp_all
qed

lemma accounted_Node_UnadvertiseSrv:
  assumes "process_ok s" and "ns_pUuid s = p" and "filed j p s" and "fqn nd topic = Some t"
    and "Node_UnadvertiseSrv fails topic nd s = Inr (nd', s', e, ok)"
  shows "accounted j p s' e"
proof -
  let ?s = "s\<lparr>repliers := snd (RemoveHandlersForNode t (nd_nUuid nd) (repliers s))\<rparr>"
  note reps_ok = process_okD(8) [OF assms(1)]
  have "process_ok ?s" using assms(1) reps_ok by (intro process_ok_repliers repliers_ok_remove)
  moreover have "filed j p ?s" by (intro filed_withdraw assms(3) reps_ok)
  moreover have "with_discovery fails (Unadvertise Msg t (nd_nUuid nd)) ?s = Inr (s', e)"
    using assms(4,5) by (auto simp: Node_UnadvertiseSrv_def Let_def rbind_eq_Inr_iff)
  ultimately show ?thesis using assms(2) by (intro accounted_Unadvertise) simp_all
qed

text \<open>A responder of the same process.\<close>

lemma local_responder_filed:
  assumes "process_ok s" and "filed j p s" and "GetHandler_first t (repliers s) = Inr (Some rh)"
  shows "(t, p, rh) \<in> reps j"
proof -
  have "handlers_ok (repliers s)" using process_okD(8) [OF assms(1)] by (simp add: repliers_ok_def)
  from GetHandler_first_ok [OF this, of t] have "\<exists>n u. GetHandler t n u (repliers s) = Some rh"
    unfolding assms(3) GetHandler_at by blast
  then show ?thesis using filedD(3) [OF assms(2)] by blast
qed

lemma accounted_requesting:
  assumes "process_ok s" and "ns_pUuid s = p" and "filed j p s" and "fqn nd topic = Some t"
  shows "Node_Request fails topic msg u create serialize new cb rep0 result0 nd s = Inr (nd', s', e, ok) \<Longrightarrow>
      (t, p, req_SetCallback cb (req_SetMessage msg (ReqHandler_ctor u (nd_nUuid nd) create serialize new))) \<in> reqs j \<Longrightarrow>
      accounted j p s' e"
    and "Node_Request_start fails topic msg u create serialize new rep0 result0 nd s = Inr (st, s', e) \<Longrightarrow>
      (t, p, req_SetMessage msg (ReqHandler_ctor u (nd_nUuid nd) create serialize new)) \<in> reqs j \<Longrightarrow>
      accounted j p s' e"
proof -
  have filing: "accounted j p s' e"
    if "file_request fails t h nd s = Inr (s', e) \<and> rq_nUuid h = nd_nUuid nd \<and> (t, p, h) \<in> reqs j \<or>
      s' = s \<and> (t, p, h) \<in> reqs j \<and> (\<forall>x \<in> set e. \<exists>rh rep result. GetHandler_first t (repliers s) = Inr (Some rh) \<and>
        rep_RunLocalCallback t (rq_reqMsg h) rep0 result0 rh = (rep, result) \<and>
        x = UserCall (LocalReply (strip_partition t) rep result))" for h
    using that
  proof
    assume e: "s' = s \<and> (t, p, h) \<in> reqs j \<and> (\<forall>x \<in> set e. \<exists>rh rep result. GetHandler_first t (repliers s) = Inr (Some rh) \<and>
        rep_RunLocalCallback t (rq_reqMsg h) rep0 result0 rh = (rep, result) \<and>
        x = UserCall (LocalReply (strip_partition t) rep result))"
    have "io_ok j p x" if "x \<in> set e" for x
    proof -
      from e that obtain rh rep result where x: "x = UserCall (LocalReply (strip_partition t) rep result)"
        and "GetHandler_first t (repliers s) = Inr (Some rh)"
        and run: "rep_RunLocalCallback t (rq_reqMsg h) rep0 result0 rh = (rep, result)" by blast
      then have "(t, p, rh) \<in> reps j" using local_responder_filed [OF assms(1,3)] by blast
      then show ?thesis using run e unfolding x io_ok.simps call_ok.simps by blast
    qed
    then show ?thesis using assms(2,3) e by (auto intro!: accounted_frame)
  qed (use accounted_file_request [OF assms(1-3)] in blast)
  let ?w = "req_SetMessage msg (ReqHandler_ctor u (nd_nUuid nd) create serialize new)"
  have ids: "rq_nUuid (req_SetCallback cb ?w) = nd_nUuid nd" "rq_nUuid ?w = nd_nUuid nd"
      "rq_reqMsg (req_SetCallback cb ?w) = msg" "rq_reqMsg ?w = msg"
    by (simp_all add: req_SetCallback_def req_SetMessage_def ReqHandler_ctor_def)
  show "Node_Request fails topic msg u create serialize new cb rep0 result0 nd s = Inr (nd', s', e, ok) \<Longrightarrow>
      (t, p, req_SetCallback cb ?w) \<in> reqs j \<Longrightarrow> accounted j p s' e"
    by (rule filing [of "req_SetCallback cb ?w"])
      (auto simp: ids assms(4) Node_Request_def Let_def rbind_eq_Inr_iff case_prod_unfold split: option.splits)
  show "Node_Request_start fails topic msg u create serialize new rep0 result0 nd s = Inr (st, s', e) \<Longrightarrow>
      (t, p, ?w) \<in> reqs j \<Longrightarrow> accounted j p s' e"
    by (rule filing [of ?w])
      (auto simp: ids assms(4) Node_Request_start_def Let_def rbind_eq_Inr_iff case_prod_unfold split: option.splits)
qed

lemma without_result_Inr: "without_result r = Inr (nd, s, e) \<longleftrightarrow> (\<exists>ok. r = Inr (nd, s, e, ok))"
  by (auto simp: without_result_def rbind_eq_Inr_iff)

lemma accounted_node_step:
  assumes "process_ok s" and "ns_pUuid s = p" and "filed j p s"
    and "node_step fails op nd s = Inr (nd', s', e)"
  shows "accounted (enter p op nd s j) p s' e"
proof (cases "fqn nd (op_topic op)")
  case None
  then show ?thesis
    using node_step_invalid [OF assms(4) None] assms(2,3) by (simp add: enter_None accounted_def)
next
  case (Some t)
  let ?j = "enter p op nd s j"
  have filed: "filed ?j p s" by (rule filed_mono [OF assms(3) journal_le_enter])
  note entered = enter_sets [OF Some, where p = p and s = s and j = j]
  show ?thesis
  proof (cases op)
    case (OpAdvertise topic sc)
    with Some assms(4) have "with_discovery fails
        (Advertise Msg t (myAddress s) (myControlAddress s) (nd_nUuid nd) sc) s = Inr (s', e)"
      by (auto simp: without_result_def Node_Advertise_def Let_def rbind_eq_Inr_iff)
    then show ?thesis using assms(1,2) filed by (rule accounted_Advertise)
  next
    case (OpUnadvertise topic)
    with Some assms(4) have "with_discovery fails (Unadvertise Msg t (nd_nUuid nd)) s = Inr (s', e)"
      by (auto simp: without_result_def Node_Unadvertise_def Let_def rbind_eq_Inr_iff)
    then show ?thesis using assms(1,2) filed by (rule accounted_Unadvertise)
  next
    case (OpSubscribe topic u create cb)
    then show ?thesis
      using assms(4) Some entered(1) accounted_Node_Subscribe [OF assms(1,2) filed]
      by (auto simp: without_result_Inr)
  next
    case (OpUnsubscribe topic)
    then show ?thesis
      using assms(4) Some accounted_Node_Unsubscribe [OF assms(1,2) filed] by (auto simp: without_result_Inr)
  next
    case (OpPublish topic msg serialize)
    then show ?thesis
      using assms(4) Some entered(2) accounted_Node_Publish [OF assms(1,2) filed] by auto
  next
    case (OpAdvertiseSrv topic u create new serialize cb sc)
    then show ?thesis
      using assms(4) Some entered(4) accounted_Node_AdvertiseSrv [OF assms(1,2) filed]
      by (auto simp: without_result_Inr)
  next
    case (OpUnadvertiseSrv topic)
    then show ?thesis
      using assms(4) Some accounted_Node_UnadvertiseSrv [OF assms(1,2) filed] by (auto simp: without_result_Inr)
  next
    case (OpRequest topic msg u create serialize new cb rep0 result0)
    then show ?thesis
      using assms(4) Some entered(3) accounted_requesting(1) [OF assms(1,2) filed]
      by (auto simp: without_result_Inr)
  next
    case (OpRequestWait topic msg u create serialize new rep0 result0)
    then show ?thesis
      using assms(4) Some entered(3) accounted_requesting(2) [OF assms(1,2) filed]
      by (auto simp: rbind_eq_Inr_iff)
  qed
qed

end
