(* ===== verification/SystemProps.thy ===== *)
theory SystemProps
  imports SystemCorrect
begin

text \<open>
  The invariant of a system of processes, and what follows from it for the data that goes from one
  user to another: subscriptions, published messages and service calls.
\<close>

subsection \<open>The invariant\<close>

definition member_inv :: "'m journal \<Rightarrow> string \<Rightarrow> 'm member \<Rightarrow> bool" where
  "member_inv j p m \<longleftrightarrow> process_reachable (shared m) \<and> ns_pUuid (shared m) = p \<and> filed j p (shared m) \<and>
     (\<forall>u nd. nodes m u = Some nd \<longrightarrow> nd_nUuid nd = u \<and> node_ok nd)"

definition sys_inv :: "'m system \<Rightarrow> bool" where
  "sys_inv S \<longleftrightarrow> (\<forall>p m. members S p = Some m \<longrightarrow> member_inv (journal S) p m) \<and>
     (\<forall>p. \<forall>x \<in> set (hist S p). io_ok (journal S) p x)"

lemma sys_invD:
  assumes "sys_inv S"
  shows "members S p = Some m \<Longrightarrow> member_inv (journal S) p m"
    and "x \<in> set (hist S p) \<Longrightarrow> io_ok (journal S) p x"
  using assms unfolding sys_inv_def by blast+

lemma member_invD:
  assumes "member_inv j p m"
  shows "process_reachable (shared m)" "process_ok (shared m)" "ns_pUuid (shared m) = p" "filed j p (shared m)"
    "nodes m u = Some nd \<Longrightarrow> nd_nUuid nd = u" "nodes m u = Some nd \<Longrightarrow> node_ok nd"
  using assms process_reachable_ok unfolding member_inv_def by blast+

lemma member_inv_mono: "member_inv j p m \<Longrightarrow> journal_le j j' \<Longrightarrow> member_inv j' p m"
  unfolding member_inv_def using filed_mono by blast

text \<open>One process takes a step, and the journal may grow.\<close>

lemma sys_inv_step:
  assumes "sys_inv S" and "journal_le (journal S) j"
    and "\<And>m. mo = Some m \<Longrightarrow> member_inv j p m" and "\<And>x. x \<in> set e \<Longrightarrow> io_ok j p x"
  shows "sys_inv ((evolve p mo e S)\<lparr>journal := j\<rparr>)"
proof -
  have "member_inv j q m" if "((members S)(p := mo)) q = Some m" for q m
    using that assms(3) member_inv_mono [OF sys_invD(1) [OF assms(1)] assms(2)] by (auto split: if_splits)
  moreover have "io_ok j q x" if "x \<in> set (((hist S)(p := hist S p @ e)) q)" for q x
    using that assms(4) io_ok_mono [OF sys_invD(2) [OF assms(1)] assms(2)] by (auto split: if_splits)
  ultimately show ?thesis by (simp add: sys_inv_def evolve_def)
qed

lemma sys_inv_evolve:
  assumes "sys_inv S" and "\<And>m. mo = Some m \<Longrightarrow> member_inv (journal S) p m"
    and "\<And>x. x \<in> set e \<Longrightarrow> io_ok (journal S) p x"
  shows "sys_inv (evolve p mo e S)"
  using sys_inv_step [OF assms(1) journal_le_refl assms(2,3)] by (simp add: evolve_def)

text \<open>A step of the shared node alone.\<close>

lemma sys_inv_shared:
  assumes "sys_inv S" and "members S p = Some m" and "process_reachable s'"
    and "accounted (journal S) p s' e"
  shows "sys_inv (evolve p (Some (m\<lparr>shared := s'\<rparr>)) e S)"
  using assms(3,4) sys_invD(1) [OF assms(1,2)]
  by (intro sys_inv_evolve assms(1)) (auto simp: member_inv_def accounted_def)

lemma node_step_reachable:
  "node_step fails op nd s = Inr (nd', s', e) \<Longrightarrow> process_reachable s \<Longrightarrow> process_reachable s'"
  by (cases op)
    (auto simp: without_result_Inr rbind_eq_Inr_iff intro: process_reachable.advertise process_reachable.unadvertise
      process_reachable.subscribe process_reachable.unsubscribe process_reachable.advertise_srv
      process_reachable.unadvertise_srv process_reachable.request process_reachable.blocking_request)

lemma Node_Request_node:
  "Node_Request fails topic msg u create serialize new cb rep0 result0 nd s = Inr (nd', s', e, ok) \<Longrightarrow> nd' = nd"
  by (auto simp: Node_Request_def Let_def rbind_eq_Inr_iff case_prod_unfold split: option.splits)

lemma node_step_node:
  assumes "node_step fails op nd s = Inr (nd', s', e)"
  shows "nd_nUuid nd' = nd_nUuid nd" and "node_ok nd \<Longrightarrow> node_ok nd'"
  using assms
  by (cases op; auto simp: without_result_Inr rbind_eq_Inr_iff split: option.splits
        dest!: node_results Node_Request_node intro: node_ok_insert node_ok_remove)+

text \<open>What a socket gives, with nothing on the other sockets.\<close>

lemma reception_parts:
  "process_reachable s \<Longrightarrow> RecvControlUpdate control s = Inr s' \<Longrightarrow> process_reachable s'"
  "process_reachable s \<Longrightarrow> RecvSrvRequest fails result0 req s = Inr (s', e) \<Longrightarrow> process_reachable s'"
  "process_reachable s \<Longrightarrow> RecvSrvResponse rep s = (s', e) \<Longrightarrow> process_reachable s'"
proof -
  note none = reception_round_def RecvMsgUpdate_def RecvControlUpdate_def [of None]
    RecvSrvRequest_def [of _ _ None] RecvSrvResponse_def [of None]
  assume s: "process_reachable s"
  show "process_reachable s'" if "RecvControlUpdate control s = Inr s'"
    by (rule process_reachable.reception [OF s, of "\<lambda>_. False" False None control None None _ "[]"])
      (simp add: none that)
  show "process_reachable s'" if "RecvSrvRequest fails result0 req s = Inr (s', e)"
    by (rule process_reachable.reception [OF s, of fails result0 None None req None _ e]) (simp add: none that)
  show "process_reachable s'" if "RecvSrvResponse rep s = (s', e)"
    by (rule process_reachable.reception [OF s, of "\<lambda>_. False" False None None None rep _ e]) (simp add: none that)
qed

lemma discovery_reachable:
  assumes "process_ok s" and "filed j (ns_pUuid s) s" and "process_reachable s"
    and "op = DoReceive now stack r \<or> op = DoSweep now \<or> op = DoHeartbeat"
    and "with_discovery fails (discovery_step to_ms op) s = Inr (s', e)"
  shows "process_reachable s' \<and> accounted j (ns_pUuid s) s' e"
proof
  show "process_reachable s'" using process_reachable.discovery [OF assms(3-5)] .
  show "accounted j (ns_pUuid s) s' e"
  proof (rule accounted_with_discovery [OF assms(5,1) refl assms(2)])
    show "discovery_ok d \<and> same_client (disc s) d" if "discovery_step to_ms op (disc s) = Inr (d, ev)" for d ev
      using discovery_ok_step [OF process_okD(1) [OF assms(1)] that] discovery_steps [OF assms(4) that] by blast
  qed
qed

lemma filed_ctor: "filed j p (NodeShared_ctor p host a_pub a_ctrl a_req a_rep id_resp id_rep)"
  by (simp add: filed_def NodeShared_ctor_def GetHandler_def vec_def)

lemma node_ok_ctors: "node_ok (Node_ctor env u)" "node_ok (Node_ctor_with env u0 part ns u)"
  using node_reachable_ok [OF node_reachable.default] node_reachable_ok [OF node_reachable.with_names] by blast+

lemma send_io_ok: "x \<in> set (concat (map send_io e)) \<Longrightarrow> io_ok j p x"
proof -
  assume "x \<in> set (concat (map send_io e))"
  then obtain y where "x \<in> set (send_io y)" by auto
  then show ?thesis by (cases y) simp_all
qed

lemma sys_inv_preserved:
  assumes "sys_step host to_ms deliverable S S'" and "sys_inv S"
  shows "sys_inv S'"
  using assms(1)
proof cases
  case (start p a_pub a_ctrl a_req a_rep id_resp id_rep)
  have "ns_pUuid (NodeShared_ctor p (host p) a_pub a_ctrl a_req a_rep id_resp id_rep) = p"
    by (simp add: NodeShared_ctor_def)
  then show ?thesis
    unfolding start(1) using filed_ctor
    by (intro sys_inv_evolve assms(2)) (auto simp: member_inv_def intro: process_reachable_start)
next
  case (new_node p m u nd env u0 part ns)
  have "nd_nUuid nd = u" "node_ok nd"
    using new_node(4) node_ok_ctors by (auto simp: Node_ctor_def Node_ctor_with_def Let_def)
  then show ?thesis
    unfolding new_node(1) using sys_invD(1) [OF assms(2) new_node(2)]
    by (intro sys_inv_evolve assms(2)) (auto simp: member_inv_def split: if_splits)
next
  case (node p m u nd op fails nd' s' e)
  let ?j = "enter p op nd (shared m) (journal S)"
  note m = sys_invD(1) [OF assms(2) node(2)]
  have acc: "accounted ?j p s' e"
    by (rule accounted_node_step [OF member_invD(2-4) [OF m] node(5)])
  have "member_inv ?j p \<lparr>shared = s', nodes = (nodes m)(u \<mapsto> nd')\<rparr>"
    using acc member_invD(5,6) [OF m] node_step_node [OF node(5)] node(3)
      node_step_reachable [OF node(5) member_invD(1) [OF m]] by (auto simp: member_inv_def accounted_def)
  moreover have "S' = (evolve p (Some \<lparr>shared = s', nodes = (nodes m)(u \<mapsto> nd')\<rparr>) e S)\<lparr>journal := ?j\<rparr>"
    by (simp add: node(1) log_op_def evolve_def)
  ultimately show ?thesis
    using acc sys_inv_step [OF assms(2) journal_le_enter, of "Some \<lparr>shared = s', nodes = (nodes m)(u \<mapsto> nd')\<rparr>" p]
    by (auto simp: accounted_def)
next
  case (end_node p m u nd)
  then show ?thesis
    unfolding end_node(1) using sys_invD(1) [OF assms(2) end_node(2)]
    by (intro sys_inv_evolve assms(2)) (auto simp: member_inv_def split: if_splits)
next
  case (task p m op now fails s' e)
  note m = member_invD [OF sys_invD(1) [OF assms(2) task(2)]]
  have "op = DoReceive now [] None \<or> op = DoSweep now \<or> op = DoHeartbeat" using task(3) by blast
  from discovery_reachable [OF m(2) _ m(1) this task(4), of "journal S"] m(3,4) show ?thesis
    unfolding task(1) by (intro sys_inv_shared [OF assms(2) task(2)]) simp_all
next
  case (datagram q m b p fails now stack s' e)
  note m = member_invD [OF sys_invD(1) [OF assms(2) datagram(2)]]
  let ?op = "DoReceive now stack (Some (host p, b))"
  have "with_discovery fails (discovery_step to_ms ?op) (shared m) = Inr (s', e)"
    using datagram(4) by (simp add: with_discovery_def)
  from discovery_reachable [OF m(2) _ m(1) _ this, of "journal S"] m(3,4) show ?thesis
    unfolding datagram(1) by (intro sys_inv_shared [OF assms(2) datagram(2)]) auto
next
  case (msg q m t a data p)
  note m = member_invD [OF sys_invD(1) [OF assms(2) msg(2)]]
  from sys_invD(2) [OF assms(2) msg(3)] obtain mm where "(t, p, mm, data) \<in> pubs (journal S)" by auto
  from accounted_RecvMsg [OF m(3,4) process_okD(7) [OF m(2)] this, of a]
  have "accounted (journal S) q (shared m) (RecvMsgUpdate (Some (t, a, data)) (shared m))" .
  then show ?thesis
    unfolding msg(1) using sys_inv_shared [OF assms(2) msg(2) m(1)] by simp
next
  case (control q m t u n data p s')
  note m = member_invD [OF sys_invD(1) [OF assms(2) control(2)]]
  show ?thesis
    unfolding control(1)
    using accounted_RecvControl [OF m(2-4) sys_invD(2) [OF assms(2) control(3)] control(4)]
    by (rule sys_inv_shared [OF assms(2) control(2) reception_parts(1) [OF m(1) control(4)]])
next
  case (request q m t sender dst n u req p fails result0 s' e)
  note m = member_invD [OF sys_invD(1) [OF assms(2) request(2)]]
  show ?thesis
    unfolding request(1)
    using accounted_RecvSrvRequest [OF m(2-4) sys_invD(2) [OF assms(2) request(3)] request(4)]
    by (rule sys_inv_shared [OF assms(2) request(2) reception_parts(2) [OF m(1) request(4)]])
next
  case (response q m t n u rep flag p s' e)
  note m = member_invD [OF sys_invD(1) [OF assms(2) response(2)]]
  show ?thesis
    unfolding response(1)
    using accounted_RecvSrvResponse [OF m(2-4) sys_invD(2) [OF assms(2) response(3)] response(4)]
    by (rule sys_inv_shared [OF assms(2) response(2) reception_parts(3) [OF m(1) response(4)]])
next
  case (exit p m d e)
  show ?thesis
    unfolding exit(1) by (intro sys_inv_evolve assms(2)) (auto intro: send_io_ok simp del: set_concat)
qed

lemma sys_inv_reachable: "sys_reachable host to_ms deliverable S \<Longrightarrow> sys_inv S"
  unfolding sys_reachable_def
proof (induction rule: rtranclp_induct)
  case base
  show ?case by (simp add: sys_inv_def system0_def)
qed (blast intro: sys_inv_preserved)

subsection \<open>End points\<close>

text \<open>The end points that a process advertises are those of its sockets, which never change.\<close>

fun end_points :: "msg_kind \<Rightarrow> 'm node_shared \<Rightarrow> string \<times> string" where
  "end_points Msg s = (myAddress s, myControlAddress s)"
| "end_points Srv s = (myReplierAddress s, replierId s)"

lemma end_points_updates [simp]:
  "end_points k (s\<lparr>disc := d\<rparr>) = end_points k s" "end_points k (s\<lparr>connections := c\<rparr>) = end_points k s"
  "end_points k (s\<lparr>srvConnections := sc\<rparr>) = end_points k s"
  "end_points k (s\<lparr>remoteSubscribers := c\<rparr>) = end_points k s"
  "end_points k (s\<lparr>localSubscriptions := l\<rparr>) = end_points k s"
  "end_points k (s\<lparr>repliers := r\<rparr>) = end_points k s" "end_points k (s\<lparr>requests := q\<rparr>) = end_points k s"
  "end_points k (s\<lparr>heap := h\<rparr>) = end_points k s"
  by (cases k; simp)+

lemma sockets_SendPending:
  assumes "SendPendingRemoteReqs fails t s = Inr (s', e)"
  shows "end_points k s' = end_points k s"
proof -
  from assms have "s' = s \<or> (\<exists>i rs. s' = fst (send_pending fails t i rs s))"
    by (auto simp: SendPendingRemoteReqs_def split: option.splits list.splits prod.splits) (metis fst_conv)
  moreover have "end_points k (fst (send_pending fails t i rs s)) = end_points k s" for i rs
    using send_pending_fields [of fails t i rs s] by auto
  ultimately show ?thesis by auto
qed

lemma sockets_handle_event:
  assumes "handle_event fails x s = Inr (s', e)"
  shows "end_points k s' = end_points k s"
proof (cases x)
  case (Call cb t a c p n sc)
  have "end_points k (fst (OnNewConnection fails t a c p n sc s)) = end_points k s"
    by (simp add: OnNewConnection_def Let_def)
  moreover have "end_points k s' = end_points k s" if "OnNewDisconnection fails t p n s = Inr (s', e)"
    using that by (auto simp: OnNewDisconnection_def Let_def split: if_splits option.splits)
  moreover have "end_points k s' = end_points k s" if "OnNewSrvConnection fails t a s = Inr (s', e)"
    using that by (auto simp: OnNewSrvConnection_def Let_def rbind_eq_Inr_iff sockets_SendPending split: if_splits)
  ultimately show ?thesis
    using assms Call by (cases cb) (auto simp: OnNewSrvDisconnection_def)
qed (use assms in simp)

lemma sockets_handle_events:
  "handle_events fails ev s = Inr (s', e) \<Longrightarrow> end_points k s' = end_points k s"
  by (induction ev arbitrary: s e) (auto simp: rbind_eq_Inr_iff sockets_handle_event)

lemma sockets_with_discovery:
  "with_discovery fails f s = Inr (s', e) \<Longrightarrow> end_points k s' = end_points k s"
  by (auto simp: with_discovery_def rbind_eq_Inr_iff sockets_handle_events)

lemma sockets_receptions:
  "RecvControlUpdate control s = Inr s' \<Longrightarrow> end_points k s' = end_points k s"
  "RecvSrvRequest fails result0 req s = Inr (s', e) \<Longrightarrow> end_points k s' = end_points k s"
  "RecvSrvResponse rep s = (s', e) \<Longrightarrow> end_points k s' = end_points k s"
  by (auto simp: RecvControlUpdate_def RecvSrvRequest_def RecvSrvResponse_def rbind_eq_Inr_iff Let_def
      case_prod_unfold split: option.splits if_splits)

lemma sockets_file_request:
  "file_request fails t h nd s = Inr (s', e) \<Longrightarrow> end_points k s' = end_points k s"
  by (auto simp: file_request_def Let_def sockets_with_discovery sockets_SendPending split: option.splits)

lemma sockets_node_step:
  "node_step fails op nd s = Inr (nd', s', e) \<Longrightarrow> end_points k s' = end_points k s"
  by (cases op)
    (auto simp: without_result_Inr Node_Advertise_def Node_Unadvertise_def Node_Subscribe_def Node_Unsubscribe_def
      Node_AdvertiseSrv_def Node_UnadvertiseSrv_def Node_Request_def Node_Request_start_def Let_def
      rbind_eq_Inr_iff case_prod_unfold sockets_with_discovery sockets_file_request split: option.splits if_splits)

definition at_home :: "'m system \<Rightarrow> bool" where
  "at_home S \<longleftrightarrow> (\<forall>p m k t i. members S p = Some m \<longrightarrow> (k, t, p, i) \<in> adverts (journal S) \<longrightarrow>
     (addr i, ctrl i) = end_points k (shared m))"

lemma op_adverts_home:
  "(k, t, q, i) \<in> op_adverts p op nd s \<Longrightarrow> q = p \<and> (addr i, ctrl i) = end_points k s"
  by (cases op) (auto simp: op_adverts_def split: option.splits)

lemma adverts_enter: "adverts (enter p op nd s j) = adverts j \<union> op_adverts p op nd s"
  by (simp add: enter_def op_adverts_def split: option.split)

lemma evolve_fields [simp]:
  "members (evolve p m e S) q = (if q = p then m else members S q)"
  "hist (evolve p m e S) q = (if q = p then hist S p @ e else hist S q)"
  "journal (evolve p m e S) = journal S"
  by (simp_all add: evolve_def)

lemma log_op_fields [simp]:
  "members (log_op p op nd s S) = members S" "hist (log_op p op nd s S) = hist S"
  "journal (log_op p op nd s S) = enter p op nd s (journal S)"
  by (simp_all add: log_op_def)

lemma at_home_evolve:
  assumes "at_home S" and "members S p = Some m" and "\<And>k. end_points k (shared m') = end_points k (shared m)"
  shows "at_home (evolve p (Some m') e S)"
  using assms by (auto simp: at_home_def)

lemma at_home_preserved:
  assumes "sys_step host to_ms deliverable S S'" and "at_home S"
  shows "at_home S'"
  using assms(1)
proof cases
  case (start p a_pub a_ctrl a_req a_rep id_resp id_rep)
  then show ?thesis using assms(2) by (auto simp: at_home_def)
next
  case (node p m u nd op fails nd' s' e)
  let ?S = "evolve p (Some \<lparr>shared = s', nodes = (nodes m)(u \<mapsto> nd')\<rparr>) e S"
  note ends = sockets_node_step [OF node(5)]
  have "at_home ?S" by (rule at_home_evolve [OF assms(2) node(2)]) (simp add: ends)
  then show ?thesis
    using op_adverts_home [of _ _ _ _ p op nd "shared m"]
    by (auto simp: node(1) at_home_def adverts_enter ends split: if_splits)
next
  case (exit p m d e)
  then show ?thesis using assms(2) by (simp add: at_home_def)
qed (auto intro: at_home_evolve [OF assms(2)] simp: sockets_with_discovery sockets_receptions)

lemma at_home_reachable: "sys_reachable host to_ms deliverable S \<Longrightarrow> at_home S"
  unfolding sys_reachable_def
proof (induction rule: rtranclp_induct)
  case base
  show ?case by (simp add: at_home_def system0_def)
qed (blast intro: at_home_preserved)

end
