(* ===== verification/SystemLiveness.thy ===== *)
theory SystemLiveness
  imports SystemProps
begin

text \<open>
  What can be reached: a published message gets from a publisher to a subscriber in another process,
  through the datagrams of the discovery, the control messages and the message sockets.
\<close>

subsection \<open>The subscriber socket\<close>

text \<open>Whether the socket is connected to the end point \<open>a\<close>, and whether it lets the topic \<open>t\<close>
  through, after what the process has asked of its sockets.\<close>

definition sock_connected :: "string \<Rightarrow> 'm io list \<Rightarrow> bool" where
  "sock_connected a l = fold (\<lambda>x b. if x = ConnectSub a then True else if x = DisconnectSub a then False else b) l False"

definition sock_filtered :: "string \<Rightarrow> 'm io list \<Rightarrow> bool" where
  "sock_filtered t l = fold (\<lambda>x b. if x = AddFilter t then True else if x = RemoveFilter t then False else b) l False"

lemma sock_connected_append:
  "sock_connected a (l @ l') \<longleftrightarrow> sock_connected a l' \<or> sock_connected a l \<and> DisconnectSub a \<notin> set l'"
proof (induction l' rule: rev_induct)
  case (snoc x l')
  show ?case using snoc unfolding append_assoc [symmetric] sock_connected_def fold_append by auto
qed (simp add: sock_connected_def)

lemma sock_filtered_append:
  "sock_filtered t (l @ l') \<longleftrightarrow> sock_filtered t l' \<or> sock_filtered t l \<and> RemoveFilter t \<notin> set l'"
proof (induction l' rule: rev_induct)
  case (snoc x l')
  show ?case using snoc unfolding append_assoc [symmetric] sock_filtered_def fold_append by auto
qed (simp add: sock_filtered_def)

lemma sock_single:
  "sock_connected a [x] \<longleftrightarrow> x = ConnectSub a" "sock_filtered t [x] \<longleftrightarrow> x = AddFilter t"
  "\<not> sock_connected a []" "\<not> sock_filtered t []"
  by (simp_all add: sock_connected_def sock_filtered_def)

text \<open>The 0MQ library may hand over what comes from a connected end point and passes the filter.\<close>

definition hands_over :: "('m io list \<Rightarrow> string \<Rightarrow> string \<Rightarrow> bool) \<Rightarrow> bool" where
  "hands_over deliverable \<longleftrightarrow>
     (\<forall>l a t. sock_connected a l \<and> sock_filtered t l \<longrightarrow> deliverable l a t)"

subsection \<open>From the control message on\<close>

lemma RecvControl_subscribes:
  assumes "process_ok s"
  shows "\<exists>s'. RecvControlUpdate (Some (t, q, n, to_string NewConnection)) s = Inr s' \<and>
    HasTopic t (remoteSubscribers s') \<and> vec (remoteSubscribers s') t q \<noteq> [] \<and> disc s' = disc s \<and> myAddress s' = myAddress s"
proof -
  note ok = process_okD(6) [OF assms]
  let ?d = "snd (AddAddress t '''' '''' q n All (remoteSubscribers s))"
  have "vec ?d t q \<noteq> []" using ok by (auto simp: ts.recs_add)
  moreover from this have "HasTopic t ?d" unfolding HasTopic_iff [OF ts.ok_add [OF ok]] by blast
  ultimately show ?thesis by (simp add: RecvControl_new)
qed

lemma RecvMsg_calls:
  assumes "process_ok s" and "GetHandler t n u (localSubscriptions s) = Some h" and "sh_cb h"
  shows "UserCall (SubCall u (strip_partition t) (sh_CreateMsg h data)) \<in> set (RecvMsgUpdate (Some (t, a, data)) s)"
proof -
  have "subscriptions_ok (localSubscriptions s)" by (rule process_okD(7) [OF assms(1)])
  then have "h \<in> set (handlers_of t (localSubscriptions s))" "sh_hUuid h = u"
    using assms(2) by (auto simp: subscriptions_ok_def set_handlers_of)
  then show ?thesis
    using assms(3) by (auto simp: RecvMsgUpdate_def sub_RunCallback_def intro!: bexI [of _ h])
qed

text \<open>The control message is received, the message is published and received.\<close>

lemma published_arrives:
  fixes S :: "'m system" and msg :: 'm and serialize :: "'m \<Rightarrow> string"
  assumes inv: "sys_inv S" and hands: "hands_over deliverable" and "p \<noteq> q"
    and p: "members S p = Some mp" "nodes mp u = Some nd" "fqn nd topic = Some t" "t \<in> set (topicsAdvertised nd)"
    and q: "members S q = Some mq" "GetHandler t n hu (localSubscriptions (shared mq)) = Some h" "sh_cb h"
    and control: "ControlFrames (myControlAddress (shared mp)) [t, q, n', to_string NewConnection] \<in> set (hist S q)"
    and sock: "sock_connected (myAddress (shared mp)) (hist S q)" "sock_filtered t (hist S q)"
  shows "\<exists>S' e. (sys_step host to_ms deliverable)\<^sup>*\<^sup>* S S' \<and> hist S' q = hist S q @ e \<and>
    UserCall (SubCall hu (strip_partition t) (sh_CreateMsg h (serialize msg))) \<in> set e \<and>
    (\<exists>m. members S' p = Some m \<and> vec (remoteSubscribers (shared m)) t q \<noteq> [])"
proof -
  note mp = member_invD [OF sys_invD(1) [OF inv p(1)]] and mq = member_invD [OF sys_invD(1) [OF inv q(1)]]
  obtain s1 where s1: "RecvControlUpdate (Some (t, q, n', to_string NewConnection)) (shared mp) = Inr s1"
    "HasTopic t (remoteSubscribers s1)" "vec (remoteSubscribers s1) t q \<noteq> []" "myAddress s1 = myAddress (shared mp)"
    using RecvControl_subscribes [OF mp(2)] by blast
  define S1 where "S1 = evolve p (Some (mp\<lparr>shared := s1\<rparr>)) [] S"
  have 1: "sys_step host to_ms deliverable S S1"
    unfolding S1_def using p(1) control s1(1) by (rule sys_step.control)
  let ?op = "OpPublish topic msg serialize"
  let ?e = "fst (Node_Publish (\<lambda>_. False) serialize topic msg nd s1)"
  have frames: "PublishFrames [t, myAddress (shared mp), serialize msg] \<in> set ?e"
    by (simp add: Node_Publish_def p(3,4) s1 Publish_def Let_def)
  define S2 where "S2 = log_op p ?op nd s1 (evolve p (Some \<lparr>shared = s1, nodes = (nodes mp)(u \<mapsto> nd)\<rparr>) ?e S1)"
  have 2: "sys_step host to_ms deliverable S1 S2"
    using sys_step.node [of S1 p "mp\<lparr>shared := s1\<rparr>" u nd ?op "\<lambda>_. False" nd s1 ?e host to_ms deliverable] p(2)
    by (simp add: S2_def S1_def op_fits_def)
  let ?r = "RecvMsgUpdate (Some (t, myAddress (shared mp), serialize msg)) (shared mq)"
  have "deliverable (hist S2 q) (myAddress (shared mp)) t"
    using hands sock \<open>p \<noteq> q\<close> by (simp add: hands_over_def S2_def S1_def)
  then have 3: "sys_step host to_ms deliverable S2 (evolve q (Some mq) ?r S2)"
    using frames q(1) \<open>p \<noteq> q\<close>
    by (intro sys_step.msg [where p = p]) (simp_all add: S2_def S1_def)
  have "(sys_step host to_ms deliverable)\<^sup>*\<^sup>* S (evolve q (Some mq) ?r S2)"
    using 1 2 3 by (meson r_into_rtranclp rtranclp_trans)
  moreover have "hist (evolve q (Some mq) ?r S2) q = hist S q @ ?r"
    using \<open>p \<noteq> q\<close> by (simp add: S2_def S1_def)
  moreover have "members (evolve q (Some mq) ?r S2) p = Some \<lparr>shared = s1, nodes = (nodes mp)(u \<mapsto> nd)\<rparr>"
    using \<open>p \<noteq> q\<close> by (simp add: S2_def)
  ultimately show ?thesis using RecvMsg_calls [OF mq(2) q(2,3)] s1(3) by (metis member.select_convs(1))
qed

subsection \<open>The connection\<close>

lemma sock_connected_in:
  "ConnectSub a \<in> set e \<Longrightarrow> DisconnectSub a \<notin> set e \<Longrightarrow> sock_connected a (l @ e)"
proof (induction e rule: rev_induct)
  case (snoc x e)
  have split: "l @ e @ [x] = (l @ e) @ [x]" by simp
  show ?case using snoc unfolding split sock_connected_append [of _ "l @ e"] by (auto simp: sock_single)
qed simp

lemma sock_filtered_in:
  "AddFilter t \<in> set e \<Longrightarrow> RemoveFilter t \<notin> set e \<Longrightarrow> sock_filtered t (l @ e)"
proof (induction e rule: rev_induct)
  case (snoc x e)
  have split: "l @ e @ [x] = (l @ e) @ [x]" by simp
  show ?case using snoc unfolding split sock_filtered_append [of _ "l @ e"] by (auto simp: sock_single)
qed simp

text \<open>What the callback for a new publisher does when the sockets work.\<close>

lemma takeWhile_working [simp]: "takeWhile (\<lambda>_. True) l = l"
  by (induction l) simp_all

lemma OnNewConnection_works:
  assumes "HasHandlersForTopic t (localSubscriptions s)" and "p \<noteq> ns_pUuid s"
  shows "OnNewConnection (\<lambda>_. False) t a c p n sc s =
    (s\<lparr>connections := snd (AddAddress t a c p n sc (connections s))\<rparr>,
     (if HasAddress a (connections s) then [] else [ConnectSub a]) @ [AddFilter t, ConnectControl c] @
     map (\<lambda>h. ControlFrames c [t, ns_pUuid s, sh_nUuid h, to_string NewConnection])
       (handlers_of t (localSubscriptions s)))"
  using assms by (simp add: OnNewConnection_def Let_def)

lemma HasAddress_add:
  assumes "storage_ok data"
  shows "HasAddress b (snd (AddAddress t a c p n sc data)) \<Longrightarrow> HasAddress b data \<or> b = a"
  using assms by (auto simp: HasAddress_iff ts.ok_add ts.recs_add split: if_splits)

text \<open>The sockets and the control messages after a series of calls.\<close>

definition joined :: "string \<Rightarrow> string \<Rightarrow> 'm node_shared \<Rightarrow> string \<Rightarrow> 'm io list \<Rightarrow> bool" where
  "joined t a s c e \<longleftrightarrow> AddFilter t \<in> set e \<and> (ConnectSub a \<in> set e \<or> HasAddress a (connections s)) \<and>
     (\<forall>h \<in> set (handlers_of t (localSubscriptions s)).
       ControlFrames c [t, ns_pUuid s, sh_nUuid h, to_string NewConnection] \<in> set e)"

fun connection_event :: "event \<Rightarrow> bool" where
  "connection_event (Send b) = True"
| "connection_event (Call cb t a c p n sc) = (cb = ConnectionCb)"

lemma handle_connection_event:
  assumes "connection_event x" and "process_ok s"
  shows "\<exists>s' e. handle_event (\<lambda>_. False) x s = Inr (s', e) \<and> process_ok s' \<and>
    localSubscriptions s' = localSubscriptions s \<and> ns_pUuid s' = ns_pUuid s \<and>
    (\<forall>b. DisconnectSub b \<notin> set e \<and> RemoveFilter b \<notin> set e) \<and>
    (\<forall>b. HasAddress b (connections s') \<longrightarrow> HasAddress b (connections s) \<or> ConnectSub b \<in> set e) \<and>
    (\<forall>t a c p n sc. x = Call ConnectionCb t a c p n sc \<and> HasHandlersForTopic t (localSubscriptions s) \<and>
      p \<noteq> ns_pUuid s \<longrightarrow> joined t a s c e)"
proof (cases x)
  case (Send b)
  then show ?thesis using assms(2) by simp
next
  case (Call cb t a c p n sc)
  let ?r = "OnNewConnection (\<lambda>_. False) t a c p n sc s"
  have x: "x = Call ConnectionCb t a c p n sc" using assms(1) Call by simp
  have run: "handle_event (\<lambda>_. False) x s = Inr (fst ?r, snd ?r)" by (simp add: x)
  show ?thesis
  proof (cases "HasHandlersForTopic t (localSubscriptions s) \<and> ns_pUuid s \<noteq> p")
    case False
    then have "?r = (s, [])" by (auto simp: OnNewConnection_def)
    then show ?thesis using run assms(2) False by (auto simp: x)
  next
    case True
    have eq: "?r = (s\<lparr>connections := snd (AddAddress t a c p n sc (connections s))\<rparr>,
        (if HasAddress a (connections s) then [] else [ConnectSub a]) @ [AddFilter t, ConnectControl c] @
        map (\<lambda>h. ControlFrames c [t, ns_pUuid s, sh_nUuid h, to_string NewConnection])
          (handlers_of t (localSubscriptions s)))"
      using True by (intro OnNewConnection_works) auto
    have ok: "storage_ok (connections s)" using process_okD(4) [OF assms(2)] by (simp add: connections_ok_def)
    have "joined t a s c (snd ?r)" by (auto simp: joined_def eq)
    moreover have "process_ok (fst ?r)" using assms(2) by (rule process_ok_OnNewConnection)
    moreover have "HasAddress b (connections s) \<or> ConnectSub b \<in> set (snd ?r)"
      if "HasAddress b (connections (fst ?r))" for b
      using that HasAddress_add [OF ok, of b t a c p n sc] by (auto simp: eq)
    moreover have "DisconnectSub b \<notin> set (snd ?r) \<and> RemoveFilter b \<notin> set (snd ?r)" for b
      by (auto simp: eq)
    ultimately show ?thesis
      using run by (intro exI [of _ "fst ?r"] exI [of _ "snd ?r"]) (auto simp: x eq)
  qed
qed

lemma handle_connection_events:
  "\<forall>x \<in> set ev. connection_event x \<Longrightarrow> process_ok s \<Longrightarrow>
   \<exists>s' e. handle_events (\<lambda>_. False) ev s = Inr (s', e) \<and>
     localSubscriptions s' = localSubscriptions s \<and> ns_pUuid s' = ns_pUuid s \<and>
     (\<forall>b. DisconnectSub b \<notin> set e \<and> RemoveFilter b \<notin> set e) \<and>
     (\<forall>b. HasAddress b (connections s') \<longrightarrow> HasAddress b (connections s) \<or> ConnectSub b \<in> set e) \<and>
     (\<forall>t a c p n sc. Call ConnectionCb t a c p n sc \<in> set ev \<and> HasHandlersForTopic t (localSubscriptions s) \<and>
       p \<noteq> ns_pUuid s \<longrightarrow> joined t a s c e)"
proof (induction ev arbitrary: s)
  case (Cons x ev)
  obtain s1 e1 where 1: "handle_event (\<lambda>_. False) x s = Inr (s1, e1)" "process_ok s1"
    "localSubscriptions s1 = localSubscriptions s" "ns_pUuid s1 = ns_pUuid s"
    "\<And>b. DisconnectSub b \<notin> set e1 \<and> RemoveFilter b \<notin> set e1"
    "\<And>b. HasAddress b (connections s1) \<Longrightarrow> HasAddress b (connections s) \<or> ConnectSub b \<in> set e1"
    and join1: "\<And>t a c p n sc. x = Call ConnectionCb t a c p n sc \<Longrightarrow>
      HasHandlersForTopic t (localSubscriptions s) \<Longrightarrow> p \<noteq> ns_pUuid s \<Longrightarrow> joined t a s c e1"
    using handle_connection_event [of x s] Cons.prems by auto
  have ev: "\<forall>x \<in> set ev. connection_event x" using Cons.prems(1) by simp
  from Cons.IH [OF ev 1(2)]
  obtain s2 e2 where 2: "handle_events (\<lambda>_. False) ev s1 = Inr (s2, e2)"
    "localSubscriptions s2 = localSubscriptions s1" "ns_pUuid s2 = ns_pUuid s1"
    "\<And>b. DisconnectSub b \<notin> set e2 \<and> RemoveFilter b \<notin> set e2"
    "\<And>b. HasAddress b (connections s2) \<Longrightarrow> HasAddress b (connections s1) \<or> ConnectSub b \<in> set e2"
    and join2: "\<And>t a c p n sc. Call ConnectionCb t a c p n sc \<in> set ev \<Longrightarrow>
      HasHandlersForTopic t (localSubscriptions s1) \<Longrightarrow> p \<noteq> ns_pUuid s1 \<Longrightarrow> joined t a s1 c e2"
    by blast
  have all: "joined t a s c (e1 @ e2)"
    if "Call ConnectionCb t a c p n sc \<in> set (x # ev)" "HasHandlersForTopic t (localSubscriptions s)"
      "p \<noteq> ns_pUuid s" for t a c p n sc
  proof (cases "x = Call ConnectionCb t a c p n sc")
    case True
    from join1 [OF this that(2,3)] show ?thesis by (auto simp: joined_def)
  next
    case False
    then have "joined t a s1 c e2" using that 1(3,4) by (intro join2) auto
    then show ?thesis using 1(3,4) 1(6) [of a] by (auto simp: joined_def)
  qed
  show ?case
  proof (intro exI [of _ s2] exI [of _ "e1 @ e2"] conjI)
    show "\<forall>t a c p n sc. Call ConnectionCb t a c p n sc \<in> set (x # ev) \<and>
        HasHandlersForTopic t (localSubscriptions s) \<and> p \<noteq> ns_pUuid s \<longrightarrow> joined t a s c (e1 @ e2)"
      using all by blast
    show "\<forall>b. HasAddress b (connections s2) \<longrightarrow> HasAddress b (connections s) \<or> ConnectSub b \<in> set (e1 @ e2)"
      using 1(6) 2(5) by auto
  qed (use 1 2 in auto)
qed simp

lemma joined_sockets:
  assumes "joined t a s c e" and "\<And>b. DisconnectSub b \<notin> set e \<and> RemoveFilter b \<notin> set e"
    and "HasAddress a (connections s) \<Longrightarrow> sock_connected a l"
  shows "sock_connected a (l @ e)" "sock_filtered t (l @ e)"
  using assms sock_connected_in [of a e l] sock_filtered_in [of t e l]
  by (auto simp: joined_def sock_connected_append)

subsection \<open>A subscriber learns of the publisher\<close>

lemma member_net:
  assumes "sys_reachable host to_ms deliverable S" and "members S p = Some m"
  shows "discovery_ok (disc (shared m))" "pUuid (disc (shared m)) = p" "hostAddr (disc (shared m)) = host p"
    "own_transmittable (disc (shared m))"
    "i \<in> set (records k (disc (shared m)) t q) \<Longrightarrow> (k, t, q, i) \<in> adverts (journal S)"
  using net_okD(1) [OF net_reachable_ok [OF net_of_reachable [OF assms(1)]], of p "disc (shared m)"] assms(2)
  by (auto simp: member_ok_def)

text \<open>A record names the end points of the process, as long as it runs.\<close>

lemma record_home:
  assumes "sys_reachable host to_ms deliverable S" and "members S q = Some mq" and "members S p = Some mp"
    and "i \<in> set (records k (disc (shared mq)) t p)"
  shows "(addr i, ctrl i) = end_points k (shared mp)"
  using at_home_reachable [OF assms(1)] member_net(5) [OF assms(1,2,4)] assms(3) unfolding at_home_def by blast

text \<open>The steps that follow a heartbeat of the publisher.\<close>

lemma heartbeat_sends:
  assumes "sys_reachable host to_ms deliverable S" and "members S p = Some mp"
    and "i \<in> set (records k (disc (shared mp)) t p)"
  shows "\<exists>e. sys_step host to_ms deliverable S (evolve p (Some mp) e S) \<and>
    Datagram (dmsg_wire p (own_dmsg k t i)) \<in> set e"
proof -
  let ?d = "disc (shared mp)"
  let ?ms = "Heartbeat # own_dmsgs Msg ?d @ own_dmsgs Srv ?d"
  note d = member_net(1,2,4) [OF assms(1,2)]
  define bs where "bs = map (dmsg_wire p) ?ms"
  have "discovery_step to_ms DoHeartbeat ?d = Inr (?d, map Send bs)"
    using heartbeat_eq [OF d(1) own_transmittable_sendable [OF d(3)]] d(2) by (simp add: datagrams_def bs_def)
  then have run: "with_discovery (\<lambda>_. False) (discovery_step to_ms DoHeartbeat) (shared mp) =
      Inr (shared mp, map Datagram bs)"
    by (simp add: with_discovery_def handle_sends)
  have "own_dmsg k t i \<in> set ?ms"
    using assms(3) by (cases k) (auto simp: set_own_dmsgs [OF d(1)] d(2))
  then have "Datagram (dmsg_wire p (own_dmsg k t i)) \<in> set (map Datagram bs)" by (auto simp: bs_def)
  moreover have "sys_step host to_ms deliverable S (evolve p (Some (mp\<lparr>shared := shared mp\<rparr>)) (map Datagram bs) S)"
    by (rule sys_step.task [OF assms(2) _ run]) simp
  ultimately show ?thesis by (intro exI [of _ "map Datagram bs"]) simp
qed

lemma advertisement_connects:
  assumes reach: "sys_reachable host to_ms deliverable S" and "p \<noteq> q"
    and q: "members S q = Some mq" "HasHandlersForTopic t (localSubscriptions (shared mq))"
    and sent: "Datagram (dmsg_wire p (own_dmsg Msg t i)) \<in> set (hist S p)"
    and tr: "transmittable p (own_dmsg Msg t i)" and vis: "visible host q p i"
    and new: "\<not> known Msg (disc (shared mq)) t p i"
  shows "\<exists>s' e. sys_step host to_ms deliverable S (evolve q (Some (mq\<lparr>shared := s'\<rparr>)) e S) \<and>
    localSubscriptions s' = localSubscriptions (shared mq) \<and> joined t (addr i) (shared mq) (ctrl i) e \<and>
    (\<forall>b. DisconnectSub b \<notin> set e \<and> RemoveFilter b \<notin> set e)"
proof -
  let ?s = "shared mq" let ?d = "disc (shared mq)"
  let ?x = "Call ConnectionCb t (addr i) (ctrl i) p (nUuid i) (scope i)"
  have ok: "process_ok ?s" and uuid: "ns_pUuid ?s = q"
    using member_invD [OF sys_invD(1) [OF sys_inv_reachable [OF reach] q(1)]] by blast+
  note d = member_net(1-3) [OF reach q(1)]
  have "\<not> hidden (host p) (scope i) ?d" using vis d(3) by (auto simp: visible_def hidden_def)
  then obtain d' where "deliver 0 (host p) p (own_dmsg Msg t i) ?d = Inr (d', notify ConnectionCb ?d t (addr i) (ctrl i) p (nUuid i) (scope i))"
    using deliver_advertised [OF d(1), of p 0 "host p" Msg t "addr i" "ctrl i" "nUuid i" "scope i"]
      d(2) \<open>p \<noteq> q\<close> new by (auto simp: own_dmsg_def)
  then have recv: "RecvDiscoveryUpdate 0 [] (Some (host p, dmsg_wire p (own_dmsg Msg t i))) ?d = Inr (d', [?x])"
    using process_okD(3) [OF ok, of ConnectionCb] by (simp add: receive_deliver [OF tr] notify_def)
  let ?s1 = "?s\<lparr>disc := d'\<rparr>"
  have "process_ok ?s1"
  proof (rule process_ok_discovery [OF ok])
    have step: "discovery_step to_ms (DoReceive 0 [] (Some (host p, dmsg_wire p (own_dmsg Msg t i)))) ?d = Inr (d', [?x])"
      using recv by simp
    show "discovery_ok d'" using discovery_ok_step [OF d(1) step] .
    show "same_client ?d d'" using same_client_Recv [OF recv] .
  qed
  then obtain s' e where h: "handle_events (\<lambda>_. False) [?x] ?s1 = Inr (s', e)"
    "localSubscriptions s' = localSubscriptions ?s1"
    "\<forall>b. DisconnectSub b \<notin> set e \<and> RemoveFilter b \<notin> set e"
    "\<forall>t a c p n sc. Call ConnectionCb t a c p n sc \<in> set [?x] \<and> HasHandlersForTopic t (localSubscriptions ?s1) \<and>
       p \<noteq> ns_pUuid ?s1 \<longrightarrow> joined t a ?s1 c e"
    using handle_connection_events [of "[?x]" ?s1] by auto
  have "joined t (addr i) ?s1 (ctrl i) e" using h(4) q(2) uuid \<open>p \<noteq> q\<close> by simp
  then have "joined t (addr i) ?s (ctrl i) e" by (simp add: joined_def)
  moreover have "with_discovery (\<lambda>_. False) (RecvDiscoveryUpdate 0 [] (Some (host p, dmsg_wire p (own_dmsg Msg t i)))) ?s =
      Inr (s', e)"
    using h(1) by (simp add: with_discovery_def recv)
  ultimately show ?thesis
    using sys_step.datagram [OF q(1) sent, where s' = s' and e = e] h(2,3)
    by (intro exI [of _ s'] exI [of _ e]) auto
qed

lemma Node_Subscribe_filed:
  "fqn nd topic = Some t \<Longrightarrow> Node_Subscribe fails topic hu create cb nd s =
     rbind (with_discovery fails (\<lambda>d. rbind (Discover t False d) (\<lambda>e. Inr (d, e)))
       (s\<lparr>localSubscriptions := AddHandler sh_hUuid t (nd_nUuid nd)
          (sub_SetCallback cb (SubscriptionHandler_ctor hu (nd_nUuid nd) create)) (localSubscriptions s)\<rparr>))
       (\<lambda>(s, e). Inr (nd\<lparr>topicsSubscribed := set_insert t (topicsSubscribed nd)\<rparr>, s, e, True))"
  by (simp add: Node_Subscribe_def Let_def)

text \<open>The step of the subscriber: it asks for publishers, and connects to those that it knows.\<close>

lemma subscription_connects:
  assumes reach: "sys_reachable host to_ms deliverable S"
    and q: "members S q = Some mq" "nodes mq v = Some ndq" "fqn ndq topic = Some t"
    and tr: "transmittable q (Requested Msg t)"
    and fresh: "GetHandler t v hu (localSubscriptions (shared mq)) = None"
    and h_def: "h = sub_SetCallback True (SubscriptionHandler_ctor hu v create)"
  shows "\<exists>s' e ndq'. sys_step host to_ms deliverable S
      (log_op q (OpSubscribe topic hu create True) ndq (shared mq)
        (evolve q (Some \<lparr>shared = s', nodes = (nodes mq)(v \<mapsto> ndq')\<rparr>) e S)) \<and>
    GetHandler t v hu (localSubscriptions s') = Some h \<and> disc s' = disc (shared mq) \<and>
    (\<forall>b. DisconnectSub b \<notin> set e \<and> RemoveFilter b \<notin> set e) \<and>
    (\<forall>b. HasAddress b (connections s') \<longrightarrow> HasAddress b (connections (shared mq)) \<or> ConnectSub b \<in> set e) \<and>
    (\<forall>p. \<forall>i \<in> set (records Msg (disc (shared mq)) t p). p \<noteq> q \<longrightarrow>
      AddFilter t \<in> set e \<and> (ConnectSub (addr i) \<in> set e \<or> HasAddress (addr i) (connections (shared mq))) \<and>
      ControlFrames (ctrl i) [t, q, v, to_string NewConnection] \<in> set e)"
proof -
  let ?s = "shared mq" let ?d = "disc (shared mq)"
  note m = member_invD [OF sys_invD(1) [OF sys_inv_reachable [OF reach] q(1)]]
  have v: "nd_nUuid ndq = v" using m(5) [OF q(2)] .
  have h: "sh_hUuid h = hu" "sh_nUuid h = v" by (simp_all add: h_def sub_SetCallback_def SubscriptionHandler_ctor_def)
  note subs = process_okD(7) [OF m(2)]
  let ?new = "?s\<lparr>localSubscriptions := AddHandler sh_hUuid t v h (localSubscriptions ?s)\<rparr>"
  have ok: "process_ok ?new"
    using subs q(3) fqn_not_Nil [of ndq topic] h by (intro process_ok_subscriptions m(2) subscriptions_ok_add) auto
  have got: "GetHandler t v hu (localSubscriptions ?new) = Some h"
    using subs fresh by (simp add: subscriptions_ok_def GetHandler_at hs.at_add h)
  have hs: "handlers_ok (localSubscriptions ?new)" using process_okD(7) [OF ok] by (simp add: subscriptions_ok_def)
  have in_h: "h \<in> set (handlers_of t (localSubscriptions ?new))" using got unfolding set_handlers_of [OF hs] by blast
  have has: "HasHandlersForTopic t (localSubscriptions ?new)"
    using got hs unfolding HasHandlersForTopic_iff [OF hs] GetHandler_at by auto
  have sendable: "sendable (pUuid ?d) (Requested (if False then Srv else Msg) t)"
    using tr member_net(2) [OF reach q(1)] by (simp add: transmittable_def)
  obtain calls where disc: "Discover t False ?d = Inr (Send (dmsg_wire (pUuid ?d) (Requested Msg t)) # calls)"
    and calls: "set calls = {x. has_callback ConnectionCb ?d \<and>
      (\<exists>p. \<exists>i \<in> set (records Msg ?d t p). x = Call ConnectionCb t (addr i) (ctrl i) p (nUuid i) (scope i))}"
    using Discover_eq [OF member_net(1) [OF reach q(1)] sendable] by auto
  let ?ev = "Send (dmsg_wire (pUuid ?d) (Requested Msg t)) # calls"
  have "\<forall>x \<in> set ?ev. connection_event x" unfolding set_simps calls by auto
  from handle_connection_events [OF this ok] obtain s' e where
    run: "handle_events (\<lambda>_. False) ?ev ?new = Inr (s', e)" "localSubscriptions s' = localSubscriptions ?new"
    and e: "\<forall>b. DisconnectSub b \<notin> set e \<and> RemoveFilter b \<notin> set e"
      "\<forall>b. HasAddress b (connections s') \<longrightarrow> HasAddress b (connections ?new) \<or> ConnectSub b \<in> set e"
    and joins: "\<forall>t a c p n sc. Call ConnectionCb t a c p n sc \<in> set ?ev \<and>
      HasHandlersForTopic t (localSubscriptions ?new) \<and> p \<noteq> ns_pUuid ?new \<longrightarrow> joined t a ?new c e"
    by blast
  have with_d: "with_discovery (\<lambda>_. False) (\<lambda>d. rbind (Discover t False d) (\<lambda>e. Inr (d, e))) ?new = Inr (s', e)"
    using run(1) by (simp add: with_discovery_def disc)
  let ?nd = "ndq\<lparr>topicsSubscribed := set_insert t (topicsSubscribed ndq)\<rparr>"
  have "Node_Subscribe (\<lambda>_. False) topic hu create True ndq ?s = Inr (?nd, s', e, True)"
    unfolding Node_Subscribe_filed [OF q(3)] v h_def [symmetric] by (simp only: with_d) simp
  then have "node_step (\<lambda>_. False) (OpSubscribe topic hu create True) ndq ?s = Inr (?nd, s', e)"
    by (simp add: without_result_def)
  moreover have "op_fits q (OpSubscribe topic hu create True) ndq ?s" using tr q(3) by (simp add: op_fits_def)
  ultimately have step: "sys_step host to_ms deliverable S (log_op q (OpSubscribe topic hu create True) ndq ?s
      (evolve q (Some \<lparr>shared = s', nodes = (nodes mq)(v \<mapsto> ?nd)\<rparr>) e S))"
    using q(1,2) by (intro sys_step.node)
  have "AddFilter t \<in> set e \<and> (ConnectSub (addr i) \<in> set e \<or> HasAddress (addr i) (connections ?s)) \<and>
      ControlFrames (ctrl i) [t, q, v, to_string NewConnection] \<in> set e"
    if i: "i \<in> set (records Msg ?d t p)" "p \<noteq> q" for p i
  proof -
    have "Call ConnectionCb t (addr i) (ctrl i) p (nUuid i) (scope i) \<in> set ?ev"
      using i(1) process_okD(3) [OF m(2)] unfolding set_simps calls by blast
    moreover have "p \<noteq> ns_pUuid ?new" using i(2) m(3) by simp
    ultimately have "joined t (addr i) ?new (ctrl i) e" using joins has by blast
    then show ?thesis using in_h h(2) m(3) by (auto simp: joined_def)
  qed
  moreover have "disc s' = ?d" using with_discovery_disc [OF with_d] by (auto simp: disc)
  ultimately show ?thesis
    using step run(2) got e by (intro exI [of _ s'] exI [of _ e] exI [of _ ?nd]) auto
qed

subsection \<open>From the subscription to the callback\<close>

lemma transmittable_own:
  assumes "sys_reachable host to_ms deliverable S" and "members S p = Some m"
    and "i \<in> set (records k (disc (shared m)) t p)"
  shows "transmittable p (own_dmsg k t i)"
  using member_net(2,4) [OF assms(1,2)] assms(3) by (auto simp: own_transmittable_def)

lemma reachable_step:
  "sys_reachable host to_ms deliverable S \<Longrightarrow> sys_step host to_ms deliverable S S' \<Longrightarrow>
     sys_reachable host to_ms deliverable S'"
  unfolding sys_reachable_def by (rule rtranclp.rtrancl_into_rtrancl)

text \<open>The case in which the subscriber has not heard of the publisher yet.\<close>

lemma unknown_publisher:
  fixes S :: "'m system" and msg :: 'm and serialize :: "'m \<Rightarrow> string"
  assumes reach: "sys_reachable host to_ms deliverable S" and hands: "hands_over deliverable" and "p \<noteq> q"
    and p: "members S p = Some mp" "nodes mp u = Some nd" "fqn nd topic = Some t" "t \<in> set (topicsAdvertised nd)"
    and rec: "i \<in> set (records Msg (disc (shared mp)) t p)" "visible host q p i"
    and q: "members S q = Some mq" "GetHandler t n hu (localSubscriptions (shared mq)) = Some h" "sh_cb h"
    and new: "\<not> known Msg (disc (shared mq)) t p i"
    and sock: "HasAddress (addr i) (connections (shared mq)) \<Longrightarrow> sock_connected (addr i) (hist S q)"
  shows "\<exists>S' e. (sys_step host to_ms deliverable)\<^sup>*\<^sup>* S S' \<and> hist S' q = hist S q @ e \<and>
    UserCall (SubCall hu (strip_partition t) (sh_CreateMsg h (serialize msg))) \<in> set e \<and>
    (\<exists>m. members S' p = Some m \<and> vec (remoteSubscribers (shared m)) t q \<noteq> [])"
proof -
  obtain e1 where 1: "sys_step host to_ms deliverable S (evolve p (Some mp) e1 S)"
    and wire: "Datagram (dmsg_wire p (own_dmsg Msg t i)) \<in> set e1"
    using heartbeat_sends [OF reach p(1) rec(1)] by blast
  let ?S1 = "evolve p (Some mp) e1 S"
  note reach1 = reachable_step [OF reach 1]
  have hs: "handlers_ok (localSubscriptions (shared mq))"
    using process_okD(7) [OF member_invD(2) [OF sys_invD(1) [OF sys_inv_reachable [OF reach] q(1)]]]
    by (simp add: subscriptions_ok_def)
  have has: "HasHandlersForTopic t (localSubscriptions (shared mq))"
    using q(2) hs unfolding HasHandlersForTopic_iff [OF hs] GetHandler_at by auto
  have in_h: "h \<in> set (handlers_of t (localSubscriptions (shared mq)))"
    using q(2) unfolding set_handlers_of [OF hs] by blast
  have q1: "members ?S1 q = Some mq" and sent1: "Datagram (dmsg_wire p (own_dmsg Msg t i)) \<in> set (hist ?S1 p)"
    using q(1) \<open>p \<noteq> q\<close> wire by simp_all
  obtain s' e where 2: "sys_step host to_ms deliverable ?S1 (evolve q (Some (mq\<lparr>shared := s'\<rparr>)) e ?S1)"
    and s': "localSubscriptions s' = localSubscriptions (shared mq)"
    and j: "joined t (addr i) (shared mq) (ctrl i) e" "\<And>b. DisconnectSub b \<notin> set e \<and> RemoveFilter b \<notin> set e"
    using advertisement_connects [OF reach1 \<open>p \<noteq> q\<close> q1 has sent1 transmittable_own [OF reach p(1) rec(1)] rec(2) new]
    by blast
  let ?S2 = "evolve q (Some (mq\<lparr>shared := s'\<rparr>)) e ?S1"
  note inv2 = sys_inv_reachable [OF reachable_step [OF reach1 2]]
  have home: "addr i = myAddress (shared mp)" "ctrl i = myControlAddress (shared mp)"
    using record_home [OF reach p(1) p(1) rec(1)] by simp_all
  have uuid: "ns_pUuid (shared mq) = q"
    using member_invD(3) [OF sys_invD(1) [OF sys_inv_reachable [OF reach] q(1)]] .
  have hist2: "hist ?S2 q = hist S q @ e" using \<open>p \<noteq> q\<close> by simp
  have "\<exists>S' e'. (sys_step host to_ms deliverable)\<^sup>*\<^sup>* ?S2 S' \<and> hist S' q = hist ?S2 q @ e' \<and>
      UserCall (SubCall hu (strip_partition t) (sh_CreateMsg h (serialize msg))) \<in> set e' \<and>
      (\<exists>m. members S' p = Some m \<and> vec (remoteSubscribers (shared m)) t q \<noteq> [])"
  proof (rule published_arrives [OF inv2 hands \<open>p \<noteq> q\<close>])
    show "members ?S2 p = Some mp" "members ?S2 q = Some (mq\<lparr>shared := s'\<rparr>)" using \<open>p \<noteq> q\<close> by simp_all
    show "GetHandler t n hu (localSubscriptions (shared (mq\<lparr>shared := s'\<rparr>))) = Some h" using q(2) s' by simp
    show "ControlFrames (myControlAddress (shared mp)) [t, q, sh_nUuid h, to_string NewConnection] \<in> set (hist ?S2 q)"
      using j(1) in_h uuid unfolding hist2 home(2) [symmetric] by (auto simp: joined_def)
    show "sock_connected (myAddress (shared mp)) (hist ?S2 q)" "sock_filtered t (hist ?S2 q)"
      unfolding hist2 home(1) [symmetric] using joined_sockets [OF j sock] by blast+
  qed (rule p(2-4) q(3))+
  then obtain S' e' where "(sys_step host to_ms deliverable)\<^sup>*\<^sup>* ?S2 S'" "hist S' q = hist S q @ e @ e'"
    "UserCall (SubCall hu (strip_partition t) (sh_CreateMsg h (serialize msg))) \<in> set e'"
    "\<exists>m. members S' p = Some m \<and> vec (remoteSubscribers (shared m)) t q \<noteq> []"
    unfolding hist2 by auto
  then show ?thesis
    using 1 2 by (intro exI [of _ S'] exI [of _ "e @ e'"])
      (auto intro: converse_rtranclp_into_rtranclp)
qed

text \<open>Both cases, from the subscription on.\<close>

lemma subscription_delivers:
  fixes S :: "'m system" and msg :: 'm and serialize :: "'m \<Rightarrow> string" and create :: "string \<Rightarrow> 'm"
  assumes reach: "sys_reachable host to_ms deliverable S" and hands: "hands_over deliverable" and "p \<noteq> q"
    and p: "members S p = Some mp" "nodes mp u = Some nd" "fqn nd topic = Some t" "t \<in> set (topicsAdvertised nd)"
    and rec: "i \<in> set (records Msg (disc (shared mp)) t p)" "visible host q p i"
    and q: "members S q = Some mq" "nodes mq v = Some ndq" "fqn ndq topic' = Some t"
    and tr: "transmittable q (Requested Msg t)"
    and fresh: "GetHandler t v hu (localSubscriptions (shared mq)) = None"
    and sock: "HasAddress (addr i) (connections (shared mq)) \<Longrightarrow> sock_connected (addr i) (hist S q)"
  shows "\<exists>S1 S' e. sys_step host to_ms deliverable S S1 \<and>
    journal S1 = enter q (OpSubscribe topic' hu create True) ndq (shared mq) (journal S) \<and>
    (sys_step host to_ms deliverable)\<^sup>*\<^sup>* S1 S' \<and> hist S' q = hist S q @ e \<and>
    UserCall (SubCall hu (strip_partition t) (create (serialize msg))) \<in> set e \<and>
    (\<exists>m. members S' p = Some m \<and> vec (remoteSubscribers (shared m)) t q \<noteq> [])"
proof -
  define h where "h = sub_SetCallback True (SubscriptionHandler_ctor hu v create)"
  have h: "sh_cb h" "sh_CreateMsg h = create"
    by (simp_all add: h_def sub_SetCallback_def SubscriptionHandler_ctor_def)
  obtain s' e ndq' where step: "sys_step host to_ms deliverable S
      (log_op q (OpSubscribe topic' hu create True) ndq (shared mq)
        (evolve q (Some \<lparr>shared = s', nodes = (nodes mq)(v \<mapsto> ndq')\<rparr>) e S))"
    and s': "GetHandler t v hu (localSubscriptions s') = Some h" "disc s' = disc (shared mq)"
    and e: "\<And>b. DisconnectSub b \<notin> set e \<and> RemoveFilter b \<notin> set e"
      "\<And>b. HasAddress b (connections s') \<Longrightarrow> HasAddress b (connections (shared mq)) \<or> ConnectSub b \<in> set e"
    and joins: "\<And>p i. i \<in> set (records Msg (disc (shared mq)) t p) \<Longrightarrow> p \<noteq> q \<Longrightarrow>
      AddFilter t \<in> set e \<and> (ConnectSub (addr i) \<in> set e \<or> HasAddress (addr i) (connections (shared mq))) \<and>
      ControlFrames (ctrl i) [t, q, v, to_string NewConnection] \<in> set e"
    using subscription_connects [OF reach q tr fresh h_def] by blast
  define mq' where "mq' = \<lparr>shared = s', nodes = (nodes mq)(v \<mapsto> ndq')\<rparr>"
  define S1 where "S1 = log_op q (OpSubscribe topic' hu create True) ndq (shared mq) (evolve q (Some mq') e S)"
  have 1: "sys_step host to_ms deliverable S S1" using step by (simp add: S1_def mq'_def)
  have S1: "members S1 p = Some mp" "members S1 q = Some mq'" "hist S1 q = hist S q @ e"
    "journal S1 = enter q (OpSubscribe topic' hu create True) ndq (shared mq) (journal S)"
    using p(1) \<open>p \<noteq> q\<close> by (simp_all add: S1_def)
  have got: "GetHandler t v hu (localSubscriptions (shared mq')) = Some h" using s' by (simp add: mq'_def)
  note reach1 = reachable_step [OF reach 1]
  have sock1: "sock_connected (addr i) (hist S1 q)"
    if "ConnectSub (addr i) \<in> set e \<or> HasAddress (addr i) (connections (shared mq))"
    using that sock sock_connected_in [of "addr i" e] e(1) by (auto simp: S1(3) sock_connected_append)
  have home: "addr i = myAddress (shared mp)" "ctrl i = myControlAddress (shared mp)"
    using record_home [OF reach p(1) p(1) rec(1)] by simp_all
  have "\<exists>S' e'. (sys_step host to_ms deliverable)\<^sup>*\<^sup>* S1 S' \<and> hist S' q = hist S1 q @ e' \<and>
    UserCall (SubCall hu (strip_partition t) (sh_CreateMsg h (serialize msg))) \<in> set e' \<and>
    (\<exists>m. members S' p = Some m \<and> vec (remoteSubscribers (shared m)) t q \<noteq> [])"
  proof (cases "known Msg (disc (shared mq)) t p i")
    case False
    show ?thesis
    proof (rule unknown_publisher [OF reach1 hands \<open>p \<noteq> q\<close> S1(1) p(2-4) rec S1(2) got h(1)])
      show "\<not> known Msg (disc (shared mq')) t p i" using False s'(2) by (simp add: mq'_def)
      show "sock_connected (addr i) (hist S1 q)" if "HasAddress (addr i) (connections (shared mq'))"
        using that e(2) by (intro sock1) (auto simp: mq'_def)
    qed
  next
    case True
    then obtain k where k: "k \<in> set (records Msg (disc (shared mq)) t p)" by (auto simp: duplicate_def)
    have "addr k = addr i" "ctrl k = ctrl i"
      using record_home [OF reach q(1) p(1) k] home by simp_all
    then have c: "AddFilter t \<in> set e" "ControlFrames (ctrl i) [t, q, v, to_string NewConnection] \<in> set e"
      and a: "ConnectSub (addr i) \<in> set e \<or> HasAddress (addr i) (connections (shared mq))"
      using joins [OF k \<open>p \<noteq> q\<close>] by simp_all
    have "sock_filtered t (hist S1 q)" using c(1) e(1) sock_filtered_in [of t e] by (simp add: S1(3))
    moreover have "ControlFrames (myControlAddress (shared mp)) [t, q, v, to_string NewConnection] \<in> set (hist S1 q)"
      using c(2) by (simp add: S1(3) home)
    ultimately show ?thesis
      using published_arrives [OF sys_inv_reachable [OF reach1] hands \<open>p \<noteq> q\<close> S1(1) p(2-4) S1(2) got h(1)]
        sock1 [OF a] home by simp
  qed
  then obtain S' e' where "(sys_step host to_ms deliverable)\<^sup>*\<^sup>* S1 S'" "hist S' q = hist S q @ e @ e'"
    "UserCall (SubCall hu (strip_partition t) (create (serialize msg))) \<in> set e'"
    "\<exists>m. members S' p = Some m \<and> vec (remoteSubscribers (shared m)) t q \<noteq> []"
    by (auto simp: h S1(3))
  then show ?thesis using 1 S1(4) by (intro exI [of _ S1] exI [of _ S'] exI [of _ "e @ e'"]) simp
qed

subsection \<open>Service calls\<close>

text \<open>The record of a service that nobody else offers is the only entry, once it has arrived.\<close>

lemma only_provider:
  assumes "discovery_ok d" and "\<And>q. records Srv d t q = (if q = p then [i] else [])"
  shows "GetSrvAddresses t d = Some [(p, [i])]"
proof -
  have st: "storage_ok (infoSrv d)" using discovery_okD(1) [OF assms(1), of Srv] by simp
  have vec: "vec (infoSrv d) t q = (if q = p then [i] else [])" for q
    using assms(2) [of q] by (simp add: records_def)
  obtain m where m: "map_of (infoSrv d) t = Some m"
    using vec [of p] by (auto simp: vec_def split: option.splits)
  have entries: "map_of m q = (if q = p then Some [i] else None)" for q
    by (simp add: lookup_proc_iff [OF st m] vec)
  have map: "map_ok m" using storage_okD [OF st m] by (simp add: procs_ok_def)
  have "set m = {(p, [i])}" (is "_ = {?x}")
    using map_ok_in_set_iff [OF map] entries by (auto split: if_splits)
  moreover have "distinct (map fst m)" using map by (rule map_ok_distinct)
  then have "distinct m" by (simp add: distinct_map)
  ultimately have "length m = 1" using distinct_card [of m] by simp
  then obtain x where "m = [x]" by (auto simp: length_Suc_conv)
  then have "m = [?x]" using \<open>set m = {?x}\<close> by simp
  then show ?thesis using m by (simp add: GetSrvAddresses_def GetAddresses_eq)
qed

text \<open>The first provider on record has an address.\<close>

lemma first_provider:
  assumes "discovery_ok d" and "GetSrvAddresses t d = Some m"
  obtains r j js rest where "m = (r, j # js) # rest"
proof -
  have st: "storage_ok (infoSrv d)" using discovery_okD(1) [OF assms(1), of Srv] by simp
  have m: "map_of (infoSrv d) t = Some m" using assms(2) by (simp add: GetSrvAddresses_def GetAddresses_eq)
  have p: "procs_ok m" by (rule storage_okD [OF st m])
  then obtain r v rest where e: "m = (r, v) # rest" by (cases m) (auto simp: procs_ok_def)
  then have "v \<noteq> []" using procs_okD [OF p, of r v] by simp
  then show ?thesis using e that by (cases v) auto
qed

text \<open>A request without a provider in the same process: one step of the system, in which it is filed.\<close>

lemma request_step:
  assumes reach: "sys_reachable host to_ms deliverable S"
    and q: "members S q = Some mq" "nodes mq v = Some ndq" "fqn ndq topic = Some t"
    and local: "GetHandler_first t (repliers (shared mq)) = Inr None"
    and tr: "transmittable q (Requested Srv t)"
    and h: "h = req_SetCallback True (req_SetMessage msg (ReqHandler_ctor hu v create serialize new))"
    and filing: "file_request (\<lambda>_. False) t h ndq (shared mq) = Inr (s', e)"
  shows "sys_step host to_ms deliverable S
    (log_op q (OpRequest topic msg hu create serialize new True rep0 res0) ndq (shared mq)
      (evolve q (Some (mq\<lparr>shared := s'\<rparr>)) e S))"
proof -
  let ?s = "shared mq"
  have v: "nd_nUuid ndq = v" using member_invD(5) [OF sys_invD(1) [OF sys_inv_reachable [OF reach] q(1)] q(2)] .
  have "Node_Request (\<lambda>_. False) topic msg hu create serialize new True rep0 res0 ndq ?s = Inr (ndq, s', e, True)"
    using filing by (simp add: Node_Request_def q(3) local h v)
  then have step: "node_step (\<lambda>_. False) (OpRequest topic msg hu create serialize new True rep0 res0) ndq ?s =
      Inr (ndq, s', e)"
    by (simp add: without_result_def)
  have "op_fits q (OpRequest topic msg hu create serialize new True rep0 res0) ndq ?s"
    using tr q(3) by (simp add: op_fits_def)
  from sys_step.node [OF q(1,2) this step]
  have "sys_step host to_ms deliverable S
      (log_op q (OpRequest topic msg hu create serialize new True rep0 res0) ndq ?s
        (evolve q (Some \<lparr>shared = s', nodes = (nodes mq)(v \<mapsto> ndq)\<rparr>) e S))" .
  moreover have "\<lparr>shared = s', nodes = (nodes mq)(v \<mapsto> ndq)\<rparr> = mq\<lparr>shared := s'\<rparr>"
    using q(2) by (cases mq) (simp add: fun_upd_idem)
  ultimately show ?thesis by simp
qed

text \<open>The request is filed, and the client asks for providers.\<close>

lemma request_asks:
  assumes reach: "sys_reachable host to_ms deliverable S"
    and q: "members S q = Some mq" "nodes mq v = Some ndq" "fqn ndq topic = Some t"
    and local: "GetHandler_first t (repliers (shared mq)) = Inr None"
    and none: "GetSrvAddresses t (disc (shared mq)) = None"
    and tr: "transmittable q (Requested Srv t)"
    and fresh: "GetHandler t v hu (requests (shared mq)) = None"
    and h: "h = req_SetCallback True (req_SetMessage msg (ReqHandler_ctor hu v create serialize new))"
    and s': "s' = (shared mq)\<lparr>heap := heap (shared mq) @ [h], requests :=
      AddHandler (\<lambda>r. rq_hUuid ((heap (shared mq) @ [h]) ! r)) t v (length (heap (shared mq))) (requests (shared mq))\<rparr>"
  shows "\<exists>e. sys_step host to_ms deliverable S
      (log_op q (OpRequest topic msg hu create serialize new True rep0 res0) ndq (shared mq)
        (evolve q (Some (mq\<lparr>shared := s'\<rparr>)) e S))"
    and "GetHandler t v hu (requests s') = Some (length (heap (shared mq)))"
    and "heap s' ! length (heap (shared mq)) = h"
proof -
  let ?s = "shared mq" let ?d = "disc (shared mq)"
  note m = member_invD [OF sys_invD(1) [OF sys_inv_reachable [OF reach] q(1)]]
  have v: "nd_nUuid ndq = v" using m(5) [OF q(2)] .
  have ids: "rq_hUuid h = hu"
    by (simp add: h req_SetCallback_def req_SetMessage_def ReqHandler_ctor_def)
  show "GetHandler t v hu (requests s') = Some (length (heap ?s))"
    using process_okD(9) [OF m(2)] fresh by (simp add: s' requests_ok_def GetHandler_at hs.at_add ids)
  show "heap s' ! length (heap ?s) = h" by (simp add: s')
  have sendable: "sendable (pUuid ?d) (Requested (if True then Srv else Msg) t)"
    using tr member_net(2) [OF reach q(1)] by (simp add: transmittable_def)
  have "records Srv ?d t p = []" for p
    using none by (simp add: GetSrvAddresses_def GetAddresses_eq records_def vec_def)
  then obtain b where "Discover t True ?d = Inr [Send b]"
    using Discover_eq [OF member_net(1) [OF reach q(1)] sendable] by auto
  then have with_d: "with_discovery (\<lambda>_. False) (\<lambda>d. rbind (Discover t True d) (\<lambda>e. Inr (d, e))) s' =
      Inr (s', [Datagram b])"
    by (simp add: with_discovery_def s')
  have "file_request (\<lambda>_. False) t h ndq ?s = Inr (s', [Datagram b])"
    unfolding file_request_def Let_def v s' [symmetric] using with_d none by (simp add: s')
  from request_step [OF reach q local tr h this, of rep0 res0]
  show "\<exists>e. sys_step host to_ms deliverable S
      (log_op q (OpRequest topic msg hu create serialize new True rep0 res0) ndq ?s
        (evolve q (Some (mq\<lparr>shared := s'\<rparr>)) e S))" by blast
qed

text \<open>With a provider on record the request is filed and sent at once, to the first one.\<close>

lemma request_sends:
  assumes reach: "sys_reachable host to_ms deliverable S"
    and q: "members S q = Some mq" "nodes mq v = Some ndq" "fqn ndq topic = Some t"
    and local: "GetHandler_first t (repliers (shared mq)) = Inr None"
    and some: "GetSrvAddresses t (disc (shared mq)) = Some ((p, j # js) # rest)"
    and tr: "transmittable q (Requested Srv t)"
    and fresh: "GetHandler t v hu (requests (shared mq)) = None"
    and h: "h = req_SetCallback True (req_SetMessage msg (ReqHandler_ctor hu v create serialize new))"
  shows "\<exists>s' e r. sys_step host to_ms deliverable S
      (log_op q (OpRequest topic msg hu create serialize new True rep0 res0) ndq (shared mq)
        (evolve q (Some (mq\<lparr>shared := s'\<rparr>)) e S)) \<and>
    GetHandler t v hu (requests s') = Some r \<and> same_request h (heap s' ! r) \<and>
    responseReceiverId s' = responseReceiverId (shared mq) \<and>
    RequestFrames [ctrl j, t, myRequesterAddress (shared mq), responseReceiverId (shared mq), v, hu,
      req_Serialize h] \<in> set e"
proof -
  let ?s = "shared mq" let ?r = "length (heap ?s)"
  note m = member_invD [OF sys_invD(1) [OF sys_inv_reachable [OF reach] q(1)]]
  have v: "nd_nUuid ndq = v" using m(5) [OF q(2)] .
  have ids: "rq_hUuid h = hu" "rq_nUuid h = v" "\<not> rq_requested h"
    by (simp_all add: h req_SetCallback_def req_SetMessage_def ReqHandler_ctor_def)
  let ?s1 = "?s\<lparr>heap := heap ?s @ [h], requests :=
    AddHandler (\<lambda>r. rq_hUuid ((heap ?s @ [h]) ! r)) t v ?r (requests ?s)\<rparr>"
  let ?rs = "handlers_of t (requests ?s1)"
  have ok: "requests_ok ?s" using process_okD(9) [OF m(2)] .
  have ok1: "requests_ok ?s1" by (rule requests_ok_file [where n = v]) (simp_all add: ok ids)
  have filed: "GetHandler t v hu (requests ?s1) = Some ?r"
    using ok fresh by (simp add: requests_ok_def GetHandler_at hs.at_add ids)
  then have in_rs: "?r \<in> set ?rs" using ok1 set_handlers_of [of "requests ?s1" t] by (auto simp: requests_ok_def)
  let ?e = "map (\<lambda>r. request_frames t (ctrl j) ?s1 (heap ?s1 ! r)) (filter (\<lambda>r. \<not> rq_requested (heap ?s1 ! r)) ?rs)"
  have "SendPendingRemoteReqs (\<lambda>_. False) t ?s1 = Inr (?s1\<lparr>heap := mark ?rs (heap ?s1)\<rparr>, ?e)"
    using SendPending_eq [OF ok1, of t p j js rest "\<lambda>_. False"] some by simp
  then have "file_request (\<lambda>_. False) t h ndq ?s = Inr (?s1\<lparr>heap := mark ?rs (heap ?s1)\<rparr>, ?e)"
    using some by (simp add: file_request_def Let_def v)
  note step = request_step [OF reach q local tr h this, of rep0 res0]
  have frame: "request_frames t (ctrl j) ?s1 (heap ?s1 ! ?r) \<in> set ?e"
    using in_rs ids(3) unfolding set_map set_filter by (intro imageI) simp
  have "request_frames t (ctrl j) ?s1 (heap ?s1 ! ?r) =
      RequestFrames [ctrl j, t, myRequesterAddress ?s, responseReceiverId ?s, v, hu, req_Serialize h]"
    by (simp add: request_frames_def ids)
  moreover have "same_request h (mark ?rs (heap ?s1) ! ?r)" using in_rs by (simp add: mark_nth)
  ultimately show ?thesis
    using step filed frame by (intro exI [of _ "?s1\<lparr>heap := mark ?rs (heap ?s1)\<rparr>"] exI [of _ ?e] exI [of _ ?r]) simp
qed

text \<open>The provider is found, and the request is sent.\<close>

lemma provider_found:
  assumes reach: "sys_reachable host to_ms deliverable S" and "p \<noteq> q"
    and q: "members S q = Some mq" and none: "GetSrvAddresses t (disc (shared mq)) = None"
    and sent: "Datagram (dmsg_wire p (own_dmsg Srv t i)) \<in> set (hist S p)"
    and tr: "transmittable p (own_dmsg Srv t i)" and vis: "visible host q p i"
    and r: "GetHandler t v hu (requests (shared mq)) = Some r" "\<not> rq_requested (heap (shared mq) ! r)"
  shows "\<exists>s' e. sys_step host to_ms deliverable S (evolve q (Some (mq\<lparr>shared := s'\<rparr>)) e S) \<and>
    GetHandler t v hu (requests s') = Some r \<and> same_request (heap (shared mq) ! r) (heap s' ! r) \<and>
    responseReceiverId s' = responseReceiverId (shared mq) \<and>
    RequestFrames [ctrl i, t, myRequesterAddress (shared mq), responseReceiverId (shared mq), v, hu,
      req_Serialize (heap (shared mq) ! r)] \<in> set e"
proof -
  let ?s = "shared mq" let ?d = "disc (shared mq)"
  let ?x = "Call ConnectionSrvCb t (addr i) (ctrl i) p (nUuid i) (scope i)"
  note m = member_invD [OF sys_invD(1) [OF sys_inv_reachable [OF reach] q]]
  note d = member_net(1-3) [OF reach q]
  have empty: "records Srv ?d t p = []" for p
    using none by (simp add: GetSrvAddresses_def GetAddresses_eq records_def vec_def)
  have "\<not> hidden (host p) (scope i) ?d" "\<not> duplicate Srv ?d t p (addr i) (nUuid i)"
    using vis d(3) empty by (auto simp: visible_def hidden_def duplicate_def)
  then obtain d' where del: "deliver 0 (host p) p (own_dmsg Srv t i) ?d = Inr (d', notify ConnectionSrvCb ?d t (addr i) (ctrl i) p (nUuid i) (scope i))"
    and rec: "\<And>k' t' q. records k' d' t' q =
      (if k' = Srv \<and> t' = t \<and> q = p then records Srv ?d t p @ [i] else records k' ?d t' q)"
    using deliver_advertised [OF d(1), of p 0 "host p" Srv t "addr i" "ctrl i" "nUuid i" "scope i"]
      d(2) \<open>p \<noteq> q\<close> by (auto simp: own_dmsg_def)
  have recv: "RecvDiscoveryUpdate 0 [] (Some (host p, dmsg_wire p (own_dmsg Srv t i))) ?d = Inr (d', [?x])"
    using del process_okD(3) [OF m(2), of ConnectionSrvCb] by (simp add: receive_deliver [OF tr] notify_def)
  have step: "discovery_step to_ms (DoReceive 0 [] (Some (host p, dmsg_wire p (own_dmsg Srv t i)))) ?d = Inr (d', [?x])"
    using recv by simp
  have found: "GetSrvAddresses t d' = Some [(p, [i])]"
    using discovery_ok_step [OF d(1) step] by (rule only_provider) (simp add: rec empty)
  let ?c = "addr i \<notin> set (srvConnections ?s)"
  let ?s1 = "?s\<lparr>disc := d', srvConnections := srvConnections ?s @ (if ?c then [addr i] else [])\<rparr>"
  let ?rs = "handlers_of t (requests ?s)"
  have reqs: "requests_ok ?s1" using process_okD(9) [OF m(2)] by (simp add: requests_ok_def)
  have pending: "SendPendingRemoteReqs (\<lambda>_. False) t ?s1 = Inr (?s1\<lparr>heap := mark ?rs (heap ?s)\<rparr>,
      map (\<lambda>r. request_frames t (ctrl i) ?s1 (heap ?s ! r)) (filter (\<lambda>r. \<not> rq_requested (heap ?s ! r)) ?rs))"
    using SendPending_eq [OF reqs, of t p i "[]" "[]" "\<lambda>_. False"] found by simp
  let ?e = "(if ?c then [ConnectReq (addr i)] else []) @
      map (\<lambda>r. request_frames t (ctrl i) ?s1 (heap ?s ! r)) (filter (\<lambda>r. \<not> rq_requested (heap ?s ! r)) ?rs)"
  have "OnNewSrvConnection (\<lambda>_. False) t (addr i) (?s\<lparr>disc := d'\<rparr>) = Inr (?s1\<lparr>heap := mark ?rs (heap ?s)\<rparr>, ?e)"
    using pending by (cases ?c) (simp_all add: OnNewSrvConnection_def Let_def)
  then have run: "with_discovery (\<lambda>_. False)
      (RecvDiscoveryUpdate 0 [] (Some (host p, dmsg_wire p (own_dmsg Srv t i)))) ?s =
      Inr (?s1\<lparr>heap := mark ?rs (heap ?s)\<rparr>, ?e)"
    by (simp add: with_discovery_def recv)
  have hs: "handlers_ok (requests ?s)" using process_okD(9) [OF m(2)] by (simp add: requests_ok_def)
  have ids: "r < length (heap ?s)" "rq_nUuid (heap ?s ! r) = v" "rq_hUuid (heap ?s ! r) = hu"
    using r(1) process_okD(9) [OF m(2)] by (auto simp: requests_ok_def)
  have in_rs: "r \<in> set ?rs" using r(1) unfolding set_handlers_of [OF hs] by blast
  have "request_frames t (ctrl i) ?s1 (heap ?s ! r) \<in> set ?e" using in_rs r(2) by auto
  then have "RequestFrames [ctrl i, t, myRequesterAddress ?s, responseReceiverId ?s, v, hu,
      req_Serialize (heap ?s ! r)] \<in> set ?e"
    by (simp add: request_frames_def ids)
  moreover have "same_request (heap ?s ! r) (mark ?rs (heap ?s) ! r)" by (simp add: mark_nth [OF ids(1)])
  ultimately show ?thesis
    using sys_step.datagram [where host = host, OF q sent run] r(1)
    by (intro exI [of _ "?s1\<lparr>heap := mark ?rs (heap ?s)\<rparr>"] exI [of _ ?e]) simp
qed

text \<open>The provider answers, and the client takes the answer.\<close>

lemma RecvSrvRequest_replies:
  assumes "GetHandler_first t (repliers s) = Inr (Some rh)" and "rep_RunCallback t req '''' result0 rh = (out, res)"
  shows "\<exists>s' e. RecvSrvRequest (\<lambda>_. False) result0 (Some (t, sender, dst, n, u, req)) s = Inr (s', e) \<and>
    ReplyFrames [dst, t, n, u, out, if res then ''1'' else ''0''] \<in> set e"
  using assms by (simp add: RecvSrvRequest_def Let_def)

lemma request_served:
  assumes inv: "sys_inv S" and "p \<noteq> q"
    and p: "members S p = Some mp" "GetHandler_first t (repliers (shared mp)) = Inr (Some rh)"
    and run: "rep_RunCallback t (req_Serialize h) '''' result0 rh = (out, res)"
    and q: "members S q = Some mq" "GetHandler t v hu (requests (shared mq)) = Some r"
      "same_request h (heap (shared mq) ! r)" "rq_cb h"
    and sent: "RequestFrames [replierId (shared mp), t, sender, responseReceiverId (shared mq), v, hu,
      req_Serialize h] \<in> set (hist S q)"
  shows "\<exists>S'. (sys_step host to_ms deliverable)\<^sup>*\<^sup>* S S' \<and>
    hist S' q = hist S q @ [UserCall (ReqCall hu (strip_partition t) (rq_CreateMsg h out) res)]"
proof -
  note mq = member_invD [OF sys_invD(1) [OF inv q(1)]]
  let ?reply = "ReplyFrames [responseReceiverId (shared mq), t, v, hu, out, if res then ''1'' else ''0'']"
  obtain s1 e1 where 1: "RecvSrvRequest (\<lambda>_. False) result0
      (Some (t, sender, responseReceiverId (shared mq), v, hu, req_Serialize h)) (shared mp) = Inr (s1, e1)"
    and reply: "?reply \<in> set e1"
    using RecvSrvRequest_replies [OF p(2) run] by blast
  let ?S1 = "evolve p (Some (mp\<lparr>shared := s1\<rparr>)) e1 S"
  have step1: "sys_step host to_ms deliverable S ?S1" by (rule sys_step.request [OF p(1) sent 1])
  have ids: "rq_hUuid (heap (shared mq) ! r) = hu"
    using q(2) process_okD(9) [OF mq(2)] by (auto simp: requests_ok_def)
  obtain s2 where 2: "RecvSrvResponse (Some (t, v, hu, out, if res then ''1'' else ''0'')) (shared mq) =
      (s2, [UserCall (ReqCall hu (strip_partition t) (rq_CreateMsg h out) res)])"
    using q(3,4) ids unfolding RecvSrvResponse_eq [OF q(2)] by (auto simp: NotifyResult_def same_request_def)
  have "members ?S1 q = Some mq" "?reply \<in> set (hist ?S1 p)" using q(1) \<open>p \<noteq> q\<close> reply by simp_all
  from step1 sys_step.response [OF this 2]
  have "(sys_step host to_ms deliverable)\<^sup>*\<^sup>* S
      (evolve q (Some (mq\<lparr>shared := s2\<rparr>)) [UserCall (ReqCall hu (strip_partition t) (rq_CreateMsg h out) res)] ?S1)"
    by (meson converse_rtranclp_into_rtranclp r_into_rtranclp)
  then show ?thesis using \<open>p \<noteq> q\<close> by (intro exI conjI) auto
qed

lemma request_answers:
  fixes S :: "'m system" and msg new rep0 :: 'm
  assumes reach: "sys_reachable host to_ms deliverable S" and "p \<noteq> q"
    and p: "members S p = Some mp" "GetHandler_first t (repliers (shared mp)) = Inr (Some rh)"
    and rec: "i \<in> set (records Srv (disc (shared mp)) t p)" "visible host q p i"
    and run: "rep_RunCallback t (serialize msg) '''' result0 rh = (out, res)"
    and q: "members S q = Some mq" "nodes mq v = Some ndq" "fqn ndq topic = Some t"
    and local: "GetHandler_first t (repliers (shared mq)) = Inr None"
    and none: "GetSrvAddresses t (disc (shared mq)) = None"
    and tr: "transmittable q (Requested Srv t)"
    and fresh: "GetHandler t v hu (requests (shared mq)) = None"
  shows "\<exists>S1 S' e. sys_step host to_ms deliverable S S1 \<and>
    journal S1 = enter q (OpRequest topic msg hu create serialize new True rep0 res0) ndq (shared mq) (journal S) \<and>
    (sys_step host to_ms deliverable)\<^sup>*\<^sup>* S1 S' \<and> hist S' q = hist S q @ e \<and>
    UserCall (ReqCall hu (strip_partition t) (create out) res) \<in> set e \<and> (\<exists>l. RequestFrames (ctrl i # l) \<in> set e)"
proof -
  define h where "h = req_SetCallback True (req_SetMessage msg (ReqHandler_ctor hu v create serialize new))"
  have h: "rq_cb h" "\<not> rq_requested h" "req_Serialize h = serialize msg" "rq_CreateMsg h = create"
    by (simp_all add: h_def req_SetCallback_def req_SetMessage_def ReqHandler_ctor_def req_Serialize_def)
  let ?r = "length (heap (shared mq))"
  define s1 where "s1 = (shared mq)\<lparr>heap := heap (shared mq) @ [h], requests :=
      AddHandler (\<lambda>r. rq_hUuid ((heap (shared mq) @ [h]) ! r)) t v ?r (requests (shared mq))\<rparr>"
  note asks = request_asks [OF reach q local none tr fresh h_def s1_def]
  obtain e1 where 1: "sys_step host to_ms deliverable S
      (log_op q (OpRequest topic msg hu create serialize new True rep0 res0) ndq (shared mq)
        (evolve q (Some (mq\<lparr>shared := s1\<rparr>)) e1 S))" using asks(1) by blast
  define S1 where "S1 = log_op q (OpRequest topic msg hu create serialize new True rep0 res0) ndq (shared mq)
      (evolve q (Some (mq\<lparr>shared := s1\<rparr>)) e1 S)"
  have S1: "members S1 p = Some mp" "members S1 q = Some (mq\<lparr>shared := s1\<rparr>)" "hist S1 q = hist S q @ e1"
    "journal S1 = enter q (OpRequest topic msg hu create serialize new True rep0 res0) ndq (shared mq) (journal S)"
    using p(1) \<open>p \<noteq> q\<close> by (simp_all add: S1_def)
  have reach1: "sys_reachable host to_ms deliverable S1"
    unfolding S1_def by (rule reachable_step [OF reach 1])
  obtain e2 where 2: "sys_step host to_ms deliverable S1 (evolve p (Some mp) e2 S1)"
    and wire: "Datagram (dmsg_wire p (own_dmsg Srv t i)) \<in> set e2"
    using heartbeat_sends [OF reach1 S1(1) rec(1)] by blast
  let ?S2 = "evolve p (Some mp) e2 S1"
  note reach2 = reachable_step [OF reach1 2]
  have q2: "members ?S2 q = Some (mq\<lparr>shared := s1\<rparr>)" and none2: "GetSrvAddresses t (disc (shared (mq\<lparr>shared := s1\<rparr>))) = None"
    and sent2: "Datagram (dmsg_wire p (own_dmsg Srv t i)) \<in> set (hist ?S2 p)"
    and r2: "GetHandler t v hu (requests (shared (mq\<lparr>shared := s1\<rparr>))) = Some ?r"
      "\<not> rq_requested (heap (shared (mq\<lparr>shared := s1\<rparr>)) ! ?r)"
    using S1(2) \<open>p \<noteq> q\<close> none wire asks(2) h(2) by (simp_all add: s1_def)
  obtain s3 e3 where 3: "sys_step host to_ms deliverable ?S2 (evolve q (Some (mq\<lparr>shared := s1, shared := s3\<rparr>)) e3 ?S2)"
    and s3: "GetHandler t v hu (requests s3) = Some ?r" "same_request h (heap s3 ! ?r)"
      "responseReceiverId s3 = responseReceiverId s1"
      "RequestFrames [ctrl i, t, myRequesterAddress s1, responseReceiverId s1, v, hu, req_Serialize h] \<in> set e3"
    using provider_found [OF reach2 \<open>p \<noteq> q\<close> q2 none2 sent2 transmittable_own [OF reach p(1) rec(1)] rec(2) r2] asks(3)
    by auto
  let ?S3 = "evolve q (Some (mq\<lparr>shared := s1, shared := s3\<rparr>)) e3 ?S2"
  have hist3: "hist ?S3 q = hist S q @ e1 @ e3" using \<open>p \<noteq> q\<close> S1(3) by simp
  have "\<exists>S'. (sys_step host to_ms deliverable)\<^sup>*\<^sup>* ?S3 S' \<and>
      hist S' q = hist ?S3 q @ [UserCall (ReqCall hu (strip_partition t) (rq_CreateMsg h out) res)]"
  proof (rule request_served [OF sys_inv_reachable [OF reachable_step [OF reach2 3]] \<open>p \<noteq> q\<close>, where mp = mp and rh = rh])
    show "members ?S3 p = Some mp" using \<open>p \<noteq> q\<close> by simp
    show "members ?S3 q = Some (mq\<lparr>shared := s1, shared := s3\<rparr>)" by simp
    have "ctrl i = replierId (shared mp)" using record_home [OF reach p(1) p(1) rec(1)] by simp
    then show "RequestFrames [replierId (shared mp), t, myRequesterAddress s1,
        responseReceiverId (shared (mq\<lparr>shared := s1, shared := s3\<rparr>)), v, hu, req_Serialize h] \<in> set (hist ?S3 q)"
      using s3(3,4) by (simp add: hist3)
    show "rep_RunCallback t (req_Serialize h) '''' result0 rh = (out, res)" using run by (simp add: h)
  qed (use p(2) s3(1,2) h(1) in simp_all)
  then obtain S' where "(sys_step host to_ms deliverable)\<^sup>*\<^sup>* ?S3 S'"
    "hist S' q = hist S q @ e1 @ e3 @ [UserCall (ReqCall hu (strip_partition t) (create out) res)]"
    unfolding hist3 h(4) by auto
  then show ?thesis
    using 1 [folded S1_def] 2 3 S1(4) s3(4)
    by (intro exI [of _ S1] exI [of _ S'] exI [of _ "e1 @ e3 @ [UserCall (ReqCall hu (strip_partition t) (create out) res)]"])
      (auto intro: converse_rtranclp_into_rtranclp)
qed

text \<open>With the provider first on record, the run is shorter.\<close>

lemma known_provider_answers:
  fixes S :: "'m system" and msg new rep0 :: 'm
  assumes reach: "sys_reachable host to_ms deliverable S" and "p \<noteq> q"
    and p: "members S p = Some mp" "GetHandler_first t (repliers (shared mp)) = Inr (Some rh)"
    and run: "rep_RunCallback t (serialize msg) '''' result0 rh = (out, res)"
    and q: "members S q = Some mq" "nodes mq v = Some ndq" "fqn ndq topic = Some t"
    and local: "GetHandler_first t (repliers (shared mq)) = Inr None"
    and some: "GetSrvAddresses t (disc (shared mq)) = Some ((p, j # js) # rest)"
    and tr: "transmittable q (Requested Srv t)"
    and fresh: "GetHandler t v hu (requests (shared mq)) = None"
  shows "\<exists>S1 S' e. sys_step host to_ms deliverable S S1 \<and>
    journal S1 = enter q (OpRequest topic msg hu create serialize new True rep0 res0) ndq (shared mq) (journal S) \<and>
    (sys_step host to_ms deliverable)\<^sup>*\<^sup>* S1 S' \<and> hist S' q = hist S q @ e \<and>
    UserCall (ReqCall hu (strip_partition t) (create out) res) \<in> set e"
proof -
  define h where "h = req_SetCallback True (req_SetMessage msg (ReqHandler_ctor hu v create serialize new))"
  have h: "rq_cb h" "req_Serialize h = serialize msg" "rq_CreateMsg h = create"
    by (simp_all add: h_def req_SetCallback_def req_SetMessage_def ReqHandler_ctor_def req_Serialize_def)
  obtain s1 e1 r where step: "sys_step host to_ms deliverable S
      (log_op q (OpRequest topic msg hu create serialize new True rep0 res0) ndq (shared mq)
        (evolve q (Some (mq\<lparr>shared := s1\<rparr>)) e1 S))"
    and s1: "GetHandler t v hu (requests s1) = Some r" "same_request h (heap s1 ! r)"
      "responseReceiverId s1 = responseReceiverId (shared mq)"
    and sent: "RequestFrames [ctrl j, t, myRequesterAddress (shared mq), responseReceiverId (shared mq), v, hu,
      req_Serialize h] \<in> set e1"
    using request_sends [OF reach q local some tr fresh h_def, of rep0 res0] by blast
  define S1 where "S1 = log_op q (OpRequest topic msg hu create serialize new True rep0 res0) ndq (shared mq)
      (evolve q (Some (mq\<lparr>shared := s1\<rparr>)) e1 S)"
  have 1: "sys_step host to_ms deliverable S S1" using step by (simp add: S1_def)
  have S1: "members S1 p = Some mp" "members S1 q = Some (mq\<lparr>shared := s1\<rparr>)" "hist S1 q = hist S q @ e1"
    "journal S1 = enter q (OpRequest topic msg hu create serialize new True rep0 res0) ndq (shared mq) (journal S)"
    using p(1) \<open>p \<noteq> q\<close> by (simp_all add: S1_def)
  have "map_of (infoSrv (disc (shared mq))) t = Some ((p, j # js) # rest)"
    using some by (simp add: GetSrvAddresses_def GetAddresses_eq)
  then have "j \<in> set (records Srv (disc (shared mq)) t p)" by (simp add: records_def vec_def)
  then have home: "ctrl j = replierId (shared mp)" using record_home [OF reach q(1) p(1)] by fastforce
  obtain S' where "(sys_step host to_ms deliverable)\<^sup>*\<^sup>* S1 S'"
    "hist S' q = hist S1 q @ [UserCall (ReqCall hu (strip_partition t) (rq_CreateMsg h out) res)]"
  proof -
    have "\<exists>S'. (sys_step host to_ms deliverable)\<^sup>*\<^sup>* S1 S' \<and>
      hist S' q = hist S1 q @ [UserCall (ReqCall hu (strip_partition t) (rq_CreateMsg h out) res)]"
    proof (rule request_served [OF sys_inv_reachable [OF reachable_step [OF reach 1]] \<open>p \<noteq> q\<close> S1(1) p(2) _ S1(2)])
      show "rep_RunCallback t (req_Serialize h) '''' result0 rh = (out, res)" using run by (simp add: h)
      show "RequestFrames [replierId (shared mp), t, myRequesterAddress (shared mq),
          responseReceiverId (shared (mq\<lparr>shared := s1\<rparr>)), v, hu, req_Serialize h] \<in> set (hist S1 q)"
        using sent s1(3) home by (simp add: S1(3))
    qed (use s1 h(1) in simp_all)
    then show ?thesis using that by blast
  qed
  then show ?thesis using 1 S1(3,4) h(3)
    by (intro exI [of _ S1] exI [of _ S'] exI [of _ "e1 @ [UserCall (ReqCall hu (strip_partition t) (create out) res)]"]) simp
qed

end
