(* ===== verification/SystemTheorems.thy ===== *)
theory SystemTheorems
  imports SystemLiveness
begin

text \<open>
  The properties of a system of processes, with a small system of two processes as the example:
  A has a node, B has a node that has advertised the topic \<^verbatim>\<open>/t\<close> and the service \<^verbatim>\<open>/s\<close>.
\<close>

subsection \<open>A small system\<close>

text \<open>A socket library that hands over what comes from a connected end point and passes the filter.\<close>

definition zmq :: "string io list \<Rightarrow> string \<Rightarrow> string \<Rightarrow> bool" where
  "zmq l a t \<longleftrightarrow> sock_connected a l \<and> sock_filtered t l"

definition boot :: "string \<Rightarrow> string node_shared" where
  "boot p = NodeShared_ctor p ''10.0.0.1'' (''pub'' @ p) (''ctl'' @ p) (''req'' @ p) (''rep'' @ p) (''idq'' @ p) (''idp'' @ p)"

definition node_of :: "string \<Rightarrow> node" where
  "node_of u = Node_ctor None u"

definition with_record :: "msg_kind \<Rightarrow> string \<Rightarrow> string node_shared \<Rightarrow> string node_shared" where
  "with_record k t s = s\<lparr>disc := set_info k (snd (AddAddress t (fst (end_points k s)) (snd (end_points k s))
     ''B'' ''m'' All (info k (disc s)))) (disc s)\<rparr>"

definition echo :: "string rep_handler" where
  "echo = rep_SetCallback (Some (\<lambda>topic req rep ok. (req @ ''!'', True))) (RepHandler_ctor ''hb'' id '''' id)"

definition b_topic :: "string node_shared" where
  "b_topic = with_record Msg ''@@/t'' (boot ''B'')"

definition b_both :: "string node_shared" where
  "b_both = with_record Srv ''@@/s'' (b_topic\<lparr>repliers := [(''@@/s'', [(''m'', [(''hb'', echo)])])]\<rparr>)"

definition node_b :: node where
  "node_b = (node_of ''m'')\<lparr>topicsAdvertised := [''@@/t''], srvsAdvertised := [''@@/s'']\<rparr>"

lemma fqn_node_of: "fqn (node_of u) ''/t'' = Some ''@@/t''" "fqn (node_of u) ''/s'' = Some ''@@/s''"
proof -
  have "GetFullyQualifiedName '''' '''' ''/t'' = Some ''@@/t''" "GetFullyQualifiedName '''' '''' ''/s'' = Some ''@@/s''"
    by code_simp+
  then show "fqn (node_of u) ''/t'' = Some ''@@/t''" "fqn (node_of u) ''/s'' = Some ''@@/s''"
    by (simp_all add: fqn_def node_of_def Node_ctor_def)
qed

lemma node_b_names: "fqn node_b ''/t'' = Some ''@@/t''" "nd_nUuid node_b = ''m''"
  by (simp_all add: node_b_def fqn_node_of) (simp add: node_of_def Node_ctor_def)

lemma boot_fields:
  "ns_pUuid (boot p) = p" "myAddress (boot p) = ''pub'' @ p" "myControlAddress (boot p) = ''ctl'' @ p"
  "myReplierAddress (boot p) = ''rep'' @ p" "replierId (boot p) = ''idp'' @ p" "connections (boot p) = []"
  "localSubscriptions (boot p) = []" "repliers (boot p) = []" "requests (boot p) = []" "pUuid (disc (boot p)) = p"
  "infoMsg (disc (boot p)) = []" "infoSrv (disc (boot p)) = []"
  by (simp_all add: boot_def NodeShared_ctor_def Discovery_ctor_def SetConnectionsCb_def SetDisconnectionsCb_def
      SetConnectionsSrvCb_def SetDisconnectionsSrvCb_def)

text \<open>The steps that lead there.\<close>

lemma advertise_b:
  assumes "pUuid (disc s) = ''B''" and "info k (disc s) = []" and "t \<in> {''@@/t'', ''@@/s''}"
    and "(a, c) = end_points k s" and "a \<noteq> ''''" "length a < 100" "length c < 100"
  shows "\<exists>e. with_discovery (\<lambda>_. False) (Advertise k t a c ''m'' All) s = Inr (with_record k t s, e)"
    and "transmittable ''B'' (Advertised k t a c ''m'' All)"
proof -
  let ?m = "Advertised k t a c ''m'' All"
  let ?d = "set_info k (snd (AddAddress t a c ''B'' ''m'' All [])) (disc s)"
  show tr: "transmittable ''B'' ?m"
    using assms(3,5-7) by (auto simp: transmittable_def size_simps)
  then have "sendable (pUuid ?d) ?m" using assms(1) by (simp add: transmittable_def)
  from say_wire [OF this] obtain b where "say ?m ?d = Inr [Send b]" by blast
  then have "Advertise k t a c ''m'' All (disc s) = Inr (?d, [Send b])"
    using assms(1,2) by (simp add: Advertise_def Let_def AddAddress_def)
  then have "with_discovery (\<lambda>_. False) (Advertise k t a c ''m'' All) s = Inr (with_record k t s, [Datagram b])"
    using assms(1,2,4) by (simp add: with_discovery_def with_record_def) (metis fst_conv snd_conv)
  then show "\<exists>e. with_discovery (\<lambda>_. False) (Advertise k t a c ''m'' All) s = Inr (with_record k t s, e)" by blast
qed

lemma node_of_fields [simp]:
  "nd_nUuid (node_of u) = u" "topicsAdvertised (node_of u) = []" "srvsAdvertised (node_of u) = []"
  by (simp_all add: node_of_def Node_ctor_def)

lemma advertise_topic:
  "\<exists>e. node_step (\<lambda>_. False) (OpAdvertise ''/t'' All) (node_of ''m'') (boot ''B'') =
     Inr ((node_of ''m'')\<lparr>topicsAdvertised := [''@@/t'']\<rparr>, b_topic, e)"
  "op_fits ''B'' (OpAdvertise ''/t'' All) (node_of ''m'') (boot ''B'')"
  using advertise_b [of "boot ''B''" Msg "''@@/t''" "''pubB''" "''ctlB''"]
  by (auto simp: boot_fields fqn_node_of without_result_def Node_Advertise_def Let_def b_topic_def op_fits_def
      set_insert_def)

lemma b_topic_fields:
  "end_points k b_topic = end_points k (boot ''B'')" "repliers b_topic = []" "infoSrv (disc b_topic) = []"
  "pUuid (disc b_topic) = ''B''" "requests b_topic = []" "connections b_topic = []" "localSubscriptions b_topic = []"
  by (simp_all add: b_topic_def with_record_def boot_fields)

lemma advertise_service:
  "\<exists>e. node_step (\<lambda>_. False) (OpAdvertiseSrv ''/s'' ''hb'' id '''' id (rh_cb echo) All)
      ((node_of ''m'')\<lparr>topicsAdvertised := [''@@/t'']\<rparr>) b_topic = Inr (node_b, b_both, e)"
  "op_fits ''B'' (OpAdvertiseSrv ''/s'' ''hb'' id '''' id (rh_cb echo) All)
      ((node_of ''m'')\<lparr>topicsAdvertised := [''@@/t'']\<rparr>) b_topic"
proof -
  let ?s = "b_topic\<lparr>repliers := [(''@@/s'', [(''m'', [(''hb'', echo)])])]\<rparr>"
  have ends: "(''repB'', ''idpB'') = end_points Srv ?s" by (simp add: b_topic_fields boot_fields)
  have b: "\<exists>e. with_discovery (\<lambda>_. False) (Advertise Srv ''@@/s'' ''repB'' ''idpB'' ''m'' All) ?s = Inr (b_both, e)"
    and tr: "transmittable ''B'' (Advertised Srv ''@@/s'' ''repB'' ''idpB'' ''m'' All)"
    using advertise_b [of ?s Srv "''@@/s''" "''repB''" "''idpB''"] ends
    by (simp_all add: b_topic_fields b_both_def)
  have add: "AddHandler rh_hUuid ''@@/s'' ''m'' (rep_SetCallback (rh_cb echo) (RepHandler_ctor ''hb'' id '''' id)) [] =
      [(''@@/s'', [(''m'', [(''hb'', echo)])])]"
    by (simp add: AddHandler_def Let_def map_insert_def echo_def rep_SetCallback_def RepHandler_ctor_def)
  have ids: "myReplierAddress b_topic = ''repB''" "replierId b_topic = ''idpB''"
    using b_topic_fields(1) [of Srv] by (simp_all add: boot_fields)
  show "\<exists>e. node_step (\<lambda>_. False) (OpAdvertiseSrv ''/s'' ''hb'' id '''' id (rh_cb echo) All)
      ((node_of ''m'')\<lparr>topicsAdvertised := [''@@/t'']\<rparr>) b_topic = Inr (node_b, b_both, e)"
    using b by (auto simp: without_result_def Node_AdvertiseSrv_def fqn_node_of Let_def ids add b_topic_fields
        set_insert_def node_b_def)
  show "op_fits ''B'' (OpAdvertiseSrv ''/s'' ''hb'' id '''' id (rh_cb echo) All)
      ((node_of ''m'')\<lparr>topicsAdvertised := [''@@/t'']\<rparr>) b_topic"
    using tr by (simp add: op_fits_def fqn_node_of ids)
qed

definition member_a :: "string member" where
  "member_a = \<lparr>shared = boot ''A'', nodes = [''n'' \<mapsto> node_of ''n'']\<rparr>"

definition member_b :: "string member" where
  "member_b = \<lparr>shared = b_both, nodes = [''m'' \<mapsto> node_b]\<rparr>"

lemma boot_step:
  assumes "members S p = None" and "hist S p = []" and "p \<in> {''A'', ''B''}" and "\<And>k t i. (k, t, p, i) \<notin> adverts (journal S)"
  shows "sys_step one_host to_ms deliverable S (evolve p (Some \<lparr>shared = boot p, nodes = (\<lambda>_. None)\<rparr>) [] S)"
  unfolding boot_def
  by (rule sys_step.start [OF assms(1,2)]) (use assms(3,4) in \<open>auto simp: transmittable_def size_simps\<close>)

text \<open>A is the subscriber and client to be, and nothing has been received yet.\<close>

lemma small_system:
  "\<exists>S. sys_reachable one_host to_ms deliverable S \<and> members S ''A'' = Some member_a \<and>
     members S ''B'' = Some member_b \<and> hist S ''A'' = []"
proof -
  let ?s = "sys_step one_host to_ms deliverable"
  define S1 where "S1 = evolve ''A'' (Some \<lparr>shared = boot ''A'', nodes = (\<lambda>_. None)\<rparr>) [] system0"
  define S2 where "S2 = evolve ''B'' (Some \<lparr>shared = boot ''B'', nodes = (\<lambda>_. None)\<rparr>) [] S1"
  define S3 where "S3 = evolve ''A'' (Some member_a) [] S2"
  define S4 where "S4 = evolve ''B'' (Some \<lparr>shared = boot ''B'', nodes = [''m'' \<mapsto> node_of ''m'']\<rparr>) [] S3"
  have 1: "?s system0 S1" unfolding S1_def by (rule boot_step) (simp_all add: system0_def)
  have 2: "?s S1 S2" unfolding S2_def by (rule boot_step) (simp_all add: S1_def system0_def)
  have 3: "?s S2 S3"
    using sys_step.new_node [of S2 "''A''" "\<lparr>shared = boot ''A'', nodes = (\<lambda>_. None)\<rparr>" "''n''" "node_of ''n''" None]
    by (simp add: S3_def S2_def S1_def member_a_def node_of_def)
  have 4: "?s S3 S4"
    using sys_step.new_node [of S3 "''B''" "\<lparr>shared = boot ''B'', nodes = (\<lambda>_. None)\<rparr>" "''m''" "node_of ''m''" None]
    by (simp add: S4_def S3_def S2_def node_of_def)
  let ?nd = "(node_of ''m'')\<lparr>topicsAdvertised := [''@@/t'']\<rparr>"
  obtain e5 where 5: "node_step (\<lambda>_. False) (OpAdvertise ''/t'' All) (node_of ''m'') (boot ''B'') = Inr (?nd, b_topic, e5)"
    using advertise_topic(1) by blast
  define S5 where "S5 = log_op ''B'' (OpAdvertise ''/t'' All) (node_of ''m'') (boot ''B'')
    (evolve ''B'' (Some \<lparr>shared = b_topic, nodes = [''m'' \<mapsto> ?nd]\<rparr>) e5 S4)"
  have step5: "?s S4 S5"
    using sys_step.node [of S4 "''B''" "\<lparr>shared = boot ''B'', nodes = [''m'' \<mapsto> node_of ''m'']\<rparr>" "''m''" "node_of ''m''"
        "OpAdvertise ''/t'' All" "\<lambda>_. False" ?nd b_topic e5] 5 advertise_topic(2)
    by (simp add: S5_def S4_def)
  let ?op = "OpAdvertiseSrv ''/s'' ''hb'' id '''' id (rh_cb echo) All"
  obtain e6 where 6: "node_step (\<lambda>_. False) ?op ?nd b_topic = Inr (node_b, b_both, e6)"
    using advertise_service(1) by blast
  define S6 where "S6 = log_op ''B'' ?op ?nd b_topic (evolve ''B'' (Some member_b) e6 S5)"
  have step6: "?s S5 S6"
    using sys_step.node [of S5 "''B''" "\<lparr>shared = b_topic, nodes = [''m'' \<mapsto> ?nd]\<rparr>" "''m''" ?nd ?op "\<lambda>_. False"
        node_b b_both e6] 6 advertise_service(2)
    by (simp add: S6_def S5_def member_b_def)
  have "sys_reachable one_host to_ms deliverable S6"
    using 1 2 3 4 step5 step6 unfolding sys_reachable_def by (meson r_into_rtranclp rtranclp_trans)
  then show ?thesis
    by (intro exI [of _ S6]) (simp add: S6_def S5_def S4_def S3_def S2_def S1_def system0_def)
qed

text \<open>What the example offers.\<close>

lemma member_b_records:
  "\<exists>i \<in> set (records Msg (disc (shared member_b)) ''@@/t'' ''B''). scope i = All"
  "\<exists>i \<in> set (records Srv (disc (shared member_b)) ''@@/s'' ''B''). scope i = All"
  by (simp_all add: member_b_def b_both_def b_topic_def with_record_def records_def vec_def AddAddress_def boot_fields)

lemma member_b_service: "GetHandler_first ''@@/s'' (repliers (shared member_b)) = Inr (Some echo)"
  by (simp add: member_b_def b_both_def b_topic_def with_record_def GetHandler_first_def)

lemma member_b_node: "nodes member_b ''m'' = Some node_b" "''@@/t'' \<in> set (topicsAdvertised node_b)"
  by (simp_all add: member_b_def node_b_def)

lemma member_a_fields:
  "nodes member_a ''n'' = Some (node_of ''n'')" "localSubscriptions (shared member_a) = []"
  "requests (shared member_a) = []" "repliers (shared member_a) = []" "connections (shared member_a) = []"
  "GetSrvAddresses t (disc (shared member_a)) = None"
  by (simp_all add: member_a_def boot_fields GetSrvAddresses_def GetAddresses_eq)

lemma transmittable_requests:
  "transmittable ''A'' (Requested Msg ''@@/t'')" "transmittable ''A'' (Requested Srv ''@@/s'')"
  by (simp_all add: transmittable_def size_simps)

lemma strip_sample: "strip_partition ''@@/t'' = ''/t''" "strip_partition ''@@/s'' = ''/s''"
  by code_simp+

lemma zmq_hands_over: "hands_over zmq"
  by (simp add: hands_over_def zmq_def)

text \<open>A state of the example in which a message has arrived, and one in which a service has answered.\<close>

lemma sample_delivery:
  "\<exists>S m. sys_reachable one_host to_ms zmq S \<and> UserCall (SubCall ''h'' ''/t'' ''hi'') \<in> set (hist S ''A'') \<and>
     members S ''B'' = Some m \<and> vec (remoteSubscribers (shared m)) ''@@/t'' ''A'' \<noteq> []"
proof -
  obtain S where S: "sys_reachable one_host to_ms zmq S" "members S ''A'' = Some member_a"
    "members S ''B'' = Some member_b" "hist S ''A'' = []" using small_system by blast
  obtain i where i: "i \<in> set (records Msg (disc (shared member_b)) ''@@/t'' ''B'')" "visible one_host ''A'' ''B'' i"
    using member_b_records(1) by (auto simp: visible_def)
  obtain S1 S' e m where "sys_step one_host to_ms zmq S S1" "(sys_step one_host to_ms zmq)\<^sup>*\<^sup>* S1 S'"
    "hist S' ''A'' = e" "UserCall (SubCall ''h'' (strip_partition ''@@/t'') (id (id ''hi''))) \<in> set e"
    "members S' ''B'' = Some m" "vec (remoteSubscribers (shared m)) ''@@/t'' ''A'' \<noteq> []"
    using subscription_delivers [OF S(1) zmq_hands_over _ S(3) member_b_node(1) node_b_names(1) member_b_node(2) i
        S(2) member_a_fields(1) fqn_node_of(1) transmittable_requests(1), of "''h''" id id "''hi''"]
    by (auto simp: member_a_fields GetHandler_def S(4))
  then show ?thesis using S(1) unfolding sys_reachable_def
    by (intro exI [of _ S'] exI [of _ m]) (auto simp: strip_sample)
qed

lemma sample_answer:
  "\<exists>S c l. sys_reachable one_host to_ms zmq S \<and> UserCall (ReqCall ''h'' ''/s'' ''q!'' True) \<in> set (hist S ''A'') \<and>
     RequestFrames (c # l) \<in> set (hist S ''A'')"
proof -
  obtain S where S: "sys_reachable one_host to_ms zmq S" "members S ''A'' = Some member_a"
    "members S ''B'' = Some member_b" "hist S ''A'' = []" using small_system by blast
  obtain i where i: "i \<in> set (records Srv (disc (shared member_b)) ''@@/s'' ''B'')" "visible one_host ''A'' ''B'' i"
    using member_b_records(2) by (auto simp: visible_def)
  have run: "rep_RunCallback ''@@/s'' (id ''q'') '''' False echo = (''q!'', True)"
    by (simp add: rep_RunCallback_def echo_def rep_SetCallback_def RepHandler_ctor_def)
  have local: "GetHandler_first ''@@/s'' (repliers (shared member_a)) = Inr None"
    by (simp add: member_a_fields GetHandler_first_def)
  obtain S1 S' e l where "sys_step one_host to_ms zmq S S1" "(sys_step one_host to_ms zmq)\<^sup>*\<^sup>* S1 S'"
    "hist S' ''A'' = e" "UserCall (ReqCall ''h'' (strip_partition ''@@/s'') (id ''q!'') True) \<in> set e"
    "RequestFrames (ctrl i # l) \<in> set e"
    using request_answers [where serialize = id and msg = "''q''", OF S(1) _ S(3) member_b_service i run S(2) member_a_fields(1) fqn_node_of(2) local
        member_a_fields(6) transmittable_requests(2), of "''h''" id "''''" "''''" False]
    by (auto simp: member_a_fields GetHandler_def S(4))
  then show ?thesis using S(1) unfolding sys_reachable_def
    by (intro exI [of _ S'] exI [of _ "ctrl i"] exI [of _ l]) (auto simp: strip_sample)
qed

subsection \<open>Properties\<close>

text \<open>C8 The whole system refines the network of discoveries: forgetting all of a process but its
  discovery, and all that its sockets were asked for but the datagrams, every reachable state of the
  system is a reachable state of the network.  So what is proved of the network holds here.\<close>
theorem system_refines_network:
  assumes "sys_reachable host to_ms deliverable S"
  shows "\<exists>N. net_reachable host to_ms N \<and>
    (\<forall>p. procs N p = map_option (\<lambda>m. disc (shared m)) (members S p)) \<and>
    sent N = {(host p, b) | p b. Datagram b \<in> set (hist S p)} \<and> logged N = adverts (journal S)"
  using net_of_reachable [OF assms]
  by (intro exI [of _ "net_of host S"]) (simp add: net_of_def comp_def datagrams_of_def)

lemma system_refines_network_witness:
  "\<exists>(S :: string system) N. members S ''A'' = Some member_a \<and> net_reachable one_host (\<lambda>x. x) N \<and> procs N ''A'' = Some (disc (boot ''A''))"
proof -
  obtain S where S: "sys_reachable one_host (\<lambda>x. x) zmq S" "members S ''A'' = Some member_a"
    using small_system by blast
  from system_refines_network [OF S(1)] obtain N where N: "net_reachable one_host (\<lambda>x. x) N"
    "\<forall>p. procs N p = map_option (\<lambda>m. disc (shared m)) (members S p)" by (elim exE conjE)
  from N(2) have procs: "procs N ''A'' = Some (disc (boot ''A''))" by (simp add: S(2) member_a_def)
  show ?thesis by (rule exI [of _ S], rule exI [of _ N]) (simp add: S(2) N(1) procs)
qed

text \<open>C31 Every component of a running system is what its type promises: the shared node of a
  process is in one of the reachable states of a process, under the UUID of the process, which its
  discovery has too; and a node is filed under its own UUID, has a valid name space, and lists only
  names that a topic of that node expands to.\<close>
theorem system_well_typed:
  assumes "sys_reachable host to_ms deliverable S" and "members S p = Some m"
  shows "process_reachable (shared m) \<and> ns_pUuid (shared m) = p \<and> pUuid (disc (shared m)) = p \<and>
    (\<forall>u nd. nodes m u = Some nd \<longrightarrow> nd_nUuid nd = u \<and> IsValidNamespace (nd_ns nd) \<and>
      (\<forall>t \<in> set (topicsSubscribed nd) \<union> set (topicsAdvertised nd) \<union> set (srvsAdvertised nd).
        \<exists>topic. fqn nd topic = Some t))"
  using member_invD [OF sys_invD(1) [OF sys_inv_reachable [OF assms(1)] assms(2)]] member_net(2) [OF assms]
  by (simp add: node_ok_def)

lemma system_well_typed_witness:
  "process_reachable b_both \<and> pUuid (disc b_both) = ''B'' \<and> (\<exists>topic. fqn node_b topic = Some ''@@/s'')"
proof -
  obtain S where S: "sys_reachable one_host (\<lambda>x. x) zmq S" "members S ''B'' = Some member_b"
    using small_system by blast
  have "''@@/s'' \<in> set (srvsAdvertised node_b)" by (simp add: node_b_def)
  with system_well_typed [OF S] member_b_node(1) show ?thesis
    by (fastforce simp: member_b_def)
qed

text \<open>C10 Records lead home: as long as process \<open>p\<close> runs, every record that any process
  holds of it, of a topic or of a service, names the end points that the sockets of \<open>p\<close> are bound
  to now, so a connection made from it reaches \<open>p\<close>.\<close>
theorem records_lead_home:
  assumes "sys_reachable host to_ms deliverable S" and "members S p = Some mp" and "members S q = Some mq"
    and "i \<in> set (records k (disc (shared mq)) t p)"
  shows "addr i = (case k of Msg \<Rightarrow> myAddress (shared mp) | Srv \<Rightarrow> myReplierAddress (shared mp)) \<and>
    ctrl i = (case k of Msg \<Rightarrow> myControlAddress (shared mp) | Srv \<Rightarrow> replierId (shared mp))"
  using record_home [OF assms(1,3,2,4)] by (cases k) simp_all

lemma records_lead_home_witness:
  "\<exists>i \<in> set (records Srv (disc b_both) ''@@/s'' ''B''). addr i = ''repB'' \<and> ctrl i = ''idpB''"
proof -
  obtain S where S: "sys_reachable one_host (\<lambda>x. x) zmq S" "members S ''B'' = Some member_b"
    using small_system by blast
  obtain i where i: "i \<in> set (records Srv (disc (shared member_b)) ''@@/s'' ''B'')"
    using member_b_records(2) by blast
  have "myReplierAddress b_both = ''repB''" "replierId b_both = ''idpB''"
    using b_topic_fields(1) [of Srv] by (simp_all add: b_both_def with_record_def boot_fields)
  then show ?thesis
    using records_lead_home [OF S(1,2,2) i] i by (auto simp: member_b_def)
qed

text \<open>C9 A publisher has only real subscribers: if process \<open>p\<close> has process \<open>q\<close> on file as
  a remote subscriber of a topic, then a node of \<open>q\<close> with the UUID on file has subscribed to exactly
  that topic, whatever was lost, repeated or reordered.\<close>
theorem remote_subscribers_authentic:
  assumes "sys_reachable host to_ms deliverable S" and "members S p = Some m"
    and "i \<in> set (vec (remoteSubscribers (shared m)) t q)"
  shows "\<exists>h. (t, q, h) \<in> subs (journal S) \<and> sh_nUuid h = nUuid i"
  using filedD(4) [OF member_invD(4) [OF sys_invD(1) [OF sys_inv_reachable [OF assms(1)] assms(2)]] assms(3)] .

lemma remote_subscribers_authentic_witness:
  "\<exists>S h. sys_reachable one_host (\<lambda>x. x) zmq S \<and> (''@@/t'', ''A'', h) \<in> subs (journal S)"
proof -
  obtain S m where S: "sys_reachable one_host (\<lambda>x. x) zmq S" "members S ''B'' = Some m"
    and "vec (remoteSubscribers (shared m)) ''@@/t'' ''A'' \<noteq> []"
    using sample_delivery by blast
  then obtain i where "i \<in> set (vec (remoteSubscribers (shared m)) ''@@/t'' ''A'')"
    using list.set_sel(1) by blast
  from remote_subscribers_authentic [OF S this] S(1) show ?thesis by blast
qed

text \<open>C3 A subscriber's callback never gets anything that was not published: whenever one is
  run, its process has subscribed it to some topic of the name that it is told, some node of some
  process has published on that very topic, and the message is the published one itself in the same
  process and what the handler parses from its serialisation elsewhere.\<close>
theorem messages_authentic:
  assumes "sys_reachable host to_ms deliverable S" and "UserCall (SubCall u name msg) \<in> set (hist S p)"
  shows "\<exists>t h q m data. (t, p, h) \<in> subs (journal S) \<and> sh_hUuid h = u \<and> sh_cb h \<and> name = strip_partition t \<and>
    (t, q, m, data) \<in> pubs (journal S) \<and> (q = p \<and> msg = m \<or> msg = sh_CreateMsg h data)"
  using sys_invD(2) [OF sys_inv_reachable [OF assms(1)] assms(2)] unfolding io_ok.simps call_ok.simps by blast

lemma messages_authentic_witness:
  "\<exists>S t q m data. sys_reachable one_host (\<lambda>x. x) zmq S \<and> ''/t'' = strip_partition t \<and> (t, q, m, data) \<in> pubs (journal S)"
proof -
  obtain S where S: "sys_reachable one_host (\<lambda>x. x) zmq S" "UserCall (SubCall ''h'' ''/t'' ''hi'') \<in> set (hist S ''A'')"
    using sample_delivery by blast
  from messages_authentic [OF S] S(1) show ?thesis by blast
qed

text \<open>C4 A requester's callback never gets anything that no service computed.  Whenever one is run, its
  process has requested a service of that name.  If the response came from another node's or process's reply
  (\<open>ReqCall\<close>), the request was made with the very handler whose callback is run, and the response and its
  result flag are what the callback of a service offered under that same name made of the serialised form of a
  request that carries the identifiers of this one; when no two requests share a handler UUID, as UUIDs
  are meant to guarantee, that is the request itself.  If a responder of the same process answered at once
  (\<open>LocalReply\<close>), the response and its result flag are what the callback of that responder made of the request
  message itself.\<close>
theorem responses_authentic:
  assumes "sys_reachable host to_ms deliverable S" and "UserCall c \<in> set (hist S q)"
  shows "case c of
      SubCall u name msg \<Rightarrow> True
    | ReqCall u name rep res \<Rightarrow> (\<exists>t h p rh a h' out result0. (t, q, h) \<in> reqs (journal S) \<and> rq_hUuid h = u \<and>
        rq_cb h \<and> name = strip_partition t \<and> rep = rq_CreateMsg h out \<and> (t, p, rh) \<in> reps (journal S) \<and>
        (t, a, h') \<in> reqs (journal S) \<and> rq_nUuid h' = rq_nUuid h \<and> rq_hUuid h' = u \<and>
        rep_RunCallback t (req_Serialize h') '''' result0 rh = (out, res) \<and>
        (inj_on (\<lambda>(t, a, h). rq_hUuid h) (reqs (journal S)) \<longrightarrow> a = q \<and> h' = h))
    | LocalReply name rep res \<Rightarrow> (\<exists>t h rh rep0 result0. (t, q, h) \<in> reqs (journal S) \<and> name = strip_partition t \<and>
        (t, q, rh) \<in> reps (journal S) \<and> rep_RunLocalCallback t (rq_reqMsg h) rep0 result0 rh = (rep, res))"
proof (cases c)
  case (ReqCall u name rep res)
  from sys_invD(2) [OF sys_inv_reachable [OF assms(1)] assms(2)]
  obtain t h p out where h: "(t, q, h) \<in> reqs (journal S)" "rq_hUuid h = u" "rq_cb h" "name = strip_partition t"
    "rep = rq_CreateMsg h out" and "served (journal S) p t (rq_nUuid h) u out res"
    unfolding ReqCall io_ok.simps call_ok.simps by blast
  then obtain a h' rh result0 where s: "(t, p, rh) \<in> reps (journal S)" "(t, a, h') \<in> reqs (journal S)"
    "rq_nUuid h' = rq_nUuid h" "rq_hUuid h' = u" "rep_RunCallback t (req_Serialize h') '''' result0 rh = (out, res)"
    unfolding served_def by blast
  have "a = q \<and> h' = h" if "inj_on (\<lambda>(t, a, h). rq_hUuid h) (reqs (journal S))"
    using inj_onD [OF that _ s(2) h(1)] s(4) h(2) by simp
  then show ?thesis unfolding ReqCall call.case using h s by blast
next
  case (LocalReply name rep res)
  from sys_invD(2) [OF sys_inv_reachable [OF assms(1)] assms(2)]
  have "call_ok (journal S) q (LocalReply name rep res)" unfolding LocalReply io_ok.simps .
  then show ?thesis unfolding LocalReply call.case call_ok.simps by blast
qed simp

lemma responses_authentic_witness:
  "\<exists>S t p rh. sys_reachable one_host (\<lambda>x. x) zmq S \<and> ''/s'' = strip_partition t \<and> (t, p, rh) \<in> reps (journal S)"
proof -
  obtain S where S: "sys_reachable one_host (\<lambda>x. x) zmq S" "UserCall (ReqCall ''h'' ''/s'' ''q!'' True) \<in> set (hist S ''A'')"
    using sample_answer by blast
  from responses_authentic [OF S] S(1) show ?thesis unfolding call.case by blast
qed

text \<open>C1 Publish and subscribe works across processes.  From every reachable state in which
  a node of \<open>p\<close> has advertised a topic, with a scope that \<open>q\<close> may see, a node of \<open>q\<close> can subscribe
  to that topic, under whatever name it has there, and from the state after it a run leads to one in
  which the new callback has been called with what the subscriber parses from a message that \<open>p\<close>
  published, and \<open>p\<close> has \<open>q\<close> on file as a remote subscriber; it does not matter whether \<open>q\<close> had heard
  of \<open>p\<close> before.  The socket library is assumed to hand over what comes from a connected end point and
  passes the filter, as 0MQ documents, and the socket of \<open>q\<close> to be connected to \<open>p\<close> if \<open>q\<close> believes so.\<close>
theorem publish_subscribe_works:
  fixes S :: "'m system" and msg :: 'm
  assumes reach: "sys_reachable host to_ms deliverable S"
    and zmq: "\<And>l a t. sock_connected a l \<Longrightarrow> sock_filtered t l \<Longrightarrow> deliverable l a t" and "p \<noteq> q"
    and p: "members S p = Some mp" "nodes mp u = Some nd" "fqn nd topic = Some t" "t \<in> set (topicsAdvertised nd)"
    and rec: "i \<in> set (records Msg (disc (shared mp)) t p)" "scope i \<noteq> Process" "scope i = Host \<Longrightarrow> host p = host q"
    and q: "members S q = Some mq" "nodes mq v = Some ndq" "fqn ndq topic' = Some t"
    and fits: "transmittable q (Requested Msg t)"
    and fresh: "GetHandler t v hu (localSubscriptions (shared mq)) = None"
    and sock: "HasAddress (addr i) (connections (shared mq)) \<Longrightarrow> sock_connected (addr i) (hist S q)"
  shows "\<exists>S1 S' e m. sys_step host to_ms deliverable S S1 \<and>
    journal S1 = enter q (OpSubscribe topic' hu create True) ndq (shared mq) (journal S) \<and>
    (sys_step host to_ms deliverable)\<^sup>*\<^sup>* S1 S' \<and> hist S' q = hist S q @ e \<and>
    UserCall (SubCall hu (strip_partition t) (create (serialize msg))) \<in> set e \<and>
    members S' p = Some m \<and> vec (remoteSubscribers (shared m)) t q \<noteq> []"
proof -
  have "hands_over deliverable" using zmq by (simp add: hands_over_def)
  moreover have "visible host q p i" using rec by (auto simp: visible_def)
  ultimately show ?thesis
    using subscription_delivers [OF reach _ \<open>p \<noteq> q\<close> p rec(1) _ q fits fresh sock] by blast
qed

lemma publish_subscribe_works_witness:
  "\<exists>S S' e. sys_reachable one_host (\<lambda>x. x) zmq S \<and> (sys_step one_host (\<lambda>x. x) zmq)\<^sup>*\<^sup>* S S' \<and>
     hist S' ''A'' = hist S ''A'' @ e \<and> UserCall (SubCall ''h'' ''/t'' ''hi'') \<in> set e"
proof -
  obtain S where S: "sys_reachable one_host (\<lambda>x. x) zmq S" "members S ''A'' = Some member_a"
    "members S ''B'' = Some member_b" using small_system by blast
  obtain i where i: "i \<in> set (records Msg (disc (shared member_b)) ''@@/t'' ''B'')" "scope i \<noteq> Process"
    using member_b_records(1) by auto
  obtain S1 S' e where "sys_step one_host (\<lambda>x. x) zmq S S1" "(sys_step one_host (\<lambda>x. x) zmq)\<^sup>*\<^sup>* S1 S'"
    "hist S' ''A'' = hist S ''A'' @ e" "UserCall (SubCall ''h'' (strip_partition ''@@/t'') (id (id ''hi''))) \<in> set e"
    using publish_subscribe_works [OF S(1) _ _ S(3) member_b_node(1) node_b_names(1) member_b_node(2) i _
        S(2) member_a_fields(1) fqn_node_of(1) transmittable_requests(1), of "''h''" id id "''hi''"]
    by (auto simp: member_a_fields GetHandler_def zmq_def)
  moreover from this(1,2) have "(sys_step one_host (\<lambda>x. x) zmq)\<^sup>*\<^sup>* S S'" by (rule converse_rtranclp_into_rtranclp)
  ultimately show ?thesis using S(1) by (auto simp: strip_sample)
qed

text \<open>C2 Service calls work across processes.  From every reachable state in which process
  \<open>p\<close> has a handler of a service and has advertised it with a scope that \<open>q\<close> may see, and \<open>q\<close> knows
  of no provider yet or of \<open>p\<close> as the first one, a node of \<open>q\<close> can request the service, and from the state after it a run leads
  to one in which the callback of the request has been called with the response, parsed, and the
  result flag that the handler of \<open>p\<close> computes for the serialised request.\<close>
theorem service_call_works:
  fixes S :: "'m system" and msg new :: 'm
  assumes reach: "sys_reachable host to_ms deliverable S" and "p \<noteq> q"
    and p: "members S p = Some mp" "GetHandler_first t (repliers (shared mp)) = Inr (Some rh)"
    and rec: "i \<in> set (records Srv (disc (shared mp)) t p)" "scope i \<noteq> Process" "scope i = Host \<Longrightarrow> host p = host q"
    and run: "rep_RunCallback t (serialize msg) '''' result0 rh = (out, res)"
    and q: "members S q = Some mq" "nodes mq v = Some ndq" "fqn ndq topic = Some t"
    and local: "GetHandler_first t (repliers (shared mq)) = Inr None"
    and first: "\<And>r v rest. GetSrvAddresses t (disc (shared mq)) = Some ((r, v) # rest) \<Longrightarrow> r = p"
    and fits: "transmittable q (Requested Srv t)"
    and fresh: "GetHandler t v hu (requests (shared mq)) = None"
  shows "\<exists>S1 S' e. sys_step host to_ms deliverable S S1 \<and>
    journal S1 = enter q (OpRequest topic msg hu create serialize new True rep0 res0) ndq (shared mq) (journal S) \<and>
    (sys_step host to_ms deliverable)\<^sup>*\<^sup>* S1 S' \<and> hist S' q = hist S q @ e \<and>
    UserCall (ReqCall hu (strip_partition t) (create out) res) \<in> set e"
proof -
  show ?thesis
  proof (cases "GetSrvAddresses t (disc (shared mq))")
    case None
    have "visible host q p i" using rec by (auto simp: visible_def)
    from request_answers [where serialize = serialize and msg = msg, OF reach \<open>p \<noteq> q\<close> p rec(1) this run q local None fits fresh]
    show ?thesis by blast
  next
    case (Some m)
    obtain r j js rest where m: "m = (r, j # js) # rest"
      using first_provider [OF member_net(1) [OF reach q(1)] Some] .
    then have "GetSrvAddresses t (disc (shared mq)) = Some ((p, j # js) # rest)"
      using first [of r "j # js" rest] Some by simp
    from known_provider_answers [where serialize = serialize and msg = msg, OF reach \<open>p \<noteq> q\<close> p run q local this fits fresh]
    show ?thesis .
  qed
qed

lemma service_call_works_witness:
  "\<exists>S S' e. sys_reachable one_host (\<lambda>x. x) zmq S \<and> (sys_step one_host (\<lambda>x. x) zmq)\<^sup>*\<^sup>* S S' \<and>
     hist S' ''A'' = hist S ''A'' @ e \<and> UserCall (ReqCall ''h'' ''/s'' ''q!'' True) \<in> set e"
proof -
  obtain S where S: "sys_reachable one_host (\<lambda>x. x) zmq S" "members S ''A'' = Some member_a"
    "members S ''B'' = Some member_b" using small_system by blast
  obtain i where i: "i \<in> set (records Srv (disc (shared member_b)) ''@@/s'' ''B'')" "scope i \<noteq> Process"
    using member_b_records(2) by auto
  have run: "rep_RunCallback ''@@/s'' (id ''q'') '''' False echo = (''q!'', True)"
    by (simp add: rep_RunCallback_def echo_def rep_SetCallback_def RepHandler_ctor_def)
  have local: "GetHandler_first ''@@/s'' (repliers (shared member_a)) = Inr None"
    by (simp add: member_a_fields GetHandler_first_def)
  obtain S1 S' e where "sys_step one_host (\<lambda>x. x) zmq S S1" "(sys_step one_host (\<lambda>x. x) zmq)\<^sup>*\<^sup>* S1 S'"
    "hist S' ''A'' = hist S ''A'' @ e" "UserCall (ReqCall ''h'' (strip_partition ''@@/s'') (id ''q!'') True) \<in> set e"
    using service_call_works [where serialize = id and msg = "''q''", OF S(1) _ S(3) member_b_service i _ run S(2)
        member_a_fields(1) fqn_node_of(2) local _ transmittable_requests(2), of "''h''" id "''''" "''''" False]
    by (auto simp: member_a_fields GetHandler_def)
  moreover from this(1,2) have "(sys_step one_host (\<lambda>x. x) zmq)\<^sup>*\<^sup>* S S'" by (rule converse_rtranclp_into_rtranclp)
  ultimately show ?thesis using S(1) by (auto simp: strip_sample)
qed

end
