(* ===== verification/Expiry.thy ===== *)
theory Expiry
  imports DiscoveryCorrect
begin

text \<open>
  Time.  A run of the discovery is a list of operations, and the receptions and the rounds of the
  activity task carry the time at which they happen.  What such a run does to the records of
  another process: one that is heard of often enough is never given up, and one that has fallen silent is,
  no later than the first round of the activity task after its time is up.
\<close>

lemmas callback_setters =
  SetConnectionsCb_def SetDisconnectionsCb_def SetConnectionsSrvCb_def SetDisconnectionsSrvCb_def

lemmas interval_setters =
  SetActivityInterval_def SetHeartbeatInterval_def SetAdvertiseInterval_def SetSilenceInterval_def

subsection \<open>Who is heard\<close>

text \<open>The header that a reception reads, from the datagram and from what the buffer held before.\<close>

definition header_of :: "string \<Rightarrow> (string \<times> string) option \<Rightarrow> header option" where
  "header_of stack r =
     (case r of
        None \<Rightarrow> None
      | Some (ip, datagram) \<Rightarrow>
          (case Header_Unpack Header_default
              (Some (take MaxRcvStr datagram @ drop (length (take MaxRcvStr datagram)) stack)) of
             Inl x \<Rightarrow> None
           | Inr (n, h) \<Rightarrow> Some h))"

definition heard :: "string \<Rightarrow> string \<Rightarrow> (string \<times> string) option \<Rightarrow> bool" where
  "heard p stack r \<longleftrightarrow> (\<exists>h. header_of stack r = Some h \<and> Header_GetPUuid h = p)"

text \<open>Messages by which a process takes something back.\<close>

definition withdrawn :: "string \<Rightarrow> string \<Rightarrow> (string \<times> string) option \<Rightarrow> bool" where
  "withdrawn p stack r \<longleftrightarrow> (\<exists>h. header_of stack r = Some h \<and> Header_GetPUuid h = p \<and>
     Header_GetType h \<in> {ByeType, UnadvType, UnadvSrvType})"

lemma Recv_cases:
  assumes "RecvDiscoveryUpdate now stack r d = Inr (d', e)"
  obtains (ignored) "d' = d" "e = []" "\<And>p. heard p stack r \<Longrightarrow> p = pUuid d"
  | (dispatched) h ip b where "header_of stack r = Some h" "Header_GetPUuid h \<noteq> pUuid d"
      "dispatch_body ip (Header_GetPUuid h) (Header_GetType h) b
         (d\<lparr>activity := map_put (Header_GetPUuid h) now (activity d)\<rparr>) = Inr (d', e)"
proof (cases r)
  case None
  then show ?thesis
    using assms by (intro ignored) (auto simp: RecvDiscoveryUpdate_def heard_def header_of_def)
next
  case (Some a)
  obtain ip g where r: "r = Some (ip, g)" using Some by (cases a) simp
  let ?m = "take MaxRcvStr g @ drop (length (take MaxRcvStr g)) stack"
  have run: "DispatchDiscoveryMsg now ip ?m d = Inr (d', e)"
    using assms by (simp add: RecvDiscoveryUpdate_def r Let_def)
  then obtain n h where h: "Header_Unpack Header_default (Some ?m) = Inr (n, h)"
    by (auto simp: DispatchDiscoveryMsg_def rbind_eq_Inr_iff)
  then have header: "header_of stack r = Some h" by (simp add: header_of_def r)
  show ?thesis
  proof (cases "Header_GetPUuid h = pUuid d")
    case True
    then show ?thesis
      using run h header by (intro ignored) (auto simp: DispatchDiscoveryMsg_def rbind_eq_Inr_iff heard_def)
  next
    case False
    then show ?thesis
      using run h header dispatched by (auto simp: DispatchDiscoveryMsg_def rbind_eq_Inr_iff)
  qed
qed

lemma rconcat_elem:
  "rconcat f xs = Inr e \<Longrightarrow> x \<in> set e \<Longrightarrow> \<exists>y \<in> set xs. \<exists>e'. f y = Inr e' \<and> x \<in> set e'"
  by (induction xs arbitrary: e) (auto simp: rbind_eq_Inr_iff)

lemma SendMsg_no_call: "SendMsg ty t a c n sc f d = Inr e \<Longrightarrow> Call cb t' a' c' p n' sc' \<notin> set e"
  by (auto dest: SendMsg_only_sends)

lemma on_subscribe_no_call: "on_subscribe k ip t d = Inr e \<Longrightarrow> Call cb t' a c p n sc \<notin> set e"
  by (auto simp: on_subscribe_def SendMsg_no_call split: if_splits option.splits dest!: rconcat_elem)

lemma heartbeat_no_call: "heartbeat d = Inr e \<Longrightarrow> Call cb t' a c p n sc \<notin> set e"
  by (auto simp: heartbeat_def readvertise_def rbind_eq_Inr_iff SendMsg_no_call dest!: rconcat_elem)

text \<open>What a message from process \<open>q\<close> does, by its type.\<close>

lemma dispatch_body_types:
  assumes "dispatch_body ip q ty b d = Inr (d', e)"
  obtains (advertised) k t a c n sc where "on_advertise k ip q t a c n sc d = (d', e)"
  | (requested) k t where "on_subscribe k ip t d = Inr e" "d' = d"
  | (bye) "ty = ByeType" "on_bye q d = (d', e)"
  | (unadvertised) k t a c n sc where "ty \<in> {UnadvType, UnadvSrvType}" "on_unadvertise k ip q t a c n sc d = (d', e)"
  | (nothing) "d = d'" "[] = e"
proof (cases "ty = AdvType \<or> ty = AdvSrvType")
  case True
  then obtain m :: advertise_msg where "on_advertise (if ty = AdvType then Msg else Srv) ip q (adv_topic m) (adv_addr m)
      (adv_ctrl m) (adv_nUuid m) (adv_scope m) d = (d', e)"
    using assms unfolding dispatch_body_def if_P [OF True] rbind_eq_Inr_iff
    by (auto split: prod.splits simp del: if_split)
  then show ?thesis by (rule advertised)
next
  case adv: False
  show ?thesis
  proof (cases "ty = SubType \<or> ty = SubSrvType")
    case True
    then show ?thesis
      using assms requested unfolding dispatch_body_def if_not_P [OF adv] if_P [OF True]
      by (auto simp: rbind_eq_Inr_iff)
  next
    case sub: False
    consider "ty = HeartbeatType" | "ty = ByeType" | "ty = UnadvType \<or> ty = UnadvSrvType"
      | "ty \<notin> {HeartbeatType, ByeType, UnadvType, UnadvSrvType}" by auto
    then show ?thesis
    proof cases
      case 2
      then show ?thesis using assms bye by (simp add: dispatch_body_def msg_type_defs)
    next
      case 3
      then obtain m :: advertise_msg where "on_unadvertise (if ty = UnadvType then Msg else Srv) ip q (adv_topic m)
          (adv_addr m) (adv_ctrl m) (adv_nUuid m) (adv_scope m) d = (d', e)"
        using assms adv sub unfolding dispatch_body_def
        by (auto simp: rbind_eq_Inr_iff msg_type_defs split: prod.splits simp del: if_split)
      with 3 show ?thesis by (intro unadvertised) auto
    qed (rule nothing, use assms adv sub in \<open>simp_all add: dispatch_body_def msg_type_defs\<close>)+
  qed
qed

text \<open>What it does to the records of \<open>p\<close>, and whether it makes \<open>p\<close> gone.\<close>

lemma dispatch_body_effect:
  assumes ok: "discovery_ok d" and run: "dispatch_body ip q ty b d = Inr (d', e)"
    and keep: "p \<noteq> q \<or> ty \<notin> {ByeType, UnadvType, UnadvSrvType}"
  shows "map_of (activity d') p = map_of (activity d) p \<and> set (records k d t p) \<subseteq> set (records k d' t p) \<and>
    (p \<noteq> q \<longrightarrow> records k d' t p = records k d t p) \<and> gone p \<notin> set e"
  using run
proof (cases rule: dispatch_body_types)
  case (advertised k' t' a c n sc)
  then show ?thesis
    using records_add [OF ok, of k k' t' a c q n sc t p]
    by (cases k') (auto simp: on_advertise_def case_prod_unfold Let_def notify_def gone_def split: if_splits)
next
  case (requested k' t')
  then show ?thesis by (simp add: gone_def on_subscribe_no_call)
next
  case bye
  then show ?thesis
    using keep records_forget [OF ok, of k q t p] by (auto simp: on_bye_forget notify_def gone_def)
next
  case (unadvertised k' t' a c n sc)
  then show ?thesis
    using keep records_del_node [OF ok, of k k' t' q n t p]
    by (auto simp: on_unadvertise_def notify_def gone_def split: if_splits)
next
  case nothing
  then show ?thesis by auto
qed

subsection \<open>Runs\<close>

text \<open>The silence interval after an operation.\<close>

fun silence_after :: "discovery_op \<Rightarrow> u32 \<Rightarrow> u32" where
  "silence_after (DoSetSilenceInterval ms) w = ms"
| "silence_after _ w = w"

lemma step_frame:
  assumes "discovery_step to_ms x d = Inr (d', e)"
  shows "pUuid d' = pUuid d" "silenceInterval d' = silence_after x (silenceInterval d)"
proof -
  have "pUuid d' = pUuid d \<and> silenceInterval d' = silence_after x (silenceInterval d)"
  proof (cases x)
    case (DoAdvertise k t a c n sc)
    then show ?thesis using assms by (auto dest: Advertise_state)
  next
    case (DoUnadvertise k t n)
    then show ?thesis using assms by (auto dest: Unadvertise_state)
  next
    case (DoReceive now stack r)
    then have "RecvDiscoveryUpdate now stack r d = Inr (d', e)" using assms by simp
    then show ?thesis
      by (cases rule: Recv_cases) (auto simp: DoReceive dest: dispatch_body_frame)
  next
    case (DoSweep now)
    then have "d' = fold forget (map fst (filter (expired to_ms now d) (activity d))) d"
      using assms sweep_cases by simp
    then show ?thesis by (simp add: DoSweep)
  next
    case (DoSetCallback cb b)
    then show ?thesis using assms by (cases cb) (auto simp: callback_setters)
  qed (use assms in \<open>auto simp: rbind_eq_Inr_iff interval_setters\<close>)
  then show "pUuid d' = pUuid d" "silenceInterval d' = silence_after x (silenceInterval d)" by simp_all
qed

text \<open>An operation by which \<open>p\<close> is not heard, and that is no round of the activity task, leaves all
  that is known of \<open>p\<close> alone.\<close>

fun silent :: "string \<Rightarrow> discovery_op \<Rightarrow> bool" where
  "silent p (DoReceive now stack r) \<longleftrightarrow> \<not> heard p stack r"
| "silent p _ \<longleftrightarrow> True"

definition untouched :: "string \<Rightarrow> discovery \<Rightarrow> discovery \<Rightarrow> bool" where
  "untouched p d d' \<longleftrightarrow> map_of (activity d') p = map_of (activity d) p \<and>
     (\<forall>k t. records k d' t p = records k d t p)"

lemma untouched_refl [simp]: "untouched p d d"
  by (simp add: untouched_def)

lemma untouched_same:
  "activity d' = activity d \<Longrightarrow> infoMsg d' = infoMsg d \<Longrightarrow> infoSrv d' = infoSrv d \<Longrightarrow> untouched p d d'"
proof -
  assume "activity d' = activity d" "infoMsg d' = infoMsg d" "infoSrv d' = infoSrv d"
  moreover from this have "info k d' = info k d" for k by (cases k) simp_all
  ultimately show ?thesis by (simp add: untouched_def records_def)
qed

lemma silent_step:
  assumes ok: "discovery_ok d" and run: "discovery_step to_ms x d = Inr (d', e)" and "p \<noteq> pUuid d"
    and "silent p x" and "\<And>now. x \<noteq> DoSweep now"
  shows "untouched p d d' \<and> gone p \<notin> set e"
proof (cases x)
  case (DoAdvertise k t a c n sc)
  then have adv: "Advertise k t a c n sc d = Inr (d', e)" using run by simp
  then have "gone p \<notin> set e"
    by (auto simp: Advertise_def Let_def rbind_eq_Inr_iff gone_def SendMsg_no_call split: if_splits)
  moreover have "untouched p d d'"
    using Advertise_state [OF adv] records_add [OF ok, of _ k t a c "pUuid d" n sc _ p] assms(3)
    by (auto simp: untouched_def)
  ultimately show ?thesis by simp
next
  case (DoUnadvertise k t n)
  then have un: "Unadvertise k t n d = Inr (d', e)" using run by simp
  then have "gone p \<notin> set e"
    by (auto simp: Unadvertise_def Let_def rbind_eq_Inr_iff gone_def SendMsg_no_call
        split: if_splits option.splits)
  moreover have "untouched p d d'"
    using Unadvertise_state [OF un] records_del_node [OF ok, of _ k t "pUuid d" n _ p] assms(3)
    by (auto simp: untouched_def)
  ultimately show ?thesis by simp
next
  case (DoDiscover t isSrv)
  then have "d' = d" "Discover t isSrv d = Inr e" using run by (auto simp: rbind_eq_Inr_iff)
  then show ?thesis
    by (cases isSrv) (auto simp: Discover_def Let_def rbind_eq_Inr_iff gone_def SendMsg_no_call notify_def
        split: if_splits option.splits)
next
  case (DoReceive now stack r)
  then have "RecvDiscoveryUpdate now stack r d = Inr (d', e)" using run by simp
  then show ?thesis
  proof (cases rule: Recv_cases)
    case ignored
    then show ?thesis by simp
  next
    case (dispatched h ip b)
    let ?q = "Header_GetPUuid h" let ?d = "d\<lparr>activity := map_put ?q now (activity d)\<rparr>"
    have "p \<noteq> ?q" using assms(4) dispatched(1) by (auto simp: DoReceive heard_def)
    moreover have "discovery_ok ?d" using ok dispatched(2) by (rule discovery_ok_activity)
    ultimately show ?thesis
      using dispatch_body_effect [OF _ dispatched(3), of p] by (auto simp: untouched_def)
  qed
next
  case DoHeartbeat
  then show ?thesis using run by (auto simp: rbind_eq_Inr_iff gone_def heartbeat_no_call)
next
  case (DoSetCallback cb b)
  then show ?thesis
    using run by (cases cb) (auto simp: callback_setters intro!: untouched_same)
qed (use run assms(5) in \<open>auto simp: interval_setters intro!: untouched_same\<close>)

text \<open>A round of the activity task.\<close>

lemma sweep_step:
  assumes ok: "discovery_ok d" and run: "activity_sweep to_ms now d = Inr (d', e)"
    and seen: "map_of (activity d) p = Some seen"
  shows "if expired to_ms now d (p, seen) then map_of (activity d') p = None
    else untouched p d d' \<and> gone p \<notin> set e"
proof -
  let ?l = "filter (expired to_ms now d) (activity d)"
  have mem: "(p, x) \<in> set (activity d) \<longleftrightarrow> x = seen" for x
    using map_ok_in_set_iff [OF discovery_okD(2) [OF ok], of p x] seen by auto
  then have ps: "p \<in> set (map fst ?l) \<longleftrightarrow> expired to_ms now d (p, seen)" by (force simp: image_iff)
  have d': "d' = fold forget (map fst ?l) d" using run by (rule sweep_cases)
  have e: "e = map (gone \<circ> fst) ?l"
  proof (cases "disconnectionCb d")
    case True
    then show ?thesis using run sweep_loop_eq [OF True, of to_ms now "activity d"] by (simp add: activity_sweep_def)
  next
    case False
    then have "?l = []"
      using run sweep_loop_unset [OF False, of "activity d" to_ms now]
      by (auto simp: activity_sweep_def filter_empty_conv)
    then show ?thesis using run sweep_loop_none [of to_ms now d "activity d"] by (simp add: activity_sweep_def)
  qed
  have act: "map_of (activity d') p = (if p \<in> set (map fst ?l) then None else map_of (activity d) p)"
    unfolding d' activity_fold_forget
    using map_of_filter_key [of "\<lambda>q. q \<notin> set (map fst ?l)" "activity d" p] by simp
  have "gone p \<in> set e \<longleftrightarrow> p \<in> set (map fst ?l)" unfolding e by (auto simp: gone_def)
  then show ?thesis
    using act ps records_fold_forget [OF ok] by (auto simp: untouched_def d')
qed

text \<open>When \<open>p\<close> was heard last, after an operation.\<close>

fun heard_at :: "string \<Rightarrow> discovery_op \<Rightarrow> int \<Rightarrow> int" where
  "heard_at p (DoReceive now stack r) seen = (if heard p stack r then now else seen)"
| "heard_at p _ seen = seen"

text \<open>An operation is in time when it is no round of the activity task at which the silence of \<open>p\<close>
  has reached the interval, and no message by which \<open>p\<close> takes something back.\<close>

fun in_time :: "string \<Rightarrow> discovery_op \<Rightarrow> u32 \<Rightarrow> int \<Rightarrow> bool" where
  "in_time p (DoSweep now) w seen \<longleftrightarrow> seen \<le> now \<and> now - seen < 1000000 * int (unat w)"
| "in_time p (DoReceive now stack r) w seen \<longleftrightarrow> \<not> withdrawn p stack r"
| "in_time p _ w seen \<longleftrightarrow> True"

fun punctual :: "string \<Rightarrow> u32 \<Rightarrow> int \<Rightarrow> discovery_op list \<Rightarrow> bool" where
  "punctual p w seen [] \<longleftrightarrow> True"
| "punctual p w seen (x # xs) \<longleftrightarrow>
     in_time p x w seen \<and> punctual p (silence_after x w) (heard_at p x seen) xs"

definition exact :: "(int \<Rightarrow> int) \<Rightarrow> bool" where
  "exact to_ms \<longleftrightarrow> (\<forall>x \<ge> 0. \<bar>to_ms x - x div 1000000\<bar> \<le> 1)"

lemma exact_expired:
  assumes "exact to_ms" and "seen \<le> now"
  shows "now - seen < 1000000 * int (unat (silenceInterval d)) \<Longrightarrow> \<not> expired to_ms now d (p, seen)"
    and "now - seen \<ge> 1000000 * (int (unat (silenceInterval d)) + 2) \<Longrightarrow> expired to_ms now d (p, seen)"
  using expired_window [of to_ms seen now d p] assms by (auto simp: exact_def)

lemma in_time_step:
  assumes ok: "discovery_ok d" and run: "discovery_step to_ms x d = Inr (d', e)" and p: "p \<noteq> pUuid d"
    and seen: "map_of (activity d) p = Some seen" and time: "in_time p x (silenceInterval d) seen" and "exact to_ms"
  shows "map_of (activity d') p = Some (heard_at p x seen) \<and>
    set (records k d t p) \<subseteq> set (records k d' t p) \<and> gone p \<notin> set e"
proof (cases "silent p x")
  case True
  show ?thesis
  proof (cases "\<exists>now. x = DoSweep now")
    case True
    then obtain now where x: "x = DoSweep now" ..
    then have "\<not> expired to_ms now d (p, seen)" using time exact_expired(1) [OF assms(6)] by simp
    then show ?thesis using sweep_step [OF ok _ seen, of to_ms now d' e] run seen by (simp add: x untouched_def)
  next
    case False
    have "heard_at p x seen = seen" using \<open>silent p x\<close> by (cases x) simp_all
    then show ?thesis
      using silent_step [OF ok run p True] False seen by (simp add: untouched_def)
  qed
next
  case False
  then obtain now stack r where x: "x = DoReceive now stack r" and h: "heard p stack r" by (cases x) auto
  have "RecvDiscoveryUpdate now stack r d = Inr (d', e)" using run by (simp add: x)
  then show ?thesis
  proof (cases rule: Recv_cases)
    case ignored
    then show ?thesis using p h by blast
  next
    case (dispatched g ip b)
    let ?d = "d\<lparr>activity := map_put (Header_GetPUuid g) now (activity d)\<rparr>"
    have q: "Header_GetPUuid g = p" using h dispatched(1) by (auto simp: heard_def)
    have "discovery_ok ?d" using ok dispatched(2) by (rule discovery_ok_activity)
    moreover have "Header_GetType g \<notin> {ByeType, UnadvType, UnadvSrvType}"
      using time dispatched(1) q by (auto simp: x withdrawn_def)
    ultimately show ?thesis
      using dispatch_body_effect [OF _ dispatched(3), of p k t] q h by (simp add: x)
  qed
qed

lemma punctual_run:
  assumes "exact to_ms"
  shows "discovery_ok d \<Longrightarrow> p \<noteq> pUuid d \<Longrightarrow> map_of (activity d) p = Some seen \<Longrightarrow>
    punctual p (silenceInterval d) seen xs \<Longrightarrow> discovery_run to_ms xs d = Inr (d', e) \<Longrightarrow>
    map_of (activity d') p \<noteq> None \<and> set (records k d t p) \<subseteq> set (records k d' t p) \<and> gone p \<notin> set e"
proof (induction xs arbitrary: d seen e)
  case (Cons x xs)
  obtain d1 e1 e2 where 1: "discovery_step to_ms x d = Inr (d1, e1)" and 2: "discovery_run to_ms xs d1 = Inr (d', e2)"
    and e: "e = e1 @ e2" using Cons.prems(5) by (auto simp: rbind_eq_Inr_iff)
  have step: "map_of (activity d1) p = Some (heard_at p x seen)" "set (records k d t p) \<subseteq> set (records k d1 t p)"
    "gone p \<notin> set e1"
    using in_time_step [OF Cons.prems(1) 1 Cons.prems(2,3) _ assms, of k t] Cons.prems(4) by simp_all
  have "map_of (activity d') p \<noteq> None \<and> set (records k d1 t p) \<subseteq> set (records k d' t p) \<and> gone p \<notin> set e2"
    using Cons.IH [OF discovery_ok_step [OF Cons.prems(1) 1] _ step(1) _ 2] Cons.prems(2,4) step_frame [OF 1]
    by simp
  then show ?case using step(2,3) e by auto
qed auto

lemma silent_run:
  "discovery_ok d \<Longrightarrow> p \<noteq> pUuid d \<Longrightarrow> list_all (silent p) xs \<Longrightarrow> discovery_run to_ms xs d = Inr (d', e) \<Longrightarrow>
    map_of (activity d') p = None \<or> map_of (activity d') p = map_of (activity d) p"
proof (induction xs arbitrary: d e)
  case (Cons x xs)
  obtain d1 e1 e2 where 1: "discovery_step to_ms x d = Inr (d1, e1)" and 2: "discovery_run to_ms xs d1 = Inr (d', e2)"
    using Cons.prems(4) by (auto simp: rbind_eq_Inr_iff)
  have "map_of (activity d1) p = None \<or> map_of (activity d1) p = map_of (activity d) p"
  proof (cases "\<exists>now. x = DoSweep now")
    case True
    then obtain now where "activity_sweep to_ms now d = Inr (d1, e1)" using 1 by auto
    then have "d1 = fold forget (map fst (filter (expired to_ms now d) (activity d))) d" by (rule sweep_cases)
    then show ?thesis
      using map_of_filter_key [of "\<lambda>q. q \<notin> set (map fst (filter (expired to_ms now d) (activity d)))" "activity d" p]
      by (simp add: activity_fold_forget)
  next
    case False
    then show ?thesis
      using silent_step [OF Cons.prems(1) 1 Cons.prems(2)] Cons.prems(3) by (simp add: untouched_def)
  qed
  then show ?case
    using Cons.IH [OF discovery_ok_step [OF Cons.prems(1) 1] _ _ 2] Cons.prems(2,3) step_frame(1) [OF 1] by auto
qed auto

lemma run_append:
  "discovery_run to_ms (xs @ ys) d =
     rbind (discovery_run to_ms xs d) (\<lambda>(d, e). rbind (discovery_run to_ms ys d) (\<lambda>(d, e'). Inr (d, e @ e')))"
proof (induction xs arbitrary: d)
  case Nil
  then show ?case by (cases "discovery_run to_ms ys d") auto
next
  case (Cons x xs)
  then show ?case
    by (cases "discovery_step to_ms x d") (auto simp: case_prod_unfold rbind_assoc)
qed

lemma run_pUuid: "discovery_run to_ms xs d = Inr (d', e) \<Longrightarrow> pUuid d' = pUuid d"
proof (induction xs arbitrary: d e)
  case (Cons x xs)
  then obtain d1 e1 e2 where 1: "discovery_step to_ms x d = Inr (d1, e1)" "discovery_run to_ms xs d1 = Inr (d', e2)"
    by (auto simp: rbind_eq_Inr_iff)
  then show ?case using Cons.IH [OF 1(2)] step_frame(1) [OF 1(1)] by simp
qed simp

lemma run_frame:
  "discovery_run to_ms xs d = Inr (d', e) \<Longrightarrow> \<forall>ms. DoSetSilenceInterval ms \<notin> set xs \<Longrightarrow>
    pUuid d' = pUuid d \<and> silenceInterval d' = silenceInterval d"
proof (induction xs arbitrary: d e)
  case (Cons x xs)
  then obtain d1 e1 e2 where 1: "discovery_step to_ms x d = Inr (d1, e1)" "discovery_run to_ms xs d1 = Inr (d', e2)"
    by (auto simp: rbind_eq_Inr_iff)
  moreover have "silence_after x w = w" for w using Cons.prems(2) by (cases x) auto
  ultimately show ?case using Cons.IH [OF 1(2)] Cons.prems(2) step_frame [OF 1(1)] by simp
qed simp

text \<open>The datagrams of the protocol: who is heard in them, and which withdraw something.\<close>

lemma header_of_wire:
  assumes "readable q m" and "length (dmsg_wire q m) \<le> MaxRcvStr"
  shows "header_of stack (Some (ip, dmsg_wire q m)) = Some (dmsg_header q m)"
proof -
  have "fits (header_wire (dmsg_header q m))"
    using assms(1) fits_append unfolding readable_def dmsg_wire_def by blast
  then have "header_fits (dmsg_header q m)" using fits_header_wire by blast
  then have "str_ok (hdr_pUuid (dmsg_header q m))" by (rule header_fits_str_ok)
  then show ?thesis using assms(2) by (simp add: header_of_def dmsg_wire_def Header_Unpack_wire)
qed

lemma dmsg_header_fields [simp]:
  "hdr_pUuid (dmsg_header q m) = q" "hdr_type (dmsg_header q m) = dmsg_type m"
  by (simp_all add: dmsg_header_def Header_ctor_simps)

fun withdraws :: "dmsg \<Rightarrow> bool" where
  "withdraws (Unadvertised k t a c n sc) \<longleftrightarrow> True"
| "withdraws Bye \<longleftrightarrow> True"
| "withdraws _ \<longleftrightarrow> False"

lemma withdraws_type: "dmsg_type m \<in> {ByeType, UnadvType, UnadvSrvType} \<longleftrightarrow> withdraws m"
proof (cases m)
  case (Advertised k t a c n sc)
  then show ?thesis by (cases k) (simp_all add: msg_type_defs)
next
  case (Unadvertised k t a c n sc)
  then show ?thesis by (cases k) (simp_all add: msg_type_defs)
next
  case (Requested k t)
  then show ?thesis by (cases k) (simp_all add: msg_type_defs)
qed (simp_all add: msg_type_defs)

lemma heard_wire:
  assumes "readable q m" and "length (dmsg_wire q m) \<le> MaxRcvStr"
  shows "heard p stack (Some (ip, dmsg_wire q m)) \<longleftrightarrow> q = p"
    and "withdrawn p stack (Some (ip, dmsg_wire q m)) \<longleftrightarrow> q = p \<and> withdraws m"
  using withdraws_type [of m]
  by (auto simp: heard_def withdrawn_def header_of_wire [OF assms] simp del: insert_iff)

subsection \<open>Properties\<close>

text \<open>C25 Nobody is given up too early.  Take any run of operations in which, at every round of the
  activity task, less than the silence interval of that moment has gone by since a message from \<open>p\<close> was
  last received, whatever else is received, asked or set in between.  Then no round forgets \<open>p\<close>: as long as
  \<open>p\<close> itself withdraws nothing, all records of \<open>p\<close> that were there at the beginning are there at the end,
  and the client has never been told that \<open>p\<close> is gone.  So with the default intervals, a heartbeat each
  second and a silence of three, a lost heartbeat does no harm.\<close>
theorem punctual_process_kept:
  assumes "discovery_ok d" and "p \<noteq> pUuid d" and "map_of (activity d) p = Some seen"
    and "punctual p (silenceInterval d) seen xs" and "discovery_run to_ms xs d = Inr (d', e)" and "exact to_ms"
  shows "(\<forall>k t. set (records k d t p) \<subseteq> set (records k d' t p)) \<and> map_of (activity d') p \<noteq> None \<and> gone p \<notin> set e"
  using punctual_run [OF assms(6,1-5)] by blast

lemma punctual_process_kept_witness:
  "\<exists>d' e. discovery_run (\<lambda>x. x div 1000000)
      [DoReceive 2000000000 '''' (Some (''10.0.0.9'', dmsg_wire ''B'' Heartbeat)), DoSweep 4999999999] disc_ab = Inr (d', e) \<and>
    rec_b \<in> set (records Msg d' ''@/b'' ''B'') \<and> gone ''B'' \<notin> set e"
proof -
  let ?b = "Some (''10.0.0.9'', dmsg_wire ''B'' Heartbeat)"
  let ?d = "disc_ab\<lparr>activity := map_put ''B'' 2000000000 (activity disc_ab)\<rparr>"
  let ?xs = "[DoReceive 2000000000 '''' ?b, DoSweep 4999999999]"
  have fits: "readable ''B'' Heartbeat" "length (dmsg_wire ''B'' Heartbeat) \<le> MaxRcvStr"
    by (simp_all add: readable_def size_simps)
  have "RecvDiscoveryUpdate 2000000000 '''' ?b disc_ab = Inr (?d, [])"
    using fits(2) Dispatch_dmsg_wire [OF fits(1), where r = "[]"] by (simp add: RecvDiscoveryUpdate_def deliver_def)
  moreover have "activity_sweep (\<lambda>x. x div 1000000) 4999999999 ?d = Inr (?d, [])"
    by (simp add: activity_sweep_def activity_disc_ab)
  ultimately have run: "discovery_run (\<lambda>x. x div 1000000) ?xs disc_ab = Inr (?d, [])" by simp
  have "punctual ''B'' (silenceInterval disc_ab) 5 ?xs"
    by (simp add: heard_wire [OF fits] activity_disc_ab)
  from punctual_process_kept [OF disc_ab_ok _ _ this run] have "set (records Msg disc_ab ''@/b'' ''B'') \<subseteq>
      set (records Msg ?d ''@/b'' ''B'') \<and> gone ''B'' \<notin> set []"
    by (simp add: activity_disc_ab exact_def)
  then show ?thesis using run by (intro exI [of _ ?d] exI [of _ "[]"]) (simp add: records_disc_ab)
qed

text \<open>C24 Nobody is remembered for too long.  If no message from \<open>p\<close> is received in a run, and one of
  its rounds of the activity task comes two milliseconds or more after the silence interval is over, then at
  the end of the run, whatever comes before and after this round, nothing is left of \<open>p\<close>: no record of
  any topic or service, and no entry in the table of activity.\<close>
theorem silent_process_forgotten:
  assumes "discovery_ok d" and "p \<noteq> pUuid d" and "map_of (activity d) p = Some seen" and "seen \<le> now"
    and "now - seen \<ge> 1000000 * (int (unat (silenceInterval d)) + 2)"
    and "list_all (silent p) (xs @ ys)" and "\<forall>ms. DoSetSilenceInterval ms \<notin> set xs"
    and "discovery_run to_ms (xs @ DoSweep now # ys) d = Inr (d', e)" and "exact to_ms"
  shows "records k d' t p = [] \<and> map_of (activity d') p = None"
proof -
  obtain d1 e1 d2 e2 e3 where 1: "discovery_run to_ms xs d = Inr (d1, e1)"
    and 2: "activity_sweep to_ms now d1 = Inr (d2, e2)" and 3: "discovery_run to_ms ys d2 = Inr (d', e3)"
    using assms(8) by (auto simp: run_append rbind_eq_Inr_iff)
  note ok1 = discovery_ok_run [OF assms(1) 1] and ok2 = discovery_ok_sweep [OF discovery_ok_run [OF assms(1) 1] 2]
  have same: "pUuid d1 = pUuid d" "silenceInterval d1 = silenceInterval d" using run_frame [OF 1 assms(7)] by simp_all
  have "map_of (activity d2) p = None"
  proof (cases "map_of (activity d1) p")
    case None
    then show ?thesis
      using map_of_filter_key [of "\<lambda>q. q \<notin> set (map fst (filter (expired to_ms now d1) (activity d1)))" "activity d1" p]
      by (simp add: sweep_cases [OF 2] activity_fold_forget)
  next
    case (Some x)
    then have "x = seen" using silent_run [OF assms(1,2) _ 1] assms(3,6) by simp
    then show ?thesis
      using sweep_step [OF ok1 2 Some] exact_expired(2) [OF assms(9,4)] assms(5) same(2) by simp
  qed
  moreover have p: "p \<noteq> pUuid d2" using assms(2) same(1) step_frame(1) [of to_ms "DoSweep now" d1 d2 e2] 2 by simp
  ultimately have none: "map_of (activity d') p = None" using silent_run [OF ok2 p _ 3] assms(6) by simp
  have "p \<noteq> pUuid d'" using p run_pUuid [OF 3] by simp
  then show ?thesis using none discovery_okD(4) [OF discovery_ok_run [OF ok2 3]] by blast
qed

lemma silent_process_forgotten_witness:
  "\<exists>d' e. discovery_run (\<lambda>x. x div 1000000) [DoSweep 2000000000, DoSweep 3002000005] disc_ab = Inr (d', e) \<and>
    records Msg d' ''@/b'' ''B'' = [] \<and> map_of (activity d') ''B'' = None"
proof -
  have 1: "activity_sweep (\<lambda>x. x div 1000000) 2000000000 disc_ab = Inr (disc_ab, [])"
    by (simp add: activity_sweep_def activity_disc_ab)
  obtain d' e where 2: "activity_sweep (\<lambda>x. x div 1000000) 3002000005 disc_ab = Inr (d', e)"
    using activity_sweep_expires [OF disc_ab_ok activity_disc_ab(3)] by blast
  then have run: "discovery_run (\<lambda>x. x div 1000000) ([DoSweep 2000000000] @ DoSweep 3002000005 # []) disc_ab = Inr (d', e)"
    using 1 by simp
  have "records Msg d' ''@/b'' ''B'' = [] \<and> map_of (activity d') ''B'' = None"
    by (rule silent_process_forgotten [where seen = 5, OF disc_ab_ok _ _ _ _ _ _ run]) (simp_all add: activity_disc_ab exact_def)
  then show ?thesis using run by auto
qed

end
