(* ===== verification/SystemNodes.thy ===== *)
theory SystemNodes
  imports SystemTheorems Expiry
begin

text \<open>
  Nodes over their lives.  What a process offers and whom it calls belongs to nodes that exist and have asked
  for it; and the destructor of a node, a single definition of \<^verbatim>\<open>Node\<close>, is a run of the system, at the end
  of which the process is rid of the node, except in one respect.
\<close>

subsection \<open>Entries belong to nodes\<close>

text \<open>The entries of process \<open>p\<close> under the UUIDs of nodes: its own records of topics, its subscriptions
  and its service handlers.\<close>

definition owned :: "string \<Rightarrow> (string \<Rightarrow> node option) \<Rightarrow> 'm node_shared \<Rightarrow> bool" where
  "owned p nds s \<longleftrightarrow>
     (\<forall>t. \<forall>i \<in> set (records Msg (disc s) t p). \<exists>nd. nds (nUuid i) = Some nd \<and> t \<in> set (topicsAdvertised nd)) \<and>
     (\<forall>t u hu h. GetHandler t u hu (localSubscriptions s) = Some h \<longrightarrow>
        (\<exists>nd. nds u = Some nd \<and> t \<in> set (topicsSubscribed nd))) \<and>
     (\<forall>t u hu h. GetHandler t u hu (repliers s) = Some h \<longrightarrow>
        (\<exists>nd. nds u = Some nd \<and> t \<in> set (srvsAdvertised nd)))"

lemma ownedD:
  assumes "owned p nds s"
  shows "i \<in> set (records Msg (disc s) t p) \<Longrightarrow> \<exists>nd. nds (nUuid i) = Some nd \<and> t \<in> set (topicsAdvertised nd)"
    and "GetHandler t u hu (localSubscriptions s) = Some h \<Longrightarrow> \<exists>nd. nds u = Some nd \<and> t \<in> set (topicsSubscribed nd)"
    and "GetHandler t u hu (repliers s) = Some h' \<Longrightarrow> \<exists>nd. nds u = Some nd \<and> t \<in> set (srvsAdvertised nd)"
  using assms unfolding owned_def by blast+

lemma owned_frame:
  "owned p nds s \<Longrightarrow> (\<And>t. records Msg (disc s') t p = records Msg (disc s) t p) \<Longrightarrow>
     localSubscriptions s' = localSubscriptions s \<Longrightarrow> repliers s' = repliers s \<Longrightarrow> owned p nds s'"
  by (simp add: owned_def)

text \<open>A node changes, but lists at least what it did before.\<close>

lemma owned_nodes:
  assumes "owned p nds s" and "nds v = Some nd"
    and "set (topicsAdvertised nd) \<subseteq> set (topicsAdvertised nd')" "set (topicsSubscribed nd) \<subseteq> set (topicsSubscribed nd')"
      "set (srvsAdvertised nd) \<subseteq> set (srvsAdvertised nd')"
  shows "owned p (nds(v \<mapsto> nd')) s"
  using assms unfolding owned_def by (auto split: if_splits; force)

subsection \<open>What the discovery and its callbacks change\<close>

definition same_tables :: "'m node_shared \<Rightarrow> 'm node_shared \<Rightarrow> bool" where
  "same_tables s s' \<longleftrightarrow> localSubscriptions s' = localSubscriptions s \<and> repliers s' = repliers s"

lemma same_tables_simps [simp]:
  "same_tables s s" "same_tables s (s'\<lparr>disc := d\<rparr>) = same_tables s s'" "same_tables (s\<lparr>disc := d\<rparr>) s' = same_tables s s'"
  "same_tables s (s'\<lparr>connections := c\<rparr>) = same_tables s s'" "same_tables s (s'\<lparr>srvConnections := sc\<rparr>) = same_tables s s'"
  "same_tables (s\<lparr>srvConnections := sc\<rparr>) s' = same_tables s s'"
  "same_tables s (s'\<lparr>remoteSubscribers := c\<rparr>) = same_tables s s'" "same_tables s (s'\<lparr>heap := h\<rparr>) = same_tables s s'"
  "same_tables s (s'\<lparr>requests := q\<rparr>) = same_tables s s'"
  by (simp_all add: same_tables_def)

lemma same_tables_trans: "same_tables s s' \<Longrightarrow> same_tables s' s'' \<Longrightarrow> same_tables s s''"
  by (simp add: same_tables_def)

lemma tables_SendPending: "SendPendingRemoteReqs fails t s = Inr (s', e) \<Longrightarrow> same_tables s s'"
proof -
  assume "SendPendingRemoteReqs fails t s = Inr (s', e)"
  then have "s' = s \<or> (\<exists>i rs. s' = fst (send_pending fails t i rs s))"
    by (auto simp: SendPendingRemoteReqs_def split: option.splits list.splits prod.splits) (metis fst_conv)
  moreover have "same_tables s (fst (send_pending fails t i rs s))" for i rs
    using send_pending_fields [of fails t i rs s] by (elim exE) simp
  ultimately show ?thesis by auto
qed

lemma tables_handle_event: "handle_event fails x s = Inr (s', e) \<Longrightarrow> same_tables s s'"
proof (cases x)
  case (Call cb t a c p n sc)
  assume run: "handle_event fails x s = Inr (s', e)"
  have "same_tables s (fst (OnNewConnection fails t a c p n sc s))" by (simp add: OnNewConnection_def Let_def)
  moreover have "same_tables s s'" if "OnNewDisconnection fails t p n s = Inr (s', e)"
    using that by (auto simp: OnNewDisconnection_def Let_def split: if_splits option.splits)
  moreover have "same_tables s s'" if "OnNewSrvConnection fails t a s = Inr (s', e)"
    using that by (auto simp: OnNewSrvConnection_def Let_def rbind_eq_Inr_iff split: if_splits dest!: tables_SendPending)
  ultimately show ?thesis using run Call by (cases cb) (auto simp: OnNewSrvDisconnection_def)
qed simp

lemma tables_handle_events: "handle_events fails ev s = Inr (s', e) \<Longrightarrow> same_tables s s'"
  by (induction ev arbitrary: s e) (auto simp: rbind_eq_Inr_iff dest!: tables_handle_event intro: same_tables_trans)

lemma tables_with_discovery: "with_discovery fails f s = Inr (s', e) \<Longrightarrow> same_tables s s'"
  by (auto simp: with_discovery_def rbind_eq_Inr_iff dest!: tables_handle_events)

lemma tables_file_request: "file_request fails t h nd s = Inr (s', e) \<Longrightarrow> same_tables s s'"
  by (auto simp: file_request_def Let_def same_tables_def
      dest!: tables_with_discovery tables_SendPending split: option.splits)

lemma tables_receptions:
  "RecvControlUpdate control s = Inr s' \<Longrightarrow> same_tables s s'"
  "RecvSrvRequest fails result0 req s = Inr (s', e) \<Longrightarrow> same_tables s s'"
  "RecvSrvResponse rep s = (s', e) \<Longrightarrow> same_tables s s'"
  by (auto simp: RecvControlUpdate_def RecvSrvRequest_def RecvSrvResponse_def rbind_eq_Inr_iff Let_def
      case_prod_unfold split: option.splits if_splits)

text \<open>The tasks and receptions of the discovery leave the records of the process itself alone.\<close>

lemma own_records_kept:
  assumes "discovery_ok d" and "discovery_step to_ms x d = Inr (d', e)"
    and "x = DoReceive now stack r \<or> x = DoSweep now \<or> x = DoHeartbeat"
  shows "records k d' t (pUuid d) = records k d t (pUuid d)"
  using assms(3)
proof (elim disjE)
  assume "x = DoReceive now stack r"
  then have "RecvDiscoveryUpdate now stack r d = Inr (d', e)" using assms(2) by simp
  then show ?thesis
  proof (cases rule: Recv_cases)
    case (dispatched h ip b)
    have "discovery_ok (d\<lparr>activity := map_put (Header_GetPUuid h) now (activity d)\<rparr>)"
      using assms(1) dispatched(2) by (rule discovery_ok_activity)
    from dispatch_body_effect [OF this dispatched(3), of "pUuid d" k t] dispatched(2) show ?thesis by auto
  qed simp
next
  assume "x = DoSweep now"
  then have "d' = fold forget (map fst (filter (expired to_ms now d) (activity d))) d"
    using assms(2) by (simp add: sweep_cases)
  moreover have "pUuid d \<notin> set (map fst (filter (expired to_ms now d) (activity d)))"
    using discovery_okD(3) [OF assms(1)] by (auto simp: map_of_eq_None_iff)
  ultimately show ?thesis by (simp add: records_fold_forget [OF assms(1)])
qed (use assms(2) in \<open>auto simp: rbind_eq_Inr_iff\<close>)

lemma owned_discovery:
  assumes "owned p nds s" and "discovery_ok (disc s)" "pUuid (disc s) = p"
    and "with_discovery fails (discovery_step to_ms x) s = Inr (s', e)"
    and "x = DoReceive now stack r \<or> x = DoSweep now \<or> x = DoHeartbeat"
  shows "owned p nds s'"
proof -
  obtain ev where "discovery_step to_ms x (disc s) = Inr (disc s', ev)"
    using with_discovery_disc [OF assms(4)] by blast
  then show ?thesis
    using owned_frame [OF assms(1)] own_records_kept [OF assms(2) _ assms(5)] tables_with_discovery [OF assms(4)] assms(3)
    by (simp add: same_tables_def)
qed

subsection \<open>The operations of nodes\<close>

lemma owned_advertise:
  assumes own: "owned p nds s" and nd: "nds v = Some nd" and d: "discovery_ok (disc s)" "pUuid (disc s) = p"
    and run: "Advertise Msg t a c v sc (disc s) = Inr (disc s', ev)" and tabs: "same_tables s s'"
  shows "owned p (nds(v \<mapsto> nd\<lparr>topicsAdvertised := set_insert t (topicsAdvertised nd)\<rparr>)) s'"
proof -
  let ?nds = "nds(v \<mapsto> nd\<lparr>topicsAdvertised := set_insert t (topicsAdvertised nd)\<rparr>)"
  have old: "owned p ?nds s" by (rule owned_nodes [OF own nd]) auto
  have "\<exists>n. ?nds (nUuid i) = Some n \<and> t' \<in> set (topicsAdvertised n)" if "i \<in> set (records Msg (disc s') t' p)" for i t'
  proof -
    have "i \<in> set (records Msg (disc s) t' p) \<or> t' = t \<and> nUuid i = v"
      using that Advertise_state [OF run] records_add [OF d(1), of Msg Msg t a c p v sc t' p] d(2)
      by (auto split: if_splits)
    then show ?thesis
    proof
      assume "i \<in> set (records Msg (disc s) t' p)"
      then show ?thesis by (rule ownedD(1) [OF old])
    qed simp
  qed
  then show ?thesis using old tabs by (simp add: owned_def same_tables_def)
qed

text \<open>Topic \<open>t\<close> is removed from the list of a node that has nothing of it left.\<close>

lemma owned_unadvertise:
  assumes own: "owned p nds s" and nd: "nds v = Some nd" and d: "discovery_ok (disc s)" "pUuid (disc s) = p"
    and run: "Unadvertise Msg t v (disc s) = Inr (disc s', ev)" and tabs: "same_tables s s'"
  shows "owned p (nds(v \<mapsto> nd\<lparr>topicsAdvertised := removeAll t (topicsAdvertised nd)\<rparr>)) s'" and "owned p nds s'"
proof -
  let ?nds = "nds(v \<mapsto> nd\<lparr>topicsAdvertised := removeAll t (topicsAdvertised nd)\<rparr>)"
  have rec: "i \<in> set (records Msg (disc s') t' p) \<longleftrightarrow> i \<in> set (records Msg (disc s) t' p) \<and> \<not> (t' = t \<and> nUuid i = v)" for i t'
    using Unadvertise_removes [OF d(1) run, of Msg t' p] d(2) by auto
  have "\<exists>n. ?nds (nUuid i) = Some n \<and> t' \<in> set (topicsAdvertised n)" if "i \<in> set (records Msg (disc s') t' p)" for i t'
    using that ownedD(1) [OF own, of i t'] nd unfolding rec by auto
  moreover have "\<exists>n. ?nds u = Some n \<and> t' \<in> set (topicsSubscribed n)"
    if "GetHandler t' u hu (localSubscriptions s) = Some h" for t' u hu h
    using ownedD(2) [OF own that] nd by auto
  moreover have "\<exists>n. ?nds u = Some n \<and> t' \<in> set (srvsAdvertised n)"
    if "GetHandler t' u hu (repliers s) = Some h" for t' u hu h
    using ownedD(3) [OF own that] nd by auto
  ultimately show "owned p ?nds s'" using tabs by (simp add: owned_def same_tables_def)
  show "owned p nds s'" using ownedD [OF own] rec tabs unfolding owned_def same_tables_def by metis
qed

text \<open>Handlers come with the operation that lists them, and go with the one that no longer does.\<close>

lemma owned_subscribe:
  assumes own: "owned p nds s" and nd: "nds v = Some nd" and ok: "subscriptions_ok (localSubscriptions s)"
  shows "owned p (nds(v \<mapsto> nd\<lparr>topicsSubscribed := set_insert t (topicsSubscribed nd)\<rparr>))
    (s\<lparr>localSubscriptions := AddHandler sh_hUuid t v h (localSubscriptions s)\<rparr>)"
proof -
  let ?nds = "nds(v \<mapsto> nd\<lparr>topicsSubscribed := set_insert t (topicsSubscribed nd)\<rparr>)"
  have old: "owned p ?nds s" by (rule owned_nodes [OF own nd]) auto
  have "\<exists>n. ?nds u = Some n \<and> t' \<in> set (topicsSubscribed n)"
    if "GetHandler t' u hu (AddHandler sh_hUuid t v h (localSubscriptions s)) = Some h'" for t' u hu h'
  proof -
    have "GetHandler t' u hu (localSubscriptions s) = Some h' \<or> t' = t \<and> u = v"
      using that ok by (auto simp: subscriptions_ok_def GetHandler_at hs.at_add split: if_splits)
    then show ?thesis
    proof
      assume "GetHandler t' u hu (localSubscriptions s) = Some h'"
      then show ?thesis by (rule ownedD(2) [OF old])
    qed simp
  qed
  then show ?thesis using old by (simp add: owned_def)
qed

lemma owned_offer:
  assumes own: "owned p nds s" and nd: "nds v = Some nd" and ok: "repliers_ok (repliers s)"
  shows "owned p (nds(v \<mapsto> nd\<lparr>srvsAdvertised := set_insert t (srvsAdvertised nd)\<rparr>))
    (s\<lparr>repliers := AddHandler rh_hUuid t v h (repliers s)\<rparr>)"
proof -
  let ?nds = "nds(v \<mapsto> nd\<lparr>srvsAdvertised := set_insert t (srvsAdvertised nd)\<rparr>)"
  have old: "owned p ?nds s" by (rule owned_nodes [OF own nd]) auto
  have "\<exists>n. ?nds u = Some n \<and> t' \<in> set (srvsAdvertised n)"
    if "GetHandler t' u hu (AddHandler rh_hUuid t v h (repliers s)) = Some h'" for t' u hu h'
  proof -
    have "GetHandler t' u hu (repliers s) = Some h' \<or> t' = t \<and> u = v"
      using that ok by (auto simp: repliers_ok_def GetHandler_at hs.at_add split: if_splits)
    then show ?thesis
    proof
      assume "GetHandler t' u hu (repliers s) = Some h'"
      then show ?thesis by (rule ownedD(3) [OF old])
    qed simp
  qed
  then show ?thesis using old by (simp add: owned_def)
qed

lemma owned_unsubscribe:
  assumes own: "owned p nds s" and nd: "nds v = Some nd" and ok: "subscriptions_ok (localSubscriptions s)"
  shows "owned p (nds(v \<mapsto> nd\<lparr>topicsSubscribed := removeAll t (topicsSubscribed nd)\<rparr>))
    (s\<lparr>localSubscriptions := snd (RemoveHandlersForNode t v (localSubscriptions s))\<rparr>)"
proof -
  let ?nds = "nds(v \<mapsto> nd\<lparr>topicsSubscribed := removeAll t (topicsSubscribed nd)\<rparr>)"
  have "\<exists>n. ?nds u = Some n \<and> t' \<in> set (topicsSubscribed n)"
    if "GetHandler t' u hu (snd (RemoveHandlersForNode t v (localSubscriptions s))) = Some h'" for t' u hu h'
  proof -
    have "GetHandler t' u hu (localSubscriptions s) = Some h'" "\<not> (t' = t \<and> u = v)"
      using that ok by (auto simp: subscriptions_ok_def GetHandler_at hs.at_remove_node split: if_splits)
    then show ?thesis using ownedD(2) [OF own, of t' u hu h'] nd by auto
  qed
  moreover have "\<exists>n. ?nds (nUuid i) = Some n \<and> t' \<in> set (topicsAdvertised n)"
    if "i \<in> set (records Msg (disc s) t' p)" for i t' using ownedD(1) [OF own that] nd by auto
  moreover have "\<exists>n. ?nds u = Some n \<and> t' \<in> set (srvsAdvertised n)"
    if "GetHandler t' u hu (repliers s) = Some h'" for t' u hu h' using ownedD(3) [OF own that] nd by auto
  ultimately show ?thesis by (simp add: owned_def)
qed

lemma owned_withdraw:
  assumes own: "owned p nds s" and nd: "nds v = Some nd" and ok: "repliers_ok (repliers s)"
  shows "owned p (nds(v \<mapsto> nd\<lparr>srvsAdvertised := removeAll t (srvsAdvertised nd)\<rparr>))
    (s\<lparr>repliers := snd (RemoveHandlersForNode t v (repliers s))\<rparr>)"
proof -
  let ?nds = "nds(v \<mapsto> nd\<lparr>srvsAdvertised := removeAll t (srvsAdvertised nd)\<rparr>)"
  have "\<exists>n. ?nds u = Some n \<and> t' \<in> set (srvsAdvertised n)"
    if "GetHandler t' u hu (snd (RemoveHandlersForNode t v (repliers s))) = Some h'" for t' u hu h'
  proof -
    have "GetHandler t' u hu (repliers s) = Some h'" "\<not> (t' = t \<and> u = v)"
      using that ok by (auto simp: repliers_ok_def GetHandler_at hs.at_remove_node split: if_splits)
    then show ?thesis using ownedD(3) [OF own, of t' u hu h'] nd by auto
  qed
  moreover have "\<exists>n. ?nds (nUuid i) = Some n \<and> t' \<in> set (topicsAdvertised n)"
    if "i \<in> set (records Msg (disc s) t' p)" for i t' using ownedD(1) [OF own that] nd by auto
  moreover have "\<exists>n. ?nds u = Some n \<and> t' \<in> set (topicsSubscribed n)"
    if "GetHandler t' u hu (localSubscriptions s) = Some h'" for t' u hu h' using ownedD(2) [OF own that] nd by auto
  ultimately show ?thesis by (simp add: owned_def)
qed

text \<open>Every operation keeps the entries to the nodes.\<close>

lemma discovery_call:
  assumes "with_discovery fails f s = Inr (s', e)"
  obtains ev where "f (disc s) = Inr (disc s', ev)" and "same_tables s s'"
  using with_discovery_disc [OF assms] tables_with_discovery [OF assms] by blast

lemma owned_asking:
  assumes "owned p nds s" and "with_discovery fails (\<lambda>d. rbind (Discover t b d) (\<lambda>e. Inr (d, e))) s = Inr (s', e)"
  shows "owned p nds s'"
  using assms(2)
proof (rule discovery_call)
  fix ev assume "rbind (Discover t b (disc s)) (\<lambda>e. Inr (disc s, e)) = Inr (disc s', ev)" "same_tables s s'"
  then show ?thesis by (intro owned_frame [OF assms(1)]) (auto simp: rbind_eq_Inr_iff same_tables_def)
qed

lemma owned_requesting:
  assumes "owned p nds s" and "file_request fails t h nd s = Inr (s', e)"
  shows "owned p nds s'"
proof -
  have "disc s' = disc s"
    using file_request_serves [OF assms(2), of undefined undefined] by (auto simp: serves_def rbind_eq_Inr_iff)
  then show ?thesis using tables_file_request [OF assms(2)] by (intro owned_frame [OF assms(1)]) (auto simp: same_tables_def)
qed

lemma owned_node_step:
  assumes own: "owned p nds s" and nd: "nds u = Some nd" "nd_nUuid nd = u" and ok: "process_ok s" "ns_pUuid s = p"
    and run: "node_step fails op nd s = Inr (nd', s', e)"
  shows "owned p (nds(u \<mapsto> nd')) s'"
proof (cases "fqn nd (op_topic op)")
  case None
  have "nds(u \<mapsto> nd) = nds" using nd(1) by (simp add: fun_upd_idem)
  then show ?thesis using node_step_invalid [OF run None] own by simp
next
  case (Some t)
  note d = process_okD(1) [OF ok(1)]
  have d': "pUuid (disc s) = p" using process_okD(2) [OF ok(1)] ok(2) by simp
  have same: "nds(u \<mapsto> nd) = nds" using nd(1) by (simp add: fun_upd_idem)
  note subs_ok = process_okD(7) [OF ok(1)] and reps_ok = process_okD(8) [OF ok(1)]
  show ?thesis
  proof (cases op)
    case (OpAdvertise topic sc)
    then have "nd' = nd\<lparr>topicsAdvertised := set_insert t (topicsAdvertised nd)\<rparr>" and
      call: "with_discovery fails (Advertise Msg t (myAddress s) (myControlAddress s) u sc) s = Inr (s', e)"
      using run Some nd(2) by (auto simp: without_result_def Node_Advertise_def Let_def rbind_eq_Inr_iff)
    then show ?thesis using owned_advertise [OF own nd(1) d d'] by (auto elim: discovery_call)
  next
    case (OpUnadvertise topic)
    then have "nd' = nd\<lparr>topicsAdvertised := removeAll t (topicsAdvertised nd)\<rparr>" and
      call: "with_discovery fails (Unadvertise Msg t u) s = Inr (s', e)"
      using run Some nd(2) by (auto simp: without_result_def Node_Unadvertise_def Let_def rbind_eq_Inr_iff)
    then show ?thesis using owned_unadvertise(1) [OF own nd(1) d d'] by (auto elim: discovery_call)
  next
    case (OpSubscribe topic hu create cb)
    then show ?thesis
      using run Some nd(2) owned_asking [OF owned_subscribe [OF own nd(1) subs_ok]]
      by (auto simp: without_result_def Node_Subscribe_def Let_def rbind_eq_Inr_iff)
  next
    case (OpUnsubscribe topic)
    then show ?thesis
      using run Some nd(2) owned_unsubscribe [OF own nd(1) subs_ok]
      by (auto simp: without_result_def Node_Unsubscribe_def Let_def rbind_eq_Inr_iff split: if_splits option.splits)
  next
    case (OpPublish topic msg serialize)
    then show ?thesis using run own same by auto
  next
    case (OpAdvertiseSrv topic hu create new serialize cb sc)
    let ?h = "rep_SetCallback cb (RepHandler_ctor hu create new serialize)"
    let ?s = "s\<lparr>repliers := AddHandler rh_hUuid t u ?h (repliers s)\<rparr>"
    from OpAdvertiseSrv have n: "nd' = nd\<lparr>srvsAdvertised := set_insert t (srvsAdvertised nd)\<rparr>" and
      call: "with_discovery fails (Advertise Srv t (myReplierAddress s) (replierId s) u sc) ?s = Inr (s', e)"
      using run Some nd(2) by (auto simp: without_result_def Node_AdvertiseSrv_def Let_def rbind_eq_Inr_iff)
    from call obtain ev where ev: "Advertise Srv t (myReplierAddress s) (replierId s) u sc (disc s) = Inr (disc s', ev)"
      and tabs: "same_tables ?s s'" by (auto elim: discovery_call)
    have "records Msg (disc s') t' p = records Msg (disc s) t' p" for t'
      using Advertise_state [OF ev] records_add [OF d, of Msg Srv t _ _ p u sc t' p] d' by simp
    then show ?thesis unfolding n using tabs
      by (intro owned_frame [OF owned_offer [OF own nd(1) reps_ok]]) (auto simp: same_tables_def)
  next
    case (OpUnadvertiseSrv topic)
    let ?s = "s\<lparr>repliers := snd (RemoveHandlersForNode t u (repliers s))\<rparr>"
    let ?nd = "nd\<lparr>srvsAdvertised := removeAll t (srvsAdvertised nd)\<rparr>"
    from OpUnadvertiseSrv have n: "nd' = ?nd" and call: "with_discovery fails (Unadvertise Msg t u) ?s = Inr (s', e)"
      using run Some nd(2) by (auto simp: without_result_def Node_UnadvertiseSrv_def Let_def rbind_eq_Inr_iff)
    from call obtain ev where "Unadvertise Msg t u (disc ?s) = Inr (disc s', ev)" and "same_tables ?s s'"
      by (rule discovery_call)
    then show ?thesis unfolding n using d d'
      by (intro owned_unadvertise(2) [OF owned_withdraw [OF own nd(1) reps_ok]]) auto
  next
    case (OpRequest topic msg hu create serialize new cb rep0 result0)
    then show ?thesis
      using run Some same own
      by (auto simp: without_result_def Node_Request_def Let_def rbind_eq_Inr_iff case_prod_unfold
          split: option.splits intro: owned_requesting)
  next
    case (OpRequestWait topic msg hu create serialize new rep0 result0)
    then show ?thesis
      using run Some same own
      by (auto simp: Node_Request_start_def Let_def rbind_eq_Inr_iff case_prod_unfold
          split: option.splits intro: owned_requesting)
  qed
qed

text \<open>Whatever the order of the steps, what a process has on file belongs to its nodes.\<close>

definition all_owned :: "'m system \<Rightarrow> bool" where
  "all_owned S \<longleftrightarrow> (\<forall>p m. members S p = Some m \<longrightarrow> owned p (nodes m) (shared m))"

lemma all_ownedD: "all_owned S \<Longrightarrow> members S p = Some m \<Longrightarrow> owned p (nodes m) (shared m)"
  by (simp add: all_owned_def)

lemma all_owned_evolve:
  "all_owned S \<Longrightarrow> (\<And>m. mo = Some m \<Longrightarrow> owned p (nodes m) (shared m)) \<Longrightarrow> all_owned (evolve p mo e S)"
  by (simp add: all_owned_def)

lemma owned_start:
  "owned p (\<lambda>_. None) (NodeShared_ctor p host a_pub a_ctrl a_req a_rep id_resp id_rep)"
  by (simp add: owned_def NodeShared_ctor_def GetHandler_def vec_def records_def
      SetConnectionsCb_def SetDisconnectionsCb_def SetConnectionsSrvCb_def SetDisconnectionsSrvCb_def Discovery_ctor_def)

lemma owned_new_node: "owned p nds s \<Longrightarrow> nds u = None \<Longrightarrow> owned p (nds(u \<mapsto> nd)) s"
  unfolding owned_def by (metis fun_upd_other option.distinct(1))

lemma owned_end_node:
  assumes "owned p nds s" and "nds u = Some nd"
    and "topicsSubscribed nd = []" "topicsAdvertised nd = []" "srvsAdvertised nd = []"
  shows "owned p (nds(u := None)) s"
proof -
  have gone: "\<exists>n. (nds(u := None)) v = Some n \<and> t \<in> set (sel n)"
    if "\<exists>n. nds v = Some n \<and> t \<in> set (sel n)" "sel nd = []" for v t and sel :: "node \<Rightarrow> string list"
    using that assms(2) by auto
  show ?thesis using assms(1,3-5) gone unfolding owned_def by meson
qed

lemma all_owned_step:
  assumes "sys_step host to_ms deliverable S S'" and inv: "sys_inv S" and own: "all_owned S"
  shows "all_owned S'"
  using assms(1)
proof cases
  case (start p a_pub a_ctrl a_req a_rep id_resp id_rep)
  then show ?thesis using owned_start by (auto intro!: all_owned_evolve own)
next
  case (new_node p m u nd env u0 part ns)
  then show ?thesis using owned_new_node [OF all_ownedD [OF own new_node(2)]] by (auto intro!: all_owned_evolve own)
next
  case (node p m u nd op fails nd' s' e)
  note m = member_invD [OF sys_invD(1) [OF inv node(2)]]
  have "all_owned (evolve p (Some \<lparr>shared = s', nodes = (nodes m)(u \<mapsto> nd')\<rparr>) e S)"
    using owned_node_step [OF all_ownedD [OF own node(2)] node(3) m(5) [OF node(3)] m(2,3) node(5)]
    by (auto intro!: all_owned_evolve own)
  then show ?thesis by (simp add: node(1) all_owned_def)
next
  case (end_node p m u nd)
  then show ?thesis
    using owned_end_node [OF all_ownedD [OF own end_node(2)] end_node(3)]
    by (auto intro!: all_owned_evolve own simp: SubscribedTopics_def AdvertisedTopics_def AdvertisedServices_def)
next
  case (task p m op now fails s' e)
  note m = member_invD [OF sys_invD(1) [OF inv task(2)]]
  have "op = DoReceive now [] None \<or> op = DoSweep now \<or> op = DoHeartbeat" using task(3) by blast
  from owned_discovery [OF all_ownedD [OF own task(2)] process_okD(1) [OF m(2)] _ task(4) this]
  show ?thesis using process_okD(2) [OF m(2)] m(3) by (auto intro!: all_owned_evolve own simp: task(1))
next
  case (datagram q m b p fails now stack s' e)
  note m = member_invD [OF sys_invD(1) [OF inv datagram(2)]]
  let ?op = "DoReceive now stack (Some (host p, b))"
  have "with_discovery fails (discovery_step to_ms ?op) (shared m) = Inr (s', e)"
    using datagram(4) by (simp add: with_discovery_def)
  from owned_discovery [OF all_ownedD [OF own datagram(2)] process_okD(1) [OF m(2)] _ this]
  show ?thesis using process_okD(2) [OF m(2)] m(3) by (auto intro!: all_owned_evolve own simp: datagram(1))
next
  case (msg q m t a data p)
  then show ?thesis using all_ownedD [OF own] by (auto intro!: all_owned_evolve own)
next
  case (control q m t u n data p s')
  have "disc s' = disc (shared m)" using control(4) by (auto simp: RecvControlUpdate_def Let_def rbind_eq_Inr_iff split: option.splits if_splits)
  then show ?thesis
    using owned_frame [OF all_ownedD [OF own control(2)]] tables_receptions(1) [OF control(4)]
    by (auto intro!: all_owned_evolve own simp: control(1) same_tables_def)
next
  case (request q m t sender dst n u req p fails result0 s' e)
  have "disc s' = disc (shared m)"
    using request(4) by (auto simp: RecvSrvRequest_def Let_def rbind_eq_Inr_iff case_prod_unfold split: option.splits if_splits)
  then show ?thesis
    using owned_frame [OF all_ownedD [OF own request(2)]] tables_receptions(2) [OF request(4)]
    by (auto intro!: all_owned_evolve own simp: request(1) same_tables_def)
next
  case (response q m t n u rep flag p s' e)
  have "disc s' = disc (shared m)"
    using response(4) by (auto simp: RecvSrvResponse_def Let_def case_prod_unfold split: option.splits if_splits)
  then show ?thesis
    using owned_frame [OF all_ownedD [OF own response(2)]] tables_receptions(3) [OF response(4)]
    by (auto intro!: all_owned_evolve own simp: response(1) same_tables_def)
next
  case (exit p m d e)
  then show ?thesis by (auto intro!: all_owned_evolve own)
qed

lemma all_owned_reachable: "sys_reachable host to_ms deliverable S \<Longrightarrow> all_owned S"
  unfolding sys_reachable_def
proof (induction rule: rtranclp_induct)
  case base
  show ?case by (simp add: all_owned_def system0_def)
next
  case (step S S')
  have "sys_inv S" using step(1) by (intro sys_inv_reachable) (simp add: sys_reachable_def)
  then show ?case using all_owned_step [OF step(2)] step(3) by blast
qed

subsection \<open>The destructor as a run of the system\<close>

lemma same_state:
  "members S p = Some m \<Longrightarrow> nodes m u = Some nd \<Longrightarrow>
     evolve p (Some \<lparr>shared = shared m, nodes = (nodes m)(u \<mapsto> nd)\<rparr>) [] S = S"
  by (cases S; cases m) (simp add: evolve_def fun_upd_idem)

lemma evolve_twice: "evolve p m' e' (evolve p m e S) = evolve p m' (e @ e') S"
  by (simp add: evolve_def)

text \<open>The operations that a destructor performs enter nothing into the journal.\<close>

definition removal :: "'m node_op \<Rightarrow> bool" where
  "removal op \<longleftrightarrow> (\<exists>x. op = OpUnsubscribe x \<or> op = OpUnadvertise x \<or> op = OpUnadvertiseSrv x)"

lemma removal_simps: "removal (OpUnsubscribe x)" "removal (OpUnadvertise x)" "removal (OpUnadvertiseSrv x)"
  by (simp_all add: removal_def)

lemma removal_quiet:
  assumes "removal op"
  shows "op_fits p op nd s" and "log_op p op nd s S = S"
proof -
  show "op_fits p op nd s" using assms by (auto simp: removal_def op_fits_def)
  have "enter p op nd s j = j" for j :: "'a journal"
    using assms by (cases j) (auto simp: removal_def enter_def op_adverts_def split: option.split)
  then show "log_op p op nd s S = S" by (cases S) (simp add: log_op_def)
qed

lemma for_each_run:
  assumes step: "\<And>x nd s. node_step fails (op x) nd s = without_result (f x nd s)" and "\<And>x. removal (op x)"
  shows "members S p = Some m \<Longrightarrow> nodes m u = Some nd \<Longrightarrow> for_each f xs nd (shared m) = Inr (nd', s', e) \<Longrightarrow>
    (sys_step host to_ms deliverable)\<^sup>*\<^sup>* S (evolve p (Some \<lparr>shared = s', nodes = (nodes m)(u \<mapsto> nd')\<rparr>) e S)"
proof (induction xs arbitrary: S m nd e)
  case Nil
  then show ?case using same_state [OF Nil.prems(1,2)] by (simp del: fun_upd_apply)
next
  case (Cons x xs)
  from Cons.prems(3) obtain nd1 s1 e1 ok e2 where first: "f x nd (shared m) = Inr (nd1, s1, e1, ok)"
    and rest: "for_each f xs nd1 s1 = Inr (nd', s', e2)" and e: "e = e1 @ e2" by (auto simp: rbind_eq_Inr_iff)
  let ?m = "\<lparr>shared = s1, nodes = (nodes m)(u \<mapsto> nd1)\<rparr>"
  have "node_step fails (op x) nd (shared m) = Inr (nd1, s1, e1)" using first by (simp add: step without_result_Inr)
  from sys_step.node [OF Cons.prems(1,2) removal_quiet(1) [OF assms(2)] this, of host to_ms deliverable]
  have "sys_step host to_ms deliverable S (evolve p (Some ?m) e1 S)" by (simp add: removal_quiet(2) [OF assms(2)])
  moreover have "(sys_step host to_ms deliverable)\<^sup>*\<^sup>* (evolve p (Some ?m) e1 S)
      (evolve p (Some \<lparr>shared = s', nodes = (nodes m)(u \<mapsto> nd')\<rparr>) e S)"
    using Cons.IH [of "evolve p (Some ?m) e1 S" ?m nd1 e2] rest
    by (simp add: evolve_twice e fun_upd_same del: fun_upd_apply)
  ultimately show ?case by (rule converse_rtranclp_into_rtranclp)
qed

text \<open>What the loops leave alone.\<close>

lemma for_each_keeps:
  assumes "\<And>x nd s nd' s' e ok. f x nd s = Inr (nd', s', e, ok) \<Longrightarrow> k s' = k s"
  shows "for_each f xs nd s = Inr (nd', s', e) \<Longrightarrow> k s' = k s"
proof (induction xs arbitrary: nd s e)
  case (Cons x xs)
  from Cons.prems(1) obtain nd1 s1 e1 ok e2 where first: "f x nd s = Inr (nd1, s1, e1, ok)"
    and rest: "for_each f xs nd1 s1 = Inr (nd', s', e2)" by (auto simp: rbind_eq_Inr_iff)
  then show ?case using assms [OF first] Cons.IH [OF rest] by simp
qed simp

lemma with_Unadvertise:
  assumes "with_discovery fails (Unadvertise Msg t n) s = Inr (s', e)"
  shows "infoSrv (disc s') = infoSrv (disc s) \<and> requests s' = requests s"
proof -
  from assms obtain d ev where d: "Unadvertise Msg t n (disc s) = Inr (d, ev)"
    and h: "handle_events fails ev (s\<lparr>disc := d\<rparr>) = Inr (s', e)"
    by (auto simp: with_discovery_def rbind_eq_Inr_iff)
  from Unadvertise_only_sends [OF d] h have "s' = s\<lparr>disc := d\<rparr>" by (auto simp: handle_sends)
  then show ?thesis using Unadvertise_Msg_infoSrv [OF d] by simp
qed

lemma removals_keep:
  fixes k :: "'m node_shared \<Rightarrow> topic_storage \<times> nat handler_storage"
  defines "k \<equiv> \<lambda>s. (infoSrv (disc s), requests s)"
  shows "Node_Unsubscribe fails x nd s = Inr (nd', s', e, ok) \<Longrightarrow> k s' = k s"
    and "Node_Unadvertise fails x nd s = Inr (nd', s', e, ok) \<Longrightarrow> k s' = k s"
    and "Node_UnadvertiseSrv fails x nd s = Inr (nd', s', e, ok) \<Longrightarrow> k s' = k s"
  by (auto simp: k_def Node_Unsubscribe_def Node_Unadvertise_def Node_UnadvertiseSrv_def Let_def rbind_eq_Inr_iff
      dest!: with_Unadvertise split: option.splits if_splits)

lemma dtor_keeps:
  assumes "Node_dtor fails nd s = Inr (nd', s', e)"
  shows "infoSrv (disc s') = infoSrv (disc s)" and "requests s' = requests s"
proof -
  let ?k = "\<lambda>s. (infoSrv (disc s), requests s)"
  from assms obtain nd1 s1 e1 nd2 s2 e2 e3 where
    1: "for_each (Node_Unsubscribe fails) (SubscribedTopics nd) nd s = Inr (nd1, s1, e1)" and
    2: "for_each (Node_Unadvertise fails) (AdvertisedTopics nd1) nd1 s1 = Inr (nd2, s2, e2)" and
    3: "for_each (Node_UnadvertiseSrv fails) (AdvertisedServices nd2) nd2 s2 = Inr (nd', s', e3)"
    by (auto simp: Node_dtor_def rbind_eq_Inr_iff split: if_splits)
  have "?k s1 = ?k s" by (rule for_each_keeps [OF removals_keep(1) 1])
  moreover have "?k s2 = ?k s1" by (rule for_each_keeps [OF removals_keep(2) 2])
  moreover have "?k s' = ?k s2" by (rule for_each_keeps [OF removals_keep(3) 3])
  ultimately have "?k s' = ?k s" by simp
  then show "infoSrv (disc s') = infoSrv (disc s)" "requests s' = requests s" by simp_all
qed

lemma dtor_run:
  assumes p: "members S p = Some m" "nodes m u = Some nd" and ok: "node_ok nd"
    and run: "Node_dtor fails nd (shared m) = Inr (nd', s', e)"
  shows "(sys_step host to_ms deliverable)\<^sup>*\<^sup>* S
    (evolve p (Some \<lparr>shared = s', nodes = (nodes m)(u := None)\<rparr>) e S)"
proof -
  let ?run = "(sys_step host to_ms deliverable)\<^sup>*\<^sup>*"
  let ?at = "\<lambda>s nd e. evolve p (Some \<lparr>shared = s, nodes = (nodes m)(u \<mapsto> nd)\<rparr>) e S"
  from run obtain nd1 s1 e1 nd2 s2 e2 e3 where
    1: "for_each (Node_Unsubscribe fails) (SubscribedTopics nd) nd (shared m) = Inr (nd1, s1, e1)" and
    2: "for_each (Node_Unadvertise fails) (AdvertisedTopics nd1) nd1 s1 = Inr (nd2, s2, e2)" and
    3: "for_each (Node_UnadvertiseSrv fails) (AdvertisedServices nd2) nd2 s2 = Inr (nd', s', e3)" and
    e: "e = e1 @ e2 @ e3"
    by (auto simp: Node_dtor_def rbind_eq_Inr_iff split: if_splits)
  have at: "members (?at s nd e) p = Some \<lparr>shared = s, nodes = (nodes m)(u \<mapsto> nd)\<rparr>"
    "nodes \<lparr>shared = s, nodes = (nodes m)(u \<mapsto> nd)\<rparr> u = Some nd" for s nd e by simp_all
  have "?run S (?at s1 nd1 e1)"
    by (rule for_each_run [where op = OpUnsubscribe, OF _ _ p 1]) (auto simp: removal_def)
  also have "?run (?at s1 nd1 e1) (?at s2 nd2 (e1 @ e2))"
    using for_each_run [where op = OpUnadvertise and f = "Node_Unadvertise fails", OF _ _ at(1) [of s1 nd1 e1] at(2)] 2
    by (simp add: removal_def evolve_twice del: fun_upd_apply)
  also have "?run (?at s2 nd2 (e1 @ e2)) (?at s' nd' e)"
    using for_each_run [where op = OpUnadvertiseSrv and f = "Node_UnadvertiseSrv fails", OF _ _ at(1) [of s2 nd2 "e1 @ e2"] at(2)] 3
    by (simp add: removal_def evolve_twice e del: fun_upd_apply)
  also have "sys_step host to_ms deliverable (?at s' nd' e) (evolve p (Some \<lparr>shared = s', nodes = (nodes m)(u := None)\<rparr>) e S)"
    using sys_step.end_node [of "?at s' nd' e" p "\<lparr>shared = s', nodes = (nodes m)(u \<mapsto> nd')\<rparr>" u nd'] dtor_result [OF ok run]
    by (simp add: SubscribedTopics_def AdvertisedTopics_def AdvertisedServices_def evolve_twice fun_upd_same
        del: fun_upd_apply)
  finally show ?thesis .
qed

text \<open>In a system of processes the destructor always gets to its end, unless a socket throws.\<close>

lemma removals_return:
  fixes s :: "'m node_shared"
  assumes "own_transmittable (disc s)"
  shows "\<exists>r. Node_Unsubscribe (\<lambda>_. False) x nd s = Inr r" and "\<exists>r. Node_Unadvertise (\<lambda>_. False) x nd s = Inr r"
    and "\<exists>r. Node_UnadvertiseSrv (\<lambda>_. False) x nd s = Inr r"
proof -
  have un: "\<exists>s' e. with_discovery (\<lambda>_. False) (Unadvertise Msg t n) s = Inr (s', e)"
    if "own_transmittable (disc s)" for t n and s :: "'m node_shared"
  proof -
    from Unadvertise_total [OF that] obtain d e where d: "Unadvertise Msg t n (disc s) = Inr (d, e)" by blast
    then obtain bs where "e = map Send bs" using Unadvertise_only_sends by blast
    then show ?thesis using d by (simp add: with_discovery_def handle_sends)
  qed
  show "\<exists>r. Node_Unsubscribe (\<lambda>_. False) x nd s = Inr r"
    by (auto simp: Node_Unsubscribe_def Let_def split: option.split)
  show "\<exists>r. Node_Unadvertise (\<lambda>_. False) x nd s = Inr r"
  proof (cases "fqn nd x")
    case (Some t)
    from un [OF assms, of t "nd_nUuid nd"] show ?thesis by (auto simp: Node_Unadvertise_def Some Let_def)
  qed (auto simp: Node_Unadvertise_def)
  show "\<exists>r. Node_UnadvertiseSrv (\<lambda>_. False) x nd s = Inr r"
  proof (cases "fqn nd x")
    case (Some t)
    have "own_transmittable (disc (s\<lparr>repliers := snd (RemoveHandlersForNode t (nd_nUuid nd) (repliers s))\<rparr>))"
      using assms by simp
    from un [OF this, of t "nd_nUuid nd"] show ?thesis by (auto simp: Node_UnadvertiseSrv_def Some Let_def)
  qed (auto simp: Node_UnadvertiseSrv_def)
qed

lemma for_each_returns:
  fixes S :: "'m system"
  assumes step: "\<And>x nd s. node_step (\<lambda>_. False) (op x) nd s = without_result (f x nd s)" and rem: "\<And>x. removal (op x)"
    and total: "\<And>x nd (s :: 'm node_shared). own_transmittable (disc s) \<Longrightarrow> \<exists>r. f x nd s = Inr r"
  shows "sys_reachable host to_ms deliverable S \<Longrightarrow> members S p = Some m \<Longrightarrow> nodes m u = Some nd \<Longrightarrow>
    \<exists>nd' s' e. for_each f xs nd (shared m) = Inr (nd', s', e) \<and>
      sys_reachable host to_ms deliverable (evolve p (Some \<lparr>shared = s', nodes = (nodes m)(u \<mapsto> nd')\<rparr>) e S)"
proof (induction xs arbitrary: S m nd)
  case Nil
  then show ?case using same_state [OF Nil.prems(2,3)] by (simp del: fun_upd_apply)
next
  case (Cons x xs)
  obtain nd1 s1 e1 ok where first: "f x nd (shared m) = Inr (nd1, s1, e1, ok)"
    using total [OF member_net(4) [OF Cons.prems(1,2)]] by (metis prod_cases4)
  let ?m = "\<lparr>shared = s1, nodes = (nodes m)(u \<mapsto> nd1)\<rparr>"
  have "node_step (\<lambda>_. False) (op x) nd (shared m) = Inr (nd1, s1, e1)" using first by (simp add: step without_result_Inr)
  from sys_step.node [OF Cons.prems(2,3) removal_quiet(1) [OF rem] this, of host to_ms deliverable]
  have "sys_reachable host to_ms deliverable (evolve p (Some ?m) e1 S)"
    by (intro reachable_step [OF Cons.prems(1)]) (simp add: removal_quiet(2) [OF rem])
  from Cons.IH [OF this, of ?m nd1] obtain nd' s' e2 where "for_each f xs nd1 s1 = Inr (nd', s', e2)"
    "sys_reachable host to_ms deliverable (evolve p (Some \<lparr>shared = s', nodes = (nodes m)(u \<mapsto> nd')\<rparr>) (e1 @ e2) S)"
    by (auto simp: evolve_twice fun_upd_same simp del: fun_upd_apply)
  then show ?case by (intro exI [of _ nd'] exI [of _ s'] exI [of _ "e1 @ e2"]) (simp add: first del: fun_upd_apply)
qed

lemma dtor_returns:
  assumes S: "sys_reachable host to_ms deliverable S" and p: "members S p = Some m" "nodes m u = Some nd"
  shows "\<exists>nd' s' e. Node_dtor (\<lambda>_. False) nd (shared m) = Inr (nd', s', e)"
proof -
  let ?at = "\<lambda>s nd e. evolve p (Some \<lparr>shared = s, nodes = (nodes m)(u \<mapsto> nd)\<rparr>) e S"
  have ok: "node_ok nd" by (rule member_invD(6) [OF sys_invD(1) [OF sys_inv_reachable [OF S] p(1)] p(2)])
  have at: "members (?at s nd e) p = Some \<lparr>shared = s, nodes = (nodes m)(u \<mapsto> nd)\<rparr>"
    "nodes \<lparr>shared = s, nodes = (nodes m)(u \<mapsto> nd)\<rparr> u = Some nd" for s nd e by simp_all
  obtain nd1 s1 e1 where
    1: "for_each (Node_Unsubscribe (\<lambda>_. False)) (SubscribedTopics nd) nd (shared m) = Inr (nd1, s1, e1)"
      "sys_reachable host to_ms deliverable (?at s1 nd1 e1)"
    using for_each_returns [where op = OpUnsubscribe and f = "Node_Unsubscribe (\<lambda>_. False)", 
        OF node_step.simps(4) removal_simps(1) removals_return(1) S p, of "SubscribedTopics nd"] by blast
  obtain nd2 s2 e2 where
    2: "for_each (Node_Unadvertise (\<lambda>_. False)) (AdvertisedTopics nd1) nd1 s1 = Inr (nd2, s2, e2)"
      "sys_reachable host to_ms deliverable (?at s2 nd2 (e1 @ e2))"
    using for_each_returns [where op = OpUnadvertise and f = "Node_Unadvertise (\<lambda>_. False)",
        OF node_step.simps(2) removal_simps(2) removals_return(2) 1(2) at(1) [of s1 nd1 e1] at(2), of "AdvertisedTopics nd1"]
    by (auto simp: evolve_twice simp del: fun_upd_apply)
  obtain nd3 s3 e3 where
    3: "for_each (Node_UnadvertiseSrv (\<lambda>_. False)) (AdvertisedServices nd2) nd2 s2 = Inr (nd3, s3, e3)"
    using for_each_returns [where op = OpUnadvertiseSrv and f = "Node_UnadvertiseSrv (\<lambda>_. False)",
        OF node_step.simps(7) removal_simps(3) removals_return(3) 2(2) at(1) [of s2 nd2 "e1 @ e2"] at(2),
        of "AdvertisedServices nd2"]
    by (auto simp: evolve_twice simp del: fun_upd_apply)
  have "SubscribedTopics nd1 = []" "node_ok nd1" using dtor_loops(1) [OF ok 1(1)] by (auto simp: SubscribedTopics_def)
  moreover from this(2) have "AdvertisedTopics nd2 = []" "node_ok nd2"
    using dtor_loops(2) [OF _ 2(1)] by (auto simp: AdvertisedTopics_def)
  moreover from this(2) have "AdvertisedServices nd3 = []"
    using dtor_loops(3) [OF _ 3] by (auto simp: AdvertisedServices_def)
  ultimately show ?thesis by (simp add: Node_dtor_def 1(1) 2(1) 3)
qed

subsection \<open>Properties\<close>

text \<open>C18 Entries belong to nodes.  In every reachable state of the system each record of a topic
  that a process holds for itself, each of its subscriptions and each of its service handlers carries the
  UUID of a node of the process that exists and lists the topic or service.  So nothing of a node that
  has been destroyed is left, whatever the other nodes and processes did meanwhile.\<close>
theorem entries_belong_to_nodes:
  assumes "sys_reachable host to_ms deliverable S" and "members S p = Some m"
  shows "(\<forall>t. \<forall>i \<in> set (records Msg (disc (shared m)) t p).
      \<exists>nd. nodes m (nUuid i) = Some nd \<and> t \<in> set (topicsAdvertised nd)) \<and>
    (\<forall>t u. (\<exists>hu. GetHandler t u hu (localSubscriptions (shared m)) \<noteq> None) \<longrightarrow>
      (\<exists>nd. nodes m u = Some nd \<and> t \<in> set (topicsSubscribed nd))) \<and>
    (\<forall>t u. (\<exists>hu. GetHandler t u hu (repliers (shared m)) \<noteq> None) \<longrightarrow>
      (\<exists>nd. nodes m u = Some nd \<and> t \<in> set (srvsAdvertised nd)))"
  using all_ownedD [OF all_owned_reachable [OF assms(1)] assms(2)] unfolding owned_def by blast

lemma entries_belong_to_nodes_witness:
  "\<exists>S m. sys_reachable one_host (\<lambda>x. x) zmq S \<and> members S ''B'' = Some m \<and>
     records Msg (disc (shared m)) ''@@/t'' ''B'' \<noteq> [] \<and>
     (\<exists>i nd. i \<in> set (records Msg (disc (shared m)) ''@@/t'' ''B'') \<and>
       nodes m (nUuid i) = Some nd \<and> ''@@/t'' \<in> set (topicsAdvertised nd)) \<and>
     (\<exists>u nd. nodes m u = Some nd \<and> ''@@/s'' \<in> set (srvsAdvertised nd))"
proof -
  obtain S where S: "sys_reachable one_host (\<lambda>x. x) zmq S" "members S ''B'' = Some member_b"
    using small_system by blast
  obtain i where i: "i \<in> set (records Msg (disc (shared member_b)) ''@@/t'' ''B'')" using member_b_records(1) by blast
  have h: "GetHandler ''@@/s'' ''m'' ''hb'' (repliers (shared member_b)) = Some echo"
    by (simp add: member_b_def b_both_def b_topic_def with_record_def GetHandler_def)
  show ?thesis
    using S i h entries_belong_to_nodes [OF S]
    by (intro exI [of _ S] exI [of _ member_b] conjI) (auto, metis option.distinct(1))
qed

text \<open>C17 Destroying a node.  In every reachable state of the system the destructor of any node of
  any process gets to its end, unless a socket throws: none of its assertions fails.  It is a run of the
  system, operation by operation, that changes only its own process, and at the end of which the process
  has no topic, no subscription and no service handler of that node any more.  What is left of the node is
  what the code forgets: the services it offered stay advertised as they were, and its requests stay
  filed.\<close>
theorem destructor_is_a_run:
  assumes "sys_reachable host to_ms deliverable S" and "members S p = Some m" and "nodes m u = Some nd"
  shows "\<exists>nd' s' e. Node_dtor (\<lambda>_. False) nd (shared m) = Inr (nd', s', e) \<and>
    (sys_step host to_ms deliverable)\<^sup>*\<^sup>* S (evolve p (Some \<lparr>shared = s', nodes = (nodes m)(u := None)\<rparr>) e S) \<and>
    (\<forall>t. \<forall>i \<in> set (records Msg (disc s') t p). nUuid i \<noteq> u) \<and>
    (\<forall>t hu. GetHandler t u hu (localSubscriptions s') = None \<and> GetHandler t u hu (repliers s') = None) \<and>
    infoSrv (disc s') = infoSrv (disc (shared m)) \<and> requests s' = requests (shared m)"
proof -
  have ok: "node_ok nd" by (rule member_invD(6) [OF sys_invD(1) [OF sys_inv_reachable [OF assms(1)] assms(2)] assms(3)])
  obtain nd' s' e where run: "Node_dtor (\<lambda>_. False) nd (shared m) = Inr (nd', s', e)"
    using dtor_returns [OF assms] by blast
  let ?S = "evolve p (Some \<lparr>shared = s', nodes = (nodes m)(u := None)\<rparr>) e S"
  have steps: "(sys_step host to_ms deliverable)\<^sup>*\<^sup>* S ?S" by (rule dtor_run [OF assms(2,3) ok run])
  then have "sys_reachable host to_ms deliverable ?S" using assms(1) unfolding sys_reachable_def by simp
  then have "all_owned ?S" by (rule all_owned_reachable)
  from all_ownedD [OF this, of p] have own: "owned p ((nodes m)(u := None)) s'" by simp
  have recs: "nUuid i \<noteq> u" if "i \<in> set (records Msg (disc s') t p)" for i t
    using ownedD(1) [OF own that] by auto
  have handlers: "GetHandler t u hu (localSubscriptions s') = None \<and> GetHandler t u hu (repliers s') = None" for t hu
    using ownedD(2,3) [OF own, of t u hu] by (cases "GetHandler t u hu (localSubscriptions s')"; cases "GetHandler t u hu (repliers s')") auto
  show ?thesis
    by (intro exI [of _ nd'] exI [of _ s'] exI [of _ e] conjI run steps dtor_keeps [OF run] allI ballI)
      (use recs handlers in auto)
qed

lemma destructor_is_a_run_witness:
  "\<exists>S nd' s' e. sys_reachable one_host (\<lambda>x. x) zmq S \<and> members S ''B'' = Some member_b \<and>
     Node_dtor (\<lambda>_. False) node_b b_both = Inr (nd', s', e) \<and>
     (sys_step one_host (\<lambda>x. x) zmq)\<^sup>*\<^sup>* S (evolve ''B'' (Some \<lparr>shared = s', nodes = (\<lambda>_. None)\<rparr>) e S) \<and>
     GetHandler ''@@/s'' ''m'' ''hb'' (repliers b_both) \<noteq> None \<and> GetHandler ''@@/s'' ''m'' ''hb'' (repliers s') = None \<and>
     infoSrv (disc s') = infoSrv (disc b_both)"
proof -
  obtain S where S: "sys_reachable one_host (\<lambda>x. x) zmq S" "members S ''B'' = Some member_b"
    using small_system by blast
  have none: "(nodes member_b)(''m'' := None) = (\<lambda>_. None)" by (simp add: member_b_def)
  have shared: "shared member_b = b_both" by (simp add: member_b_def)
  have h: "GetHandler ''@@/s'' ''m'' ''hb'' (repliers b_both) = Some echo"
    by (simp add: b_both_def b_topic_def with_record_def GetHandler_def)
  from destructor_is_a_run [OF S member_b_node(1), unfolded none shared] obtain nd' s' e where
    "Node_dtor (\<lambda>_. False) node_b b_both = Inr (nd', s', e)"
    "(sys_step one_host (\<lambda>x. x) zmq)\<^sup>*\<^sup>* S (evolve ''B'' (Some \<lparr>shared = s', nodes = (\<lambda>_. None)\<rparr>) e S)"
    "GetHandler ''@@/s'' ''m'' ''hb'' (repliers s') = None" "infoSrv (disc s') = infoSrv (disc b_both)" by blast
  with S h show ?thesis by (intro exI [of _ S] exI [of _ nd'] exI [of _ s'] exI [of _ e]) simp
qed

text \<open>C35 Unadvertising a service leaves it advertised: the service loses its handlers in the
  process, but the discovery keeps its address and goes on advertising it, because it is asked to
  remove a topic of that name.  If the node also has a topic of that name, it is the topic that is
  gone from the discovery, while the node still lists it.\<close>
theorem UnadvertiseSrv_keeps_address:
  assumes "process_reachable s" and "Node_UnadvertiseSrv fails topic nd s = Inr (nd', s', e, ok)"
  shows "infoSrv (disc s') = infoSrv (disc s) \<and> topicsAdvertised nd' = topicsAdvertised nd \<and>
    (\<forall>t. records Msg (disc s') t (ns_pUuid s) = filter (\<lambda>i. fqn nd topic = Some t \<longrightarrow> nUuid i \<noteq> nd_nUuid nd)
      (records Msg (disc s) t (ns_pUuid s)))"
proof (cases "fqn nd topic")
  case None
  with assms show ?thesis by (simp add: Node_UnadvertiseSrv_def)
next
  case (Some t)
  note ok = process_okD(1,2) [OF process_reachable_ok [OF assms(1)]]
  from assms(2) Some obtain d events where d: "Unadvertise Msg t (nd_nUuid nd) (disc s) = Inr (d, events)"
    and h: "handle_events fails events
      (s\<lparr>repliers := snd (RemoveHandlersForNode t (nd_nUuid nd) (repliers s)), disc := d\<rparr>) = Inr (s', e)"
    and nd': "nd' = nd\<lparr>srvsAdvertised := removeAll t (srvsAdvertised nd)\<rparr>"
    by (auto simp: Node_UnadvertiseSrv_def with_discovery_def Let_def rbind_eq_Inr_iff)
  from Unadvertise_only_sends [OF d] h have s': "disc s' = d" by (auto simp: handle_sends)
  show ?thesis
    using Unadvertise_Msg_infoSrv [OF d] Unadvertise_removes [OF ok(1) d, of Msg _ "ns_pUuid s"] ok(2)
    by (simp add: s' nd' Some)
qed

lemma UnadvertiseSrv_keeps_address_witness:
  "\<exists>nd' s' e ok. Node_UnadvertiseSrv (\<lambda>_. False) ''/s'' node_b b_both = Inr (nd', s', e, ok) \<and>
     infoSrv (disc s') = infoSrv (disc b_both) \<and> records Srv (disc s') ''@@/s'' ''B'' \<noteq> [] \<and>
     records Msg (disc s') ''@@/t'' ''B'' = records Msg (disc b_both) ''@@/t'' ''B''"
proof -
  obtain S where S: "sys_reachable one_host (\<lambda>x. x) zmq S" "members S ''B'' = Some member_b"
    using small_system by blast
  have shared: "shared member_b = b_both" by (simp add: member_b_def)
  note inv = member_invD(1,3) [OF sys_invD(1) [OF sys_inv_reachable [OF S(1)] S(2)], unfolded shared]
  obtain nd' s' e ok where run: "Node_UnadvertiseSrv (\<lambda>_. False) ''/s'' node_b b_both = Inr (nd', s', e, ok)"
    using removals_return(3) [OF member_net(4) [OF S], unfolded shared] by (metis prod_cases4)
  have "fqn node_b ''/s'' = Some ''@@/s''" by (simp add: node_b_def fqn_node_of)
  then have "records Msg (disc s') ''@@/t'' ''B'' = records Msg (disc b_both) ''@@/t'' ''B''"
    "infoSrv (disc s') = infoSrv (disc b_both)"
    using UnadvertiseSrv_keeps_address [OF inv(1) run] inv(2) by simp_all
  moreover have "records Srv (disc b_both) ''@@/s'' ''B'' \<noteq> []" using member_b_records(2) by (auto simp: shared)
  ultimately show ?thesis using run by (auto simp: records_def)
qed

end
