(* ===== verification/EarlyStart.thy ===== *)
theory EarlyStart
  imports SystemNodes
begin

text \<open>
  What happens to a datagram that arrives while its process is still starting.  A service heard of before the
  callback for services is registered is recorded, but nobody is told, then or later.
\<close>

subsection \<open>Without a callback there is no call\<close>

lemma notify_calls: "Call cb t a c p n sc \<in> set (notify cb' d t' a' c' p' n' sc') \<Longrightarrow> cb = cb' \<and> has_callback cb d"
  by (auto simp: notify_def split: if_splits)

lemma sweep_loop_calls:
  "sweep_loop to_ms now xs d = Inr (d', e) \<Longrightarrow> Call cb t a c p n sc \<in> set e \<Longrightarrow> cb = DisconnectionCb"
  by (induction xs arbitrary: d e) (auto simp: rbind_eq_Inr_iff Let_def split: if_splits)

lemma task_calls:
  assumes "op = DoReceive now stack r \<or> op = DoSweep now \<or> op = DoHeartbeat"
    and "discovery_step to_ms op d = Inr (d', e)" and "Call ConnectionSrvCb t a c p n sc \<in> set e"
  shows "has_callback ConnectionSrvCb d"
  using assms(1)
proof (elim disjE)
  assume "op = DoReceive now stack r"
  then have "RecvDiscoveryUpdate now stack r d = Inr (d', e)" using assms(2) by simp
  then show ?thesis
  proof (cases rule: Recv_cases)
    case ignored
    then show ?thesis using assms(3) by simp
  next
    case (dispatched h ip b)
    let ?d = "d\<lparr>activity := map_put (Header_GetPUuid h) now (activity d)\<rparr>"
    have "has_callback ConnectionSrvCb ?d"
      using dispatched(3)
    proof (cases rule: dispatch_body_types)
      case (advertised k t' a' c' n' sc')
      then show ?thesis using assms(3)
        by (auto simp: on_advertise_def case_prod_unfold Let_def split: if_splits dest!: notify_calls)
    next
      case (requested k t')
      then show ?thesis using assms(3) on_subscribe_no_call by blast
    next
      case bye
      then show ?thesis using assms(3) by (auto simp: on_bye_def Let_def dest!: notify_calls)
    next
      case (unadvertised k t' a' c' n' sc')
      then show ?thesis using assms(3)
        by (cases k) (auto simp: on_unadvertise_def split: if_splits dest!: notify_calls)
    qed (use assms(3) in simp)
    then show ?thesis by simp
  qed
next
  assume "op = DoSweep now"
  then show ?thesis using assms(2,3) sweep_loop_calls by (force simp: activity_sweep_def)
qed (use assms(2,3) in \<open>auto simp: rbind_eq_Inr_iff heartbeat_no_call\<close>)

subsection \<open>A process that is starting\<close>

text \<open>Nobody has used it yet, and as long as the callback for services is missing it has no connection
  to any service.\<close>

definition unused :: "'m node_shared \<Rightarrow> bool" where
  "unused s \<longleftrightarrow> localSubscriptions s = [] \<and> repliers s = [] \<and> requests s = [] \<and> heap s = []"

lemma unused_event:
  assumes "unused s" and "handle_event fails x s = Inr (s', e)"
  shows "unused s'" and "(\<forall>t a c p n sc. Call ConnectionSrvCb t a c p n sc \<noteq> x) \<Longrightarrow> srvConnections s = [] \<Longrightarrow>
    srvConnections s' = []"
proof -
  have new: "unused (fst (OnNewConnection fails t a c p n sc s)) \<and>
      srvConnections (fst (OnNewConnection fails t a c p n sc s)) = srvConnections s" for t a c p n sc
    using assms(1) by (simp add: OnNewConnection_def Let_def unused_def)
  have gone: "unused s' \<and> srvConnections s' = srvConnections s" if "OnNewDisconnection fails t p n s = Inr (s', e)" for t p n
    using assms(1) that by (auto simp: OnNewDisconnection_def Let_def unused_def split: if_splits option.splits)
  have pending: "s'' = s'" if "SendPendingRemoteReqs fails t s'' = Inr (s', e)" "requests s'' = []" for t s'' e
    using that by (auto simp: SendPendingRemoteReqs_def GetHandlers_def split: option.splits list.splits prod.splits)
  have srv: "unused s'" if "OnNewSrvConnection fails t a s = Inr (s', e)" for t a
    using assms(1) that by (auto simp: OnNewSrvConnection_def Let_def rbind_eq_Inr_iff unused_def split: if_splits dest!: pending)
  have "unused s' \<and> ((\<forall>t a c p n sc. Call ConnectionSrvCb t a c p n sc \<noteq> x) \<longrightarrow> srvConnections s = [] \<longrightarrow> srvConnections s' = [])"
  proof (cases x)
    case (Call cb t a c p n sc)
    then show ?thesis
      using assms new [of t a c p n sc] gone srv by (cases cb) (auto simp: OnNewSrvDisconnection_def unused_def)
  qed (use assms in auto)
  then show "unused s'" "(\<forall>t a c p n sc. Call ConnectionSrvCb t a c p n sc \<noteq> x) \<Longrightarrow> srvConnections s = [] \<Longrightarrow>
    srvConnections s' = []" by blast+
qed

lemma unused_events:
  "handle_events fails ev s = Inr (s', e) \<Longrightarrow> unused s \<Longrightarrow> unused s' \<and>
     ((\<forall>t a c p n sc. Call ConnectionSrvCb t a c p n sc \<notin> set ev) \<longrightarrow> srvConnections s = [] \<longrightarrow> srvConnections s' = [])"
proof (induction ev arbitrary: s e)
  case (Cons x ev)
  from Cons.prems(1) obtain s1 e1 e2 where 1: "handle_event fails x s = Inr (s1, e1)"
    and 2: "handle_events fails ev s1 = Inr (s', e2)" by (auto simp: rbind_eq_Inr_iff)
  note step = unused_event [OF Cons.prems(2) 1]
  show ?case using Cons.IH [OF 2 step(1)] step(2) by (metis list.set_intros(1,2))
qed simp

lemma unused_reception:
  assumes "unused s" and "reception_round fails result0 msg control req rep s = Inr (s', e)"
  shows "unused s' \<and> srvConnections s' = srvConnections s \<and> disc s' = disc s"
proof -
  from assms(2) obtain s1 s2 e2 e3 where 1: "RecvControlUpdate control s = Inr s1"
    and 2: "RecvSrvRequest fails result0 req s1 = Inr (s2, e2)" and 3: "RecvSrvResponse rep s2 = (s', e3)"
    by (auto simp: reception_round_def rbind_eq_Inr_iff Let_def case_prod_unfold prod_eq_iff)
  have s1: "unused s1 \<and> srvConnections s1 = srvConnections s \<and> disc s1 = disc s"
    using 1 assms(1) by (auto simp: RecvControlUpdate_def rbind_eq_Inr_iff Let_def unused_def split: option.splits if_splits)
  then have "s2 = s1"
    using 2 by (auto simp: RecvSrvRequest_def GetHandler_first_def unused_def rbind_eq_Inr_iff split: option.splits)
  moreover have "s' = s2"
    using 3 s1 calculation by (auto simp: RecvSrvResponse_def GetHandler_def unused_def split: option.splits)
  ultimately show ?thesis using s1 by simp
qed

lemma starting_unused:
  "starting s as \<Longrightarrow> unused s \<and>
     (Register ConnectionSrvCb \<in> set as \<longrightarrow> srvConnections s = [] \<and> \<not> has_callback ConnectionSrvCb (disc s))"
proof (induction rule: starting.induct)
  case (created u host a_pub a_ctrl a_req a_rep id_resp id_rep)
  then show ?case by (simp add: NodeShared_created_def unused_def Discovery_ctor_def)
next
  case (act s a as)
  have "a \<noteq> Register ConnectionSrvCb" if "Register ConnectionSrvCb \<in> set as"
    using starting_rest [OF act.hyps] that by (auto simp: start_acts_def Cons_eq_append_conv)
  then show ?case using act by (cases a) (auto simp: unused_def has_callback_set)
next
  case (task s as op now stack r fails to_ms s' e)
  obtain d ev where d: "discovery_step to_ms op (disc s) = Inr (d, ev)"
    and h: "handle_events fails ev (s\<lparr>disc := d\<rparr>) = Inr (s', e)"
    using task.hyps(3) by (auto simp: with_discovery_def rbind_eq_Inr_iff)
  have "unused (s\<lparr>disc := d\<rparr>)" using task.IH by (simp add: unused_def)
  from unused_events [OF h this] show ?case
    using task.IH task_calls [OF task.hyps(2) d] discovery_steps [OF task.hyps(2) d] handle_events_disc [OF h]
    by (auto simp: same_client_def)
next
  case (reception s as fails result0 msg control req rep s' e)
  show ?case using reception.IH unused_reception [OF _ reception.hyps(3)] by auto
qed

subsection \<open>A service heard of too early\<close>

lemma perform_acts:
  "(\<forall>k. info k (disc (fold perform_act as s)) = info k (disc s)) \<and> pUuid (disc (fold perform_act as s)) = pUuid (disc s) \<and>
   hostAddr (disc (fold perform_act as s)) = hostAddr (disc s) \<and>
   srvConnections (fold perform_act as s) = srvConnections s"
proof (induction as arbitrary: s)
  case (Cons a as)
  have "info k (disc (perform_act a s)) = info k (disc s) \<and> pUuid (disc (perform_act a s)) = pUuid (disc s) \<and>
      hostAddr (disc (perform_act a s)) = hostAddr (disc s) \<and> srvConnections (perform_act a s) = srvConnections s" for k
  proof (cases a)
    case (Register cb)
    then show ?thesis
      by (cases cb; cases k) (simp_all add: SetConnectionsCb_def SetDisconnectionsCb_def SetConnectionsSrvCb_def
          SetDisconnectionsSrvCb_def)
  qed simp
  then show ?case using Cons.IH [of "perform_act a s"] by simp
qed simp

text \<open>A service that is on file already is no news.\<close>

lemma heard_again:
  assumes "process_ok s" and "p \<noteq> ns_pUuid s" and tr: "transmittable p (Advertised k t a c n sc)"
    and "duplicate k (disc s) t p a n"
  shows "\<exists>d. with_discovery fails (RecvDiscoveryUpdate now stack (Some (ip, dmsg_wire p (Advertised k t a c n sc)))) s =
    Inr (s\<lparr>disc := d\<rparr>, [])"
proof -
  have "p \<noteq> pUuid (disc s)" using assms(2) process_okD(2) [OF assms(1)] by simp
  from deliver_advertised [OF process_okD(1) [OF assms(1)] this, of now ip k t a c n sc] assms(4)
  show ?thesis by (auto simp: with_discovery_def receive_deliver [OF tr])
qed

lemma unused_request:
  assumes "unused s" and "fqn nd topic = Some t"
    and "GetSrvAddresses t (disc s) = Some [(p, [\<lparr>addr = a, ctrl = c, nUuid = n, scope = sc\<rparr>])]"
  shows "\<exists>s' e. Node_Request fails topic msg hu create serialize new True rep0 res0 nd s = Inr (nd, s', e, True) \<and>
    e = filter (\<lambda>x. \<not> fails x)
      [RequestFrames [c, t, myRequesterAddress s, responseReceiverId s, nd_nUuid nd, hu, serialize msg]] \<and>
    srvConnections s' = srvConnections s \<and> disc s' = disc s \<and> ns_pUuid s' = ns_pUuid s \<and> requests s' = [(t, [(nd_nUuid nd, [(hu, 0)])])] \<and>
    (\<exists>h. heap s' = [h] \<and> req_Requested h \<and> rq_hUuid h = hu)"
proof -
  let ?h = "req_SetCallback True (req_SetMessage msg (ReqHandler_ctor hu (nd_nUuid nd) create serialize new))"
  have h: "rq_hUuid ?h = hu" "rq_nUuid ?h = nd_nUuid nd" "rq_requested ?h = False" "req_Serialize ?h = serialize msg"
    by (simp_all add: req_SetCallback_def req_SetMessage_def ReqHandler_ctor_def req_Serialize_def)
  have marked: "req_Serialize (SetRequested True ?h) = serialize msg"
    using h(4) by (simp add: req_Serialize_def SetRequested_def)
  let ?s = "s\<lparr>heap := [?h], requests := [(t, [(nd_nUuid nd, [(hu, 0)])])]\<rparr>"
  have add: "AddHandler (\<lambda>r. rq_hUuid ([?h] ! r)) t (nd_nUuid nd) 0 [] = [(t, [(nd_nUuid nd, [(hu, 0)])])]"
    by (simp add: AddHandler_def Let_def map_insert_def h)
  have "handlers_of t (requests ?s) = [0]" by (simp add: handlers_of_def GetHandlers_def)
  then have "SendPendingRemoteReqs fails t ?s = Inr (send_pending fails t c [0] ?s)"
    using assms(3) by (simp add: SendPendingRemoteReqs_def GetSrvAddresses_def GetHandlers_def)
  then have "file_request fails t ?h nd s = Inr (send_pending fails t c [0] ?s)"
    using assms(1,3) add by (simp add: file_request_def Let_def unused_def)
  moreover have "GetHandler_first t (repliers s) = Inr None" using assms(1) by (simp add: unused_def GetHandler_first_def)
  ultimately show ?thesis
    using assms(1,2) h marked
    by (auto simp: Node_Request_def Let_def req_Requested_def SetRequested_def request_frames_def unused_def)
qed

lemma early_reception:
  assumes start: "starting s as" "Register ConnectionSrvCb \<in> set as" and p: "p \<noteq> ns_pUuid s"
    and tr: "transmittable p (Advertised Srv t a c n sc)" and "\<not> hidden ip sc (disc s)"
    and none: "GetSrvAddresses t (disc s) = None"
  obtains s1 where "with_discovery fails (RecvDiscoveryUpdate now stack
      (Some (ip, dmsg_wire p (Advertised Srv t a c n sc)))) s = Inr (s1, [])"
    "starting s1 as" "p \<noteq> ns_pUuid s1" "srvConnections s1 = []"
    "\<And>q. records Srv (disc s1) t q = (if q = p then [\<lparr>addr = a, ctrl = c, nUuid = n, scope = sc\<rparr>] else [])"
proof -
  let ?r = "RecvDiscoveryUpdate now stack (Some (ip, dmsg_wire p (Advertised Srv t a c n sc)))"
  let ?i = "\<lparr>addr = a, ctrl = c, nUuid = n, scope = sc\<rparr>"
  note ok = starting_ok [OF start(1)]
  have d: "discovery_ok (disc s)" "p \<noteq> pUuid (disc s)" using process_forD(1,2) [OF ok] p by simp_all
  have unknown: "records Srv (disc s) t q = []" for q
    using none by (auto simp: GetSrvAddresses_def GetAddresses_eq records_def vec_def)
  have mute: "srvConnections s = []" "\<not> has_callback ConnectionSrvCb (disc s)"
    using starting_unused [OF start(1)] start(2) by blast+
  have new: "\<not> duplicate Srv (disc s) t p a n" by (simp add: duplicate_def unknown)
  obtain d1 where del: "deliver now ip p (Advertised Srv t a c n sc) (disc s) = Inr (d1, [])"
    and rec: "\<And>q. records Srv d1 t q = (if q = p then [?i] else [])"
    using deliver_advertised [OF d, of now ip Srv t a c n sc] mute(2) new assms(5)
    by (auto simp: notify_def unknown)
  define s1 where "s1 = s\<lparr>disc := d1\<rparr>"
  have run: "with_discovery fails ?r s = Inr (s1, [])"
    using del by (simp add: s1_def with_discovery_def receive_deliver [OF tr])
  have "with_discovery fails (discovery_step (\<lambda>x. x) (DoReceive now stack (Some (ip, dmsg_wire p (Advertised Srv t a c n sc))))) s =
      Inr (s1, [])" using run by (simp add: with_discovery_def)
  then have st1: "starting s1 as" by (rule starting.task [OF start(1) disjI1 [OF refl]])
  show thesis using that [OF run st1] p mute(1) rec by (simp add: s1_def)
qed

text \<open>C20 A service heard of too early is lost.  While a process starts, its discovery already listens;
  but the callback through which it connects to services is registered last but one.  Let an
  advertisement of a service arrive before that.  It is recorded, and no event comes of it: no socket is
  connected.  When the process has started, the record is still there, so a node that requests the service
  sends its request to the provider at once, as its only action, over a socket that has not been connected to
  anything, unless the socket throws; the request is marked as sent in both cases.  When the advertisement arrives
  again, the record is there already, so nothing is connected or sent then either.\<close>
theorem early_service_lost:
  fixes s :: "'m node_shared"
  assumes start: "starting s as" "Register ConnectionSrvCb \<in> set as"
    and "p \<noteq> ns_pUuid s" and tr: "transmittable p (Advertised Srv t a c n sc)" and "\<not> hidden ip sc (disc s)"
    and none: "GetSrvAddresses t (disc s) = None" and topic: "fqn nd topic = Some t"
  shows "\<exists>s1 s2 s3 e. with_discovery fails
      (RecvDiscoveryUpdate now stack (Some (ip, dmsg_wire p (Advertised Srv t a c n sc)))) s = Inr (s1, []) \<and>
    records Srv (disc s1) t p = [\<lparr>addr = a, ctrl = c, nUuid = n, scope = sc\<rparr>] \<and>
    s2 = fold perform_act as s1 \<and> process_reachable s2 \<and> records Srv (disc s2) t p = records Srv (disc s1) t p \<and>
    Node_Request fails topic msg hu create serialize new True rep0 res0 nd s2 = Inr (nd, s3, e, True) \<and>
    e = filter (\<lambda>x. \<not> fails x)
      [RequestFrames [c, t, myRequesterAddress s2, responseReceiverId s2, nd_nUuid nd, hu, serialize msg]] \<and>
    srvConnections s1 = [] \<and> srvConnections s3 = [] \<and>
    (\<exists>r. GetHandler t (nd_nUuid nd) hu (requests s3) = Some r \<and> req_Requested (heap s3 ! r)) \<and>
    (\<forall>fails' now' stack'. \<exists>s4. with_discovery fails'
       (RecvDiscoveryUpdate now' stack' (Some (ip, dmsg_wire p (Advertised Srv t a c n sc)))) s3 = Inr (s4, []) \<and>
       srvConnections s4 = [] \<and> requests s4 = requests s3 \<and> heap s4 = heap s3)"
proof -
  let ?i = "\<lparr>addr = a, ctrl = c, nUuid = n, scope = sc\<rparr>"
  obtain s1 where run: "with_discovery fails
      (RecvDiscoveryUpdate now stack (Some (ip, dmsg_wire p (Advertised Srv t a c n sc)))) s = Inr (s1, [])"
    and st1: "starting s1 as" and s1: "p \<noteq> ns_pUuid s1" "srvConnections s1 = []"
    and rec: "\<And>q. records Srv (disc s1) t q = (if q = p then [?i] else [])"
    using early_reception [OF assms(1-6)] by blast
  define s2 where "s2 = fold perform_act as s1"
  have st2: "starting s2 []" unfolding s2_def by (rule starting_acts [OF st1])
  have s2: "process_reachable s2" "unused s2" using process_reachable.started st2 starting_unused by blast+
  note ok2 = process_reachable_ok [OF s2(1)]
  note acts = perform_acts [of as s1, folded s2_def]
  have rec2: "records Srv (disc s2) t q = (if q = p then [?i] else [])" for q
    using acts rec by (simp add: records_def)
  from unused_request [OF s2(2) topic only_provider [OF process_okD(1) [OF ok2] rec2],
      of fails msg hu create serialize new rep0 res0]
  obtain s3 e h where req: "Node_Request fails topic msg hu create serialize new True rep0 res0 nd s2 = Inr (nd, s3, e, True)"
    and e: "e = filter (\<lambda>x. \<not> fails x)
      [RequestFrames [c, t, myRequesterAddress s2, responseReceiverId s2, nd_nUuid nd, hu, serialize msg]]" and s3: "srvConnections s3 = srvConnections s2" "disc s3 = disc s2"
      "ns_pUuid s3 = ns_pUuid s2" "requests s3 = [(t, [(nd_nUuid nd, [(hu, 0)])])]" "heap s3 = [h]" "req_Requested h" by blast
  have none3: "srvConnections s3 = []" using s3(1) acts s1(2) by simp
  have "process_ok s3" by (rule process_ok_requesting(1) [OF ok2 req])
  moreover have "p \<noteq> ns_pUuid s3"
    using s3(3) acts s1(1) process_okD(2) [OF ok2] process_forD(2) [OF starting_ok [OF st1]] by simp
  moreover have "duplicate Srv (disc s3) t p a n" by (simp add: duplicate_def s3(2) rec2)
  ultimately have "\<exists>d. with_discovery fails' (RecvDiscoveryUpdate now' stack' (Some (ip, dmsg_wire p (Advertised Srv t a c n sc)))) s3 =
      Inr (s3\<lparr>disc := d\<rparr>, [])" for fails' now' stack' using tr by (intro heard_again)
  then have again: "\<exists>s4. with_discovery fails'
       (RecvDiscoveryUpdate now' stack' (Some (ip, dmsg_wire p (Advertised Srv t a c n sc)))) s3 = Inr (s4, []) \<and>
       srvConnections s4 = [] \<and> requests s4 = requests s3 \<and> heap s4 = heap s3" for fails' now' stack'
    using none3 by fastforce
  have "GetHandler t (nd_nUuid nd) hu (requests s3) = Some 0 \<and> req_Requested (heap s3 ! 0)"
    using s3(6) by (simp add: s3(4,5) GetHandler_def)
  moreover have "records Srv (disc s1) t p = [?i]" "records Srv (disc s2) t p = records Srv (disc s1) t p"
    by (simp_all add: rec rec2)
  ultimately show ?thesis using run s2(1) req e none3 again s1(2) s2_def by blast
qed

text \<open>The service of B, advertised to A while A has not registered anything.\<close>
lemma early_service_lost_witness:
  "\<exists>(s :: string node_shared) s2 s3 a i. starting s start_acts \<and> process_reachable s2 \<and>
     Node_Request (\<lambda>_. False) ''/t'' ''q'' ''h'' id id '''' True '''' False node0 s2 =
       Inr (node0, s3, [RequestFrames [''idB'', ''@@/t'', a, i, nd_nUuid node0, ''h'', ''q'']], True) \<and>
     srvConnections s3 = []"
proof -
  let ?s = "NodeShared_created ''A'' ''10.0.0.1'' ''pub'' ''ctl'' ''req'' ''rep'' ''idq'' ''idp'' :: string node_shared"
  have st: "starting ?s start_acts" by (rule starting.created)
  have tr: "transmittable ''B'' (Advertised Srv ''@@/t'' ''tcp:9'' ''idB'' ''m'' All)"
    by (simp add: transmittable_def size_simps)
  have "GetSrvAddresses ''@@/t'' (disc ?s) = None"
    by (simp add: NodeShared_created_def Discovery_ctor_def GetSrvAddresses_def GetAddresses_eq)
  moreover have "\<not> hidden ''10.0.0.2'' All (disc ?s)" by (simp add: hidden_def)
  moreover have "''B'' \<noteq> ns_pUuid ?s" by (simp add: NodeShared_created_def)
  ultimately obtain s2 s3 :: "string node_shared" and e where "process_reachable s2"
    "Node_Request (\<lambda>_. False) ''/t'' ''q'' ''h'' id id '''' True '''' False node0 s2 = Inr (node0, s3, e, True)"
    "e = filter (\<lambda>x. \<not> False) [RequestFrames [''idB'', ''@@/t'', myRequesterAddress s2, responseReceiverId s2,
      nd_nUuid node0, ''h'', id ''q'']]" "srvConnections s3 = []"
    using early_service_lost [OF st _ _ tr, of "''10.0.0.2''" node0 "''/t''" "\<lambda>_. False" 0 "[]" "''q''" "''h''" id id "''''" "''''" False]
      fqn_node0 by (auto simp: start_acts_def)
  then show ?thesis using st by simp blast
qed

end
