(* ===== verification/SystemSockets.thy ===== *)
theory SystemSockets
  imports SystemNodes
begin

text \<open>
  Connections before requests.  In a system, where the callbacks of a process are there from its start, every
  provider of a service that a process knows has had a socket connected to it, and so has every provider
  that a request goes to, before the request.
\<close>

subsection \<open>Requests in the order of a history\<close>

definition linked :: "string \<Rightarrow> 'm io list \<Rightarrow> bool" where
  "linked a h \<longleftrightarrow> ConnectReq a \<in> set h \<or> ConnectRep a \<in> set h"

lemma linked_simps [simp]:
  "linked a (h @ h') \<longleftrightarrow> linked a h \<or> linked a h'" "linked a [] = False" "linked a (ConnectReq a # h)"
  "linked a (ConnectRep a # h)"
  by (auto simp: linked_def)

text \<open>Each request among \<open>xs\<close>, made after \<open>past\<close>, goes to an advertised provider, of the process itself or linked.\<close>

fun wired_requests ::
    "(msg_kind \<times> string \<times> string \<times> address) set \<Rightarrow> string \<Rightarrow> 'm io list \<Rightarrow> 'm io list \<Rightarrow> bool" where
  "wired_requests J q past [] = True"
| "wired_requests J q past (x # xs) =
     ((\<forall>c l. x = RequestFrames (c # l) \<longrightarrow>
        (\<exists>t p i. (Srv, t, p, i) \<in> J \<and> ctrl i = c \<and> (p = q \<or> linked (addr i) past))) \<and>
      wired_requests J q (past @ [x]) xs)"

lemma wired_requests_append:
  "wired_requests J q past (xs @ ys) \<longleftrightarrow> wired_requests J q past xs \<and> wired_requests J q (past @ xs) ys"
  by (induction xs arbitrary: past) auto

lemma wired_requests_none: "\<forall>l. RequestFrames l \<notin> set xs \<Longrightarrow> wired_requests J q past xs"
  by (induction xs arbitrary: past) auto

lemma wired_requests_same:
  assumes "(Srv, t, p, i) \<in> J" and "p = q \<or> linked (addr i) past"
    and "\<And>x. x \<in> set xs \<Longrightarrow> \<exists>l. x = RequestFrames (ctrl i # l)"
  shows "wired_requests J q past xs"
  using assms(2,3)
proof (induction xs arbitrary: past)
  case (Cons x xs)
  obtain l where "x = RequestFrames (ctrl i # l)" using Cons.prems(2) by force
  then show ?case using Cons.IH [of "past @ [x]"] Cons.prems assms(1) by auto
qed simp

lemma wired_requests_mono: "wired_requests J q past xs \<Longrightarrow> J \<subseteq> J' \<Longrightarrow> wired_requests J' q past xs"
proof (induction xs arbitrary: past)
  case (Cons x xs)
  have "\<exists>t p i. (Srv, t, p, i) \<in> J' \<and> ctrl i = c \<and> (p = q \<or> linked (addr i) past)"
    if x: "x = RequestFrames (c # l)" for c l
  proof -
    obtain t p i where "(Srv, t, p, i) \<in> J" "ctrl i = c \<and> (p = q \<or> linked (addr i) past)"
      using Cons.prems(1) x by auto
    then show ?thesis using Cons.prems(2) by blast
  qed
  then show ?case using Cons.IH Cons.prems by simp
qed simp

lemma wired_requests_split:
  "wired_requests J q past (xs @ RequestFrames (c # l) # ys) \<Longrightarrow>
     \<exists>t p i. (Srv, t, p, i) \<in> J \<and> ctrl i = c \<and> (p = q \<or> linked (addr i) (past @ xs))"
  by (simp add: wired_requests_append)

subsection \<open>The sockets of one process\<close>

text \<open>All addresses in the list of connections are linked, and so are all providers that the discovery
  knows, but those of the process itself and those at \<open>a\<close>.\<close>

definition wired :: "(msg_kind \<times> string \<times> string \<times> address) set \<Rightarrow> string \<Rightarrow> string set \<Rightarrow> 'm io list \<Rightarrow> 'm node_shared \<Rightarrow> bool" where
  "wired J q A past s \<longleftrightarrow> discovery_ok (disc s) \<and> (\<forall>a \<in> set (srvConnections s). linked a past) \<and>
     (\<forall>t p. \<forall>i \<in> set (records Srv (disc s) t p).
        (Srv, t, p, i) \<in> J \<and> (p = q \<or> addr i \<in> A \<or> linked (addr i) past))"

lemma wiredD:
  assumes "wired J q A past s"
  shows "discovery_ok (disc s)" "a \<in> set (srvConnections s) \<Longrightarrow> linked a past"
    "i \<in> set (records Srv (disc s) t p) \<Longrightarrow> (Srv, t, p, i) \<in> J \<and> (p = q \<or> addr i \<in> A \<or> linked (addr i) past)"
  using assms unfolding wired_def by blast+

lemma wired_more: "wired J q A past s \<Longrightarrow> J \<subseteq> J' \<Longrightarrow> A \<subseteq> A' \<Longrightarrow> wired J' q A' (past @ e) s"
  unfolding wired_def by (auto, blast+)

lemma wired_frame:
  "wired J q A past s \<Longrightarrow> disc s' = disc s \<Longrightarrow> set (srvConnections s') \<subseteq> set (srvConnections s) \<Longrightarrow> wired J q A past s'"
  unfolding wired_def by auto

lemma send_pending_requests:
  "x \<in> set (snd (send_pending fails t i rs s)) \<Longrightarrow> \<exists>l. x = RequestFrames (i # l)"
proof (induction rs arbitrary: s)
  case (Cons r rs)
  let ?s = "s\<lparr>heap := (heap s)[r := SetRequested True (heap s ! r)]\<rparr>"
  show ?case
    using Cons.prems Cons.IH [of s] Cons.IH [of ?s]
    by (cases "req_Requested (heap s ! r)"; cases "fails (request_frames t i ?s (heap ?s ! r))")
      (auto simp: Let_def case_prod_unfold request_frames_def)
qed simp

lemma wired_SendPending:
  assumes "wired J q {} past s" and "SendPendingRemoteReqs fails t s = Inr (s', e)"
  shows "wired_requests J q past e \<and> wired J q {} (past @ e) s'"
proof (cases "GetSrvAddresses t (disc s)")
  case None
  then show ?thesis using assms by (simp add: SendPendingRemoteReqs_def)
next
  case (Some m)
  then obtain r j js rest where m: "m = (r, j # js) # rest" using first_provider [OF wiredD(1) [OF assms(1)]] by blast
  have st: "storage_ok (infoSrv (disc s))" using discovery_okD(1) [OF wiredD(1) [OF assms(1)], of Srv] by simp
  have "map_of (infoSrv (disc s)) t = Some m" using Some by (simp add: GetSrvAddresses_def GetAddresses_eq)
  then have "j \<in> set (records Srv (disc s) t r)" by (simp add: records_def vec_def m)
  from wiredD(3) [OF assms(1) this] have j: "(Srv, t, r, j) \<in> J" "r = q \<or> linked (addr j) past" by auto
  have "(s', e) = (s, []) \<or> (\<exists>rs. send_pending fails t (ctrl j) rs s = (s', e))"
    using assms(2) by (auto simp: SendPendingRemoteReqs_def Some m split: option.splits)
  then show ?thesis
  proof
    assume "(s', e) = (s, [])"
    then show ?thesis using assms(1) by simp
  next
    assume "\<exists>rs. send_pending fails t (ctrl j) rs s = (s', e)"
    then obtain rs where run: "send_pending fails t (ctrl j) rs s = (s', e)" by blast
    obtain h where "s' = s\<lparr>heap := h\<rparr>" using send_pending_fields [of fails t "ctrl j" rs s] run by auto
    then have "wired J q {} past s'" using wired_frame [OF assms(1)] by simp
    moreover have "wired_requests J q past e"
      using send_pending_requests [of _ fails t "ctrl j" rs s] run by (intro wired_requests_same [OF j]) auto
    ultimately show ?thesis using wired_more [of J q "{}" past s' J "{}" e] by simp
  qed
qed

lemma wired_OnNewSrvConnection:
  assumes "wired J q {a} past s" and "OnNewSrvConnection fails t a s = Inr (s', e)"
  shows "wired_requests J q past e \<and> wired J q {} (past @ e) s'"
proof (cases "a \<in> set (srvConnections s)")
  case True
  then have "wired J q {} past s"
    using wiredD [OF assms(1)] unfolding wired_def by (metis singletonD)
  then show ?thesis
    using assms(2) True wired_SendPending [of J q past s fails t s' e] by (auto simp: OnNewSrvConnection_def rbind_eq_Inr_iff)
next
  case False
  let ?s = "s\<lparr>srvConnections := srvConnections s @ [a]\<rparr>"
  obtain e1 where e: "e = ConnectReq a # e1" and run: "SendPendingRemoteReqs fails t ?s = Inr (s', e1)"
    using assms(2) False by (auto simp: OnNewSrvConnection_def Let_def rbind_eq_Inr_iff split: if_splits)
  have "(Srv, t', p, i) \<in> J \<and> (p = q \<or> linked (addr i) (past @ [ConnectReq a]))"
    if "i \<in> set (records Srv (disc s) t' p)" for t' p i
    using wiredD(3) [OF assms(1) that] by auto
  then have "wired J q {} (past @ [ConnectReq a]) ?s"
    using wiredD(1,2) [OF assms(1)] unfolding wired_def by simp
  from wired_SendPending [OF this run] show ?thesis by (simp add: e)
qed

lemma wired_handle_event:
  assumes "wired J q A past s" and "handle_event fails x s = Inr (s', e)"
    and "A = {} \<or> (\<exists>t a c p n sc. x = Call ConnectionSrvCb t a c p n sc \<and> A = {a})"
  shows "wired_requests J q past e \<and> wired J q {} (past @ e) s'"
proof (cases "\<exists>t a c p n sc. x = Call ConnectionSrvCb t a c p n sc")
  case True
  then obtain t a c p n sc where x: "x = Call ConnectionSrvCb t a c p n sc" by blast
  have "wired J q {a} past s" using wired_more [OF assms(1) subset_refl, of "{a}" "[]"] assms(3) x by auto
  then show ?thesis using wired_OnNewSrvConnection assms(2) by (simp add: x)
next
  case False
  then have A: "A = {}" using assms(3) by blast
  have new: "disc (fst (OnNewConnection fails t a c p n sc s)) = disc s \<and>
      srvConnections (fst (OnNewConnection fails t a c p n sc s)) = srvConnections s \<and>
      (\<forall>l. RequestFrames l \<notin> set (snd (OnNewConnection fails t a c p n sc s)))" for t a c p n sc
    by (auto simp: OnNewConnection_def Let_def dest!: set_takeWhileD)
  have gone: "disc s' = disc s \<and> srvConnections s' = srvConnections s \<and> (\<forall>l. RequestFrames l \<notin> set e)"
    if "OnNewDisconnection fails t p n s = Inr (s', e)" for t p n
    using that by (auto simp: OnNewDisconnection_def Let_def split: if_splits option.splits)
  have "disc s' = disc s \<and> set (srvConnections s') \<subseteq> set (srvConnections s) \<and> (\<forall>l. RequestFrames l \<notin> set e)"
  proof (cases x)
    case (Call cb t a c p n sc)
    then show ?thesis
      using assms(2) False new [of t a c p n sc] gone [of t p n] by (cases cb) (auto simp: OnNewSrvDisconnection_def)
  qed (use assms(2) in auto)
  then show ?thesis
    using wired_frame [OF assms(1), of s'] wired_more [of J q A past s' J "{}" e] A by (auto intro: wired_requests_none)
qed

lemma wired_handle_events:
  "wired J q {} past s \<Longrightarrow> handle_events fails ev s = Inr (s', e) \<Longrightarrow>
     wired_requests J q past e \<and> wired J q {} (past @ e) s'"
proof (induction ev arbitrary: s past e)
  case Nil
  then show ?case by simp
next
  case (Cons x ev)
  from Cons.prems(2) obtain s1 e1 e2 where 1: "handle_event fails x s = Inr (s1, e1)"
    and 2: "handle_events fails ev s1 = Inr (s', e2)" and e: "e = e1 @ e2" by (auto simp: rbind_eq_Inr_iff)
  note first = wired_handle_event [OF Cons.prems(1) 1]
  show ?case using first Cons.IH [of "past @ e1" s1 e2] 2 by (auto simp: e wired_requests_append)
qed

text \<open>A step of the discovery: a provider that is new comes with the call of the callback.\<close>

definition announced :: "string \<Rightarrow> discovery \<Rightarrow> discovery \<Rightarrow> event list \<Rightarrow> bool" where
  "announced q d d' ev \<longleftrightarrow>
     (\<forall>t p. \<forall>i \<in> set (records Srv d' t p). p = q \<or> i \<in> set (records Srv d t p) \<or>
        (\<exists>t' c n sc ev'. ev = Call ConnectionSrvCb t' (addr i) c p n sc # ev'))"

lemma wired_with_discovery:
  assumes w: "wired J q {} past s" and run: "with_discovery fails f s = Inr (s', e)"
    and f: "\<And>d ev. f (disc s) = Inr (d, ev) \<Longrightarrow> discovery_ok d \<and> announced q (disc s) d ev"
    and J: "\<And>t p i. i \<in> set (records Srv (disc s') t p) \<Longrightarrow> (Srv, t, p, i) \<in> J"
  shows "wired_requests J q past e \<and> wired J q {} (past @ e) s'"
proof -
  obtain d ev where d: "f (disc s) = Inr (d, ev)" and h: "handle_events fails ev (s\<lparr>disc := d\<rparr>) = Inr (s', e)"
    using run by (auto simp: with_discovery_def rbind_eq_Inr_iff)
  have ds: "disc s' = d" using handle_events_disc [OF h] by simp
  note ann = f [OF d]
  define A where "A = {a. \<exists>t' c p n sc ev'. ev = Call ConnectionSrvCb t' a c p n sc # ev'}"
  have "(Srv, t, p, i) \<in> J \<and> (p = q \<or> addr i \<in> A \<or> linked (addr i) past)" if i: "i \<in> set (records Srv d t p)" for t p i
  proof -
    have "p = q \<or> i \<in> set (records Srv (disc s) t p) \<or> addr i \<in> A"
      using ann i unfolding announced_def A_def by blast
    moreover have "p = q \<or> linked (addr i) past" if "i \<in> set (records Srv (disc s) t p)" using wiredD(3) [OF w that] by simp
    moreover have "(Srv, t, p, i) \<in> J" using J i by (simp add: ds)
    ultimately show ?thesis by blast
  qed
  then have start: "wired J q A past (s\<lparr>disc := d\<rparr>)" using ann wiredD(2) [OF w] unfolding wired_def by simp
  show ?thesis
  proof (cases ev)
    case Nil
    then have "A = {}" by (simp add: A_def)
    then show ?thesis using start h Nil by auto
  next
    case (Cons x ev')
    from h Cons obtain s1 e1 e2 where 1: "handle_event fails x (s\<lparr>disc := d\<rparr>) = Inr (s1, e1)"
      and 2: "handle_events fails ev' s1 = Inr (s', e2)" and e: "e = e1 @ e2" by (auto simp: rbind_eq_Inr_iff)
    have "A = {} \<or> (\<exists>t a c p n sc. x = Call ConnectionSrvCb t a c p n sc \<and> A = {a})"
      by (auto simp: A_def Cons)
    from wired_handle_event [OF start 1 this] wired_handle_events [OF _ 2, of J q "past @ e1"]
    show ?thesis by (auto simp: e wired_requests_append)
  qed
qed

subsection \<open>Every step\<close>

lemma announced_same: "(\<And>t p. set (records Srv d' t p) \<subseteq> set (records Srv d t p)) \<Longrightarrow> announced q d d' ev"
  unfolding announced_def by blast

lemma announced_advertise:
  assumes d: "discovery_ok d" and cb: "has_callback ConnectionSrvCb d"
    and run: "on_advertise k ip r t a c n sc d = (d', ev)"
  shows "announced q d d' ev"
proof (cases "hidden ip sc d \<or> duplicate k d t r a n")
  case True
  have "records Srv d' t' q' = records Srv d t' q'" for t' q'
    using True run records_add [OF d, of Srv k t a c r n sc t' q']
    by (cases "hidden ip sc d") (auto simp: on_advertise_def case_prod_unfold Let_def split: if_splits)
  then show ?thesis by (intro announced_same) simp
next
  case False
  have "fst (AddAddress t a c r n sc (info k d))"
    using False d by (simp add: ts.add_flag discovery_okD duplicate_def records_def)
  then have d': "d' = set_info k (snd (AddAddress t a c r n sc (info k d))) d" and ev: "ev = notify (conn_cb k) d t a c r n sc"
    using run False by (auto simp: on_advertise_def case_prod_unfold Let_def)
  have "p = q \<or> i \<in> set (records Srv d t' p) \<or> (\<exists>t' c n sc ev'. ev = Call ConnectionSrvCb t' (addr i) c p n sc # ev')"
    if i: "i \<in> set (records Srv d' t' p)" for t' p i
  proof -
    have "i \<in> set (records Srv d t' p) \<or> k = Srv \<and> addr i = a \<and> p = r"
      using i unfolding d' records_add [OF d] by (auto split: if_splits)
    then show ?thesis using cb by (auto simp: ev notify_def)
  qed
  then show ?thesis unfolding announced_def by blast
qed

lemma announced_frame: "announced q d d' ev \<Longrightarrow> (\<And>t p. records Srv d t p = records Srv d0 t p) \<Longrightarrow> announced q d0 d' ev"
  by (simp add: announced_def)

lemma announced_Recv:
  assumes ok: "discovery_ok d" and cb: "has_callback ConnectionSrvCb d"
    and run: "RecvDiscoveryUpdate now stack r d = Inr (d', ev)"
  shows "announced q d d' ev"
  using run
proof (cases rule: Recv_cases)
  case ignored
  then show ?thesis by (simp add: announced_same)
next
  case (dispatched h ip b)
  let ?p = "Header_GetPUuid h" let ?d = "d\<lparr>activity := map_put ?p now (activity d)\<rparr>"
  have d: "discovery_ok ?d" using ok dispatched(2) by (rule discovery_ok_activity)
  have "announced q ?d d' ev"
    using dispatched(3)
  proof (cases rule: dispatch_body_types)
    case (advertised k t a c n sc)
    then show ?thesis using announced_advertise [OF d] cb by simp
  next
    case (requested k t)
    then show ?thesis by (simp add: announced_same)
  next
    case bye
    then have "d' = forget ?p ?d" by (simp add: on_bye_forget)
    then show ?thesis by (intro announced_same) (simp only: records_forget [OF d], simp)
  next
    case (unadvertised k t a c n sc)
    then have "d' = ?d \<or> d' = set_info k (snd (DelAddressByNode t ?p n (info k ?d))) ?d"
      by (auto simp: on_unadvertise_def split: if_splits)
    then show ?thesis
    proof
      assume "d' = set_info k (snd (DelAddressByNode t ?p n (info k ?d))) ?d"
      then show ?thesis by (intro announced_same) (simp only: records_del_node [OF d], simp)
    qed (simp add: announced_same)
  next
    case nothing
    then show ?thesis by (simp add: announced_same)
  qed
  then show ?thesis by (rule announced_frame) simp
qed

lemma announced_task:
  assumes "discovery_ok d" and "has_callback ConnectionSrvCb d" and "discovery_step to_ms op d = Inr (d', ev)"
    and "op = DoReceive now stack r \<or> op = DoSweep now \<or> op = DoHeartbeat"
  shows "announced q d d' ev"
  using assms(4)
proof (elim disjE)
  assume "op = DoReceive now stack r"
  then show ?thesis using announced_Recv assms by simp
next
  assume "op = DoSweep now"
  then have "d' = fold forget (map fst (filter (expired to_ms now d) (activity d))) d"
    using assms(3) by (simp add: sweep_cases)
  then show ?thesis by (intro announced_same) (simp only: records_fold_forget [OF assms(1)], simp)
qed (use assms(3) in \<open>auto simp: rbind_eq_Inr_iff intro: announced_same\<close>)

lemma announced_client:
  assumes "discovery_ok d"
  shows "Advertise k t a c n sc d = Inr (d', ev) \<Longrightarrow> announced (pUuid d) d d' ev"
    and "Unadvertise k t n d = Inr (d', ev) \<Longrightarrow> announced q d d' ev"
    and "rbind (Discover t b d) (\<lambda>e. Inr (d, e)) = Inr (d', ev) \<Longrightarrow> announced q d d' ev"
proof -
  show "announced (pUuid d) d d' ev" if "Advertise k t a c n sc d = Inr (d', ev)"
    using Advertise_state [OF that] records_add [OF assms, of Srv k t a c "pUuid d" n sc]
    by (auto simp: announced_def split: if_splits)
  show "announced q d d' ev" if "Unadvertise k t n d = Inr (d', ev)"
    by (intro announced_same) (auto simp: Unadvertise_removes [OF assms that])
  show "announced q d d' ev" if "rbind (Discover t b d) (\<lambda>e. Inr (d, e)) = Inr (d', ev)"
    using that by (intro announced_same) (auto simp: rbind_eq_Inr_iff)
qed

lemma wired_node_step:
  assumes w: "wired J q {} past s" and q: "pUuid (disc s) = q" and run: "node_step fails op nd s = Inr (nd', s', e)"
    and J: "\<And>t p i. i \<in> set (records Srv (disc s') t p) \<Longrightarrow> (Srv, t, p, i) \<in> J"
  shows "wired_requests J q past e \<and> wired J q {} (past @ e) s'"
proof (cases "fqn nd (op_topic op)")
  case None
  then show ?thesis using node_step_invalid [OF run] w by simp
next
  case (Some t)
  note ok = wiredD(1) [OF w]
  have discovery: "wired_requests J q past e \<and> wired J q {} (past @ e) s'"
    if "with_discovery fails f s0 = Inr (s', e)" and "disc s0 = disc s" "srvConnections s0 = srvConnections s"
      and "\<And>d ev. f (disc s) = Inr (d, ev) \<Longrightarrow> discovery_ok d \<and> announced q (disc s) d ev" for f s0
    by (rule wired_with_discovery [OF wired_frame [OF w that(2)] that(1)]) (use that(2-4) J in auto)
  have adv: "discovery_ok d \<and> announced q (disc s) d ev" if "Advertise k t a c n sc (disc s) = Inr (d, ev)" for k t a c n sc d ev
    using discovery_ok_Advertise [OF ok that] announced_client(1) [OF ok that] q by simp
  have unadv: "discovery_ok d \<and> announced q (disc s) d ev" if "Unadvertise k t n (disc s) = Inr (d, ev)" for k t n d ev
    using discovery_ok_Unadvertise [OF ok that] announced_client(2) [OF ok that] by simp
  have ask: "discovery_ok d \<and> announced q (disc s) d ev"
    if "rbind (Discover t b (disc s)) (\<lambda>e. Inr (disc s, e)) = Inr (d, ev)" for t b d ev
    using that ok announced_client(3) [OF ok that] by (auto simp: rbind_eq_Inr_iff)
  have filing: "wired_requests J q past e \<and> wired J q {} (past @ e) s'" if "file_request fails t h nd s = Inr (s', e)" for h
  proof (cases "GetSrvAddresses t (disc s)")
    case None
    then show ?thesis
      using that by (simp add: file_request_def Let_def) (erule discovery; simp add: ask)
  next
    case (Some v)
    let ?s = "s\<lparr>heap := heap s @ [h],
      requests := AddHandler (\<lambda>r. rq_hUuid ((heap s @ [h]) ! r)) t (nd_nUuid nd) (length (heap s)) (requests s)\<rparr>"
    have "wired J q {} past ?s" by (rule wired_frame [OF w]) simp_all
    then show ?thesis using that Some wired_SendPending by (simp add: file_request_def Let_def)
  qed
  have still: "wired_requests J q past e \<and> wired J q {} (past @ e) s'"
    if "disc s' = disc s" "srvConnections s' = srvConnections s" "\<forall>l. RequestFrames l \<notin> set e"
    using wired_requests_none [OF that(3)] wired_more [OF wired_frame [OF w that(1)] subset_refl subset_refl, of e] that(2) by simp
  show ?thesis
  proof (cases op)
    case (OpAdvertise topic sc)
    then have "with_discovery fails (Advertise Msg t (myAddress s) (myControlAddress s) (nd_nUuid nd) sc) s = Inr (s', e)"
      using run Some by (auto simp: without_result_Inr Node_Advertise_def Let_def rbind_eq_Inr_iff)
    then show ?thesis by (rule discovery [OF _ refl refl adv])
  next
    case (OpUnadvertise topic)
    then have "with_discovery fails (Unadvertise Msg t (nd_nUuid nd)) s = Inr (s', e)"
      using run Some by (auto simp: without_result_Inr Node_Unadvertise_def Let_def rbind_eq_Inr_iff)
    then show ?thesis by (rule discovery [OF _ refl refl unadv])
  next
    case (OpSubscribe topic hu create cb)
    then obtain s0 where call: "with_discovery fails (\<lambda>d. rbind (Discover t False d) (\<lambda>e. Inr (d, e))) s0 = Inr (s', e)"
      and "disc s0 = disc s" "srvConnections s0 = srvConnections s"
      using run Some by (auto simp: without_result_Inr Node_Subscribe_def Let_def rbind_eq_Inr_iff)
    then show ?thesis by (intro discovery [OF call _ _ ask])
  next
    case (OpUnsubscribe topic)
    then show ?thesis using run Some
      by (intro still) (auto simp: without_result_Inr Node_Unsubscribe_def Let_def split: if_splits option.splits)
  next
    case (OpPublish topic msg serialize)
    then show ?thesis using run Some
      by (intro still) (auto simp: Node_Publish_def Publish_def Let_def split: if_splits)
  next
    case (OpAdvertiseSrv topic hu create new serialize cb sc)
    then obtain s0 where call: "with_discovery fails (Advertise Srv t (myReplierAddress s) (replierId s) (nd_nUuid nd) sc) s0 = Inr (s', e)"
      and "disc s0 = disc s" "srvConnections s0 = srvConnections s"
      using run Some by (auto simp: without_result_Inr Node_AdvertiseSrv_def Let_def rbind_eq_Inr_iff)
    then show ?thesis by (intro discovery [OF call _ _ adv])
  next
    case (OpUnadvertiseSrv topic)
    then obtain s0 where call: "with_discovery fails (Unadvertise Msg t (nd_nUuid nd)) s0 = Inr (s', e)"
      and "disc s0 = disc s" "srvConnections s0 = srvConnections s"
      using run Some by (auto simp: without_result_Inr Node_UnadvertiseSrv_def Let_def rbind_eq_Inr_iff)
    then show ?thesis by (intro discovery [OF call _ _ unadv])
  next
    case (OpRequest topic msg hu create serialize new cb rep0 result0)
    then consider n r b where "e = [UserCall (LocalReply n r b)]" "s' = s" | h where "file_request fails t h nd s = Inr (s', e)"
      using run Some by (auto simp: without_result_Inr Node_Request_def Let_def rbind_eq_Inr_iff case_prod_unfold split: option.splits)
    then show ?thesis
    proof cases
      case 1
      then show ?thesis by (intro still) auto
    qed (rule filing)
  next
    case (OpRequestWait topic msg hu create serialize new rep0 result0)
    then consider "e = []" "s' = s" | h where "file_request fails t h nd s = Inr (s', e)"
      using run Some by (auto simp: Node_Request_start_def Let_def rbind_eq_Inr_iff case_prod_unfold split: option.splits)
    then show ?thesis
    proof cases
      case 1
      then show ?thesis by (intro still) auto
    qed (rule filing)
  qed
qed

subsection \<open>The system\<close>

definition sockets_inv :: "'m system \<Rightarrow> bool" where
  "sockets_inv S \<longleftrightarrow> (\<forall>q m. members S q = Some m \<longrightarrow> wired (adverts (journal S)) q {} (hist S q) (shared m)) \<and>
     (\<forall>q. wired_requests (adverts (journal S)) q [] (hist S q))"

lemma sockets_invD:
  assumes "sockets_inv S"
  shows "members S q = Some m \<Longrightarrow> wired (adverts (journal S)) q {} (hist S q) (shared m)"
    and "wired_requests (adverts (journal S)) q [] (hist S q)"
  using assms unfolding sockets_inv_def by blast+

lemma sockets_inv_step:
  assumes inv: "sockets_inv S" and S': "members S' = (members S)(q := mo)" "hist S' = (hist S)(q := hist S q @ e)"
    and J: "adverts (journal S) \<subseteq> adverts (journal S')"
    and step: "wired_requests (adverts (journal S')) q (hist S q) e"
      "\<And>m. mo = Some m \<Longrightarrow> wired (adverts (journal S')) q {} (hist S q @ e) (shared m)"
  shows "sockets_inv S'"
proof -
  have "wired (adverts (journal S')) p {} (hist S' p) (shared m)" if "members S' p = Some m" for p m
  proof (cases "p = q")
    case True
    then show ?thesis using that S' step(2) by simp
  next
    case False
    then have "members S p = Some m" using that S'(1) by simp
    from wired_more [OF sockets_invD(1) [OF inv this] J subset_refl, of "[]"] show ?thesis using False S'(2) by simp
  qed
  moreover have "wired_requests (adverts (journal S')) p [] (hist S' p)" for p
    using wired_requests_mono [OF sockets_invD(2) [OF inv, of p] J] step(1)
    by (cases "p = q") (simp_all add: S'(2) wired_requests_append)
  ultimately show ?thesis unfolding sockets_inv_def by blast
qed

lemma wired_quiet:
  assumes "wired J q {} past s" and "disc s' = disc s" and "srvConnections s' = srvConnections s"
    and "\<forall>l. RequestFrames l \<notin> set e"
  shows "wired_requests J q past e \<and> wired J q {} (past @ e) s'"
  using wired_requests_none [OF assms(4)] wired_more [OF wired_frame [OF assms(1,2)] subset_refl subset_refl, of e] assms(3)
  by simp

lemma sockets_inv_preserved:
  assumes step: "sys_step host to_ms deliverable S S'" and reach: "sys_reachable host to_ms deliverable S" and inv: "sockets_inv S"
  shows "sockets_inv S'"
proof -
  have reach': "sys_reachable host to_ms deliverable S'" using reach step by (rule reachable_step)
  note J = member_net(5) [OF reach', where k = Srv]
  have member: "process_ok (shared m)" "pUuid (disc (shared m)) = q" if "members S q = Some m" for q m
    using member_invD(2) [OF sys_invD(1) [OF sys_inv_reachable [OF reach] that]] member_net(2) [OF reach that] by blast+
  have own: "wired (adverts (journal S)) q {} (hist S q) (shared m)" if "members S q = Some m" for q m
    using sockets_invD(1) [OF inv that] .
  have shared: "sockets_inv S'"
    if "S' = evolve q (Some m') e S" and "wired_requests (adverts (journal S)) q (hist S q) e \<and>
      wired (adverts (journal S)) q {} (hist S q @ e) (shared m')" for q m' e
    using that by (intro sockets_inv_step [OF inv, of S' q "Some m'" e]) (auto simp: that(1) evolve_def)
  show ?thesis
    using step
  proof cases
    case (start p a_pub a_ctrl a_req a_rep id_resp id_rep)
    let ?s = "NodeShared_ctor p (host p) a_pub a_ctrl a_req a_rep id_resp id_rep"
    have "wired (adverts (journal S)) p {} (hist S p @ []) ?s"
      using process_okD(1) [OF process_reachable_ok [OF process_reachable_start]]
      by (simp add: wired_def NodeShared_ctor_def records_def vec_def SetConnectionsCb_def SetDisconnectionsCb_def
          SetConnectionsSrvCb_def SetDisconnectionsSrvCb_def Discovery_ctor_def)
    then show ?thesis by (intro shared [OF start(1)]) simp
  next
    case (new_node p m u nd env u0 part ns)
    then show ?thesis using own by (intro shared [OF new_node(1)]) simp
  next
    case (node p m u nd op fails nd' s' e)
    let ?J = "adverts (enter p op nd (shared m) (journal S))"
    have sub: "adverts (journal S) \<subseteq> ?J" by (simp add: adverts_enter)
    have w: "wired ?J p {} (hist S p) (shared m)" using wired_more [OF own [OF node(2)] sub subset_refl, of "[]"] by simp
    have mem: "members S' p = Some \<lparr>shared = s', nodes = (nodes m)(u \<mapsto> nd')\<rparr>" and jr: "journal S' = enter p op nd (shared m) (journal S)"
      by (simp_all add: node(1))
    have "wired_requests ?J p (hist S p) e \<and> wired ?J p {} (hist S p @ e) s'"
      by (rule wired_node_step [OF w member(2) [OF node(2)] node(5)]) (use J [OF mem] jr in simp)
    then show ?thesis
      using sub by (intro sockets_inv_step [OF inv, of S' p "Some \<lparr>shared = s', nodes = (nodes m)(u \<mapsto> nd')\<rparr>" e])
        (auto simp: node(1) log_op_def evolve_def)
  next
    case (end_node p m u nd)
    then show ?thesis using own by (intro shared [OF end_node(1)]) simp
  next
    case (task p m op now fails s' e)
    note m = process_okD [OF member(1) [OF task(2)]]
    have op: "op = DoReceive now [] None \<or> op = DoSweep now \<or> op = DoHeartbeat" using task(3) by blast
    show ?thesis
      by (intro shared [OF task(1)], simp, rule wired_with_discovery [OF own [OF task(2)] task(4)])
        (use discovery_ok_step [OF m(1)] announced_task [OF m(1,3) _ op] J [of p "m\<lparr>shared := s'\<rparr>"] in \<open>auto simp: task(1)\<close>)
  next
    case (datagram q m b p fails now stack s' e)
    note m = process_okD [OF member(1) [OF datagram(2)]]
    show ?thesis
      by (intro shared [OF datagram(1)], simp, rule wired_with_discovery [OF own [OF datagram(2)] datagram(4)])
        (use discovery_ok_Recv [OF m(1)] announced_Recv [OF m(1,3)] J [of q "m\<lparr>shared := s'\<rparr>"] in \<open>auto simp: datagram(1)\<close>)
  next
    case (msg q m t a data p)
    have "\<forall>l. RequestFrames l \<notin> set (RecvMsgUpdate (Some (t, a, data)) (shared m))"
      by (auto simp: RecvMsgUpdate_def)
    from wired_quiet [OF own [OF msg(2)] refl refl this] show ?thesis by (intro shared [OF msg(1)])
  next
    case (control q m t u n data p s')
    have "disc s' = disc (shared m)" "srvConnections s' = srvConnections (shared m)"
      using control(4) by (auto simp: RecvControlUpdate_def Let_def rbind_eq_Inr_iff split: option.splits if_splits)
    from wired_quiet [OF own [OF control(2)] this, of "[]"] show ?thesis by (intro shared [OF control(1)]) simp
  next
    case (request q m t sender dst n u req p fails result0 s' e)
    have s': "disc s' = disc (shared m)" "\<forall>l. RequestFrames l \<notin> set e"
        "(\<forall>a \<in> set (srvConnections s'). a \<in> set (srvConnections (shared m)) \<or> ConnectRep a \<in> set e)"
      using request(4) by (auto simp: RecvSrvRequest_def Let_def rbind_eq_Inr_iff case_prod_unfold split: option.splits if_splits)
    have "wired (adverts (journal S)) q {} (hist S q @ e) (shared m)"
      by (rule wired_more [OF own [OF request(2)] subset_refl subset_refl])
    then have "wired (adverts (journal S)) q {} (hist S q @ e) s'"
      using s'(1,3) unfolding wired_def linked_def by auto
    then show ?thesis using wired_requests_none [OF s'(2)] by (intro shared [OF request(1)]) simp
  next
    case (response q m t n u rep flag p s' e)
    have "disc s' = disc (shared m)" "srvConnections s' = srvConnections (shared m)" "\<forall>l. RequestFrames l \<notin> set e"
      using response(4) by (auto simp: RecvSrvResponse_def Let_def case_prod_unfold split: option.splits if_splits)
    from wired_quiet [OF own [OF response(2)] this] show ?thesis by (intro shared [OF response(1)]) simp
  next
    case (exit p m d e)
    have "\<forall>l. RequestFrames l \<notin> set (concat (map send_io e))"
    proof (induction e)
      case (Cons x e)
      then show ?case by (cases x) simp_all
    qed simp
    then show ?thesis
      by (intro sockets_inv_step [OF inv, of S' p None "concat (map send_io e)"] wired_requests_none) (simp_all add: exit(1) evolve_def)
  qed
qed

lemma sockets_inv_reachable:
  assumes "sys_reachable host to_ms deliverable S"
  shows "sockets_inv S"
  using assms unfolding sys_reachable_def
proof (induction rule: rtranclp_induct)
  case base
  show ?case by (simp add: sockets_inv_def system0_def)
next
  case (step S S')
  then show ?case using sockets_inv_preserved [OF step(2)] by (simp add: sys_reachable_def)
qed

text \<open>C19 Requests go over connected sockets.  In every reachable state of the system, where the callbacks
  of a process are registered before it hears of anybody, a socket has been connected to every provider of
  a service that a process has on record, other than itself; and each request that it has ever sent carries
  the identity of a provider that had been advertised, and that is the process itself or had been connected
  to before the request.\<close>
theorem requests_over_connections:
  assumes "sys_reachable host to_ms deliverable S"
  shows "(\<forall>m t p. \<forall>i \<in> set (records Srv (disc (shared m)) t p). members S q = Some m \<longrightarrow> p \<noteq> q \<longrightarrow>
      ConnectReq (addr i) \<in> set (hist S q) \<or> ConnectRep (addr i) \<in> set (hist S q)) \<and>
    (\<forall>xs c l ys. hist S q = xs @ RequestFrames (c # l) # ys \<longrightarrow>
      (\<exists>t p i. (Srv, t, p, i) \<in> adverts (journal S) \<and> ctrl i = c \<and>
        (p = q \<or> ConnectReq (addr i) \<in> set xs \<or> ConnectRep (addr i) \<in> set xs)))"
proof -
  note inv = sockets_inv_reachable [OF assms]
  have "ConnectReq (addr i) \<in> set (hist S q) \<or> ConnectRep (addr i) \<in> set (hist S q)"
    if "i \<in> set (records Srv (disc (shared m)) t p)" "members S q = Some m" "p \<noteq> q" for m t p i
    using wiredD(3) [OF sockets_invD(1) [OF inv that(2)] that(1)] that(3) by (simp add: linked_def)
  moreover have "\<exists>t p i. (Srv, t, p, i) \<in> adverts (journal S) \<and> ctrl i = c \<and>
      (p = q \<or> ConnectReq (addr i) \<in> set xs \<or> ConnectRep (addr i) \<in> set xs)"
    if "hist S q = xs @ RequestFrames (c # l) # ys" for xs c l ys
    using wired_requests_split [OF sockets_invD(2) [OF inv, of q, unfolded that]] by (simp add: linked_def)
  ultimately show ?thesis by blast
qed

lemma requests_over_connections_witness:
  "\<exists>S xs c l ys. sys_reachable one_host (\<lambda>x. x) zmq S \<and> hist S ''A'' = xs @ RequestFrames (c # l) # ys \<and>
     (\<exists>t p i. (Srv, t, p, i) \<in> adverts (journal S) \<and> ctrl i = c \<and>
        (p = ''A'' \<or> ConnectReq (addr i) \<in> set xs \<or> ConnectRep (addr i) \<in> set xs))"
proof -
  obtain S c l where S: "sys_reachable one_host (\<lambda>x. x) zmq S" and "RequestFrames (c # l) \<in> set (hist S ''A'')"
    using sample_answer by blast
  then obtain xs ys where h: "hist S ''A'' = xs @ RequestFrames (c # l) # ys" using split_list by metis
  then show ?thesis
    using S requests_over_connections [OF S, of "''A''", THEN conjunct2, rule_format, OF h] by blast
qed

end
