(* ===== verification/Disconnection.thy ===== *)
theory Disconnection
  imports SystemSockets EarlyStart
begin

text \<open>
  What comes of a publisher that withdraws a topic, at a subscriber that has another record of the same
  address: the socket is disconnected and is not connected again as long as the other record stays.
\<close>

subsection \<open>Callbacks for connections and for disconnections never come together\<close>

definition one_sided :: "event list \<Rightarrow> bool" where
  "one_sided ev \<longleftrightarrow> (\<forall>t a c p n sc. Call ConnectionCb t a c p n sc \<notin> set ev) \<or>
     (\<forall>t a c p n sc. Call DisconnectionCb t a c p n sc \<notin> set ev)"

lemma one_sided_simps [simp]: "one_sided []" "one_sided (map Send bs)" "one_sided (notify cb d t a c p n sc)"
  by (auto simp: one_sided_def dest: notify_calls)

lemma one_sided_Recv:
  assumes "RecvDiscoveryUpdate now stack r d = Inr (d', ev)"
  shows "one_sided ev"
  using assms
proof (cases rule: Recv_cases)
  case (dispatched h ip b)
  show ?thesis
    using dispatched(3)
  proof (cases rule: dispatch_body_types)
    case (advertised k t a c n sc)
    then show ?thesis by (auto simp: on_advertise_def case_prod_unfold Let_def split: if_splits)
  next
    case (requested k t)
    then show ?thesis by (simp add: one_sided_def on_subscribe_no_call)
  next
    case bye
    then show ?thesis by (auto simp: on_bye_def Let_def one_sided_def dest!: notify_calls)
  next
    case (unadvertised k t a c n sc)
    then show ?thesis by (auto simp: on_unadvertise_def split: if_splits)
  qed simp
qed simp

lemma one_sided_task:
  assumes "op = DoReceive now stack r \<or> op = DoSweep now \<or> op = DoHeartbeat"
    and "discovery_step to_ms op d = Inr (d', ev)"
  shows "one_sided ev"
  using assms(1)
proof (elim disjE)
  assume "op = DoReceive now stack r"
  then show ?thesis using assms(2) one_sided_Recv by simp
next
  assume "op = DoSweep now"
  then show ?thesis using assms(2) by (auto simp: activity_sweep_def one_sided_def dest: sweep_loop_calls)
qed (use assms(2) in \<open>auto simp: rbind_eq_Inr_iff heartbeat_no_call one_sided_def\<close>)

lemma one_sided_client:
  "Advertise k t a c n sc d = Inr (d', ev) \<Longrightarrow> one_sided ev"
  "Unadvertise k t n d = Inr (d', ev) \<Longrightarrow> one_sided ev"
  "rbind (Discover t b d) (\<lambda>e. Inr (d, e)) = Inr (d', ev) \<Longrightarrow> one_sided ev"
proof -
  show "one_sided ev" if "Advertise k t a c n sc d = Inr (d', ev)"
    using that by (auto simp: Advertise_def Let_def rbind_eq_Inr_iff case_prod_unfold dest!: SendMsg_only_sends split: if_splits)
  show "one_sided ev" if "Unadvertise k t n d = Inr (d', ev)"
    using Unadvertise_only_sends [OF that] by auto
  show "one_sided ev" if "rbind (Discover t b d) (\<lambda>e. Inr (d, e)) = Inr (d', ev)"
    using that by (auto simp: Discover_def Let_def rbind_eq_Inr_iff one_sided_def dest!: SendMsg_only_sends notify_calls
        split: if_splits option.splits)
qed

subsection \<open>An address that is on record is not connected to\<close>

lemma connected_once:
  assumes "storage_ok (connections s)" and "HasAddress b (connections s)"
  shows "ConnectSub b \<notin> set (snd (OnNewConnection fails t a c p n sc s)) \<and>
    HasAddress b (connections (fst (OnNewConnection fails t a c p n sc s))) \<and>
    storage_ok (connections (fst (OnNewConnection fails t a c p n sc s)))"
proof -
  have "HasAddress b (snd (AddAddress t a c p n sc (connections s)))"
    using assms by (auto simp: HasAddress_iff ts.ok_add ts.recs_add) (metis Un_iff set_append)
  then show ?thesis using assms by (auto simp: OnNewConnection_def Let_def ts.ok_add dest!: set_takeWhileD)
qed

lemma no_connect_pending:
  assumes "SendPendingRemoteReqs fails t s = Inr (s', e)"
  shows "ConnectSub b \<notin> set e \<and> connections s' = connections s"
proof -
  have "connections (fst (send_pending fails t i rs s)) = connections s" for i rs
    using send_pending_fields [of fails t i rs s] by auto
  moreover have "ConnectSub b \<notin> set (snd (send_pending fails t i rs s))" for i rs
    using send_pending_requests [of "ConnectSub b" fails t i rs s] by blast
  ultimately have "ConnectSub b \<notin> set e \<and> connections s' = connections s" if "send_pending fails t i rs s = (s', e)" for i rs
    using that by (metis fst_conv snd_conv)
  then show ?thesis using assms by (auto simp: SendPendingRemoteReqs_def split: option.splits list.splits)
qed

lemma no_connect_event:
  assumes "handle_event fails x s = Inr (s', e)" and "\<forall>t a c p n sc. x \<noteq> Call ConnectionCb t a c p n sc"
  shows "ConnectSub b \<notin> set e"
    and "(\<forall>t a c p n sc. x \<noteq> Call DisconnectionCb t a c p n sc) \<Longrightarrow> connections s' = connections s"
proof -
  have srv: "ConnectSub b \<notin> set e \<and> connections s' = connections s" if "OnNewSrvConnection fails t a s = Inr (s', e)" for t a
    using that no_connect_pending by (fastforce simp: OnNewSrvConnection_def Let_def rbind_eq_Inr_iff split: if_splits)
  show "ConnectSub b \<notin> set e"
    using assms srv by (cases "(fails, x, s)" rule: handle_event.cases)
      (auto simp: OnNewDisconnection_def Let_def split: if_splits option.splits)
  show "connections s' = connections s" if "\<forall>t a c p n sc. x \<noteq> Call DisconnectionCb t a c p n sc"
    using assms that srv by (cases "(fails, x, s)" rule: handle_event.cases) (auto simp: OnNewSrvDisconnection_def)
qed

lemma no_connect_quiet:
  assumes "handle_events fails ev s = Inr (s', e)" and "\<And>t a c p n sc. Call ConnectionCb t a c p n sc \<notin> set ev"
  shows "ConnectSub b \<notin> set e"
  using assms
proof (induction ev arbitrary: s e)
  case (Cons x ev)
  from Cons.prems(1) obtain s1 e1 e2 where 1: "handle_event fails x s = Inr (s1, e1)"
    and 2: "handle_events fails ev s1 = Inr (s', e2)" and e: "e = e1 @ e2" by (auto simp: rbind_eq_Inr_iff)
  have "x \<noteq> Call ConnectionCb t a c p n sc" for t a c p n sc
    using Cons.prems(2) [of t a c p n sc] by auto
  then have "ConnectSub b \<notin> set e1" using no_connect_event(1) [OF 1] by blast
  moreover have "ConnectSub b \<notin> set e2"
    by (rule Cons.IH [OF 2]) (use Cons.prems(2) in \<open>simp del: not_Cons_self\<close>)
  ultimately show ?case by (simp add: e)
qed simp

lemma no_connect_connecting:
  assumes "handle_events fails ev s = Inr (s', e)" and "storage_ok (connections s)" and "HasAddress b (connections s)"
    and "\<And>t a c p n sc. Call DisconnectionCb t a c p n sc \<notin> set ev"
  shows "ConnectSub b \<notin> set e"
  using assms
proof (induction ev arbitrary: s e)
  case (Cons x ev)
  from Cons.prems(1) obtain s1 e1 e2 where 1: "handle_event fails x s = Inr (s1, e1)"
    and 2: "handle_events fails ev s1 = Inr (s', e2)" and e: "e = e1 @ e2" by (auto simp: rbind_eq_Inr_iff)
  have stay: "x \<noteq> Call DisconnectionCb t a c p n sc" for t a c p n sc
    using Cons.prems(4) [of t a c p n sc] by auto
  have first: "ConnectSub b \<notin> set e1 \<and> HasAddress b (connections s1) \<and> storage_ok (connections s1)"
  proof (cases "\<exists>t a c p n sc. x = Call ConnectionCb t a c p n sc")
    case True
    then obtain t a c p n sc where "x = Call ConnectionCb t a c p n sc" by blast
    then have "s1 = fst (OnNewConnection fails t a c p n sc s)" "e1 = snd (OnNewConnection fails t a c p n sc s)"
      using 1 by simp_all
    then show ?thesis using connected_once [OF Cons.prems(2,3)] by blast
  next
    case False
    then have other: "\<forall>t a c p n sc. x \<noteq> Call ConnectionCb t a c p n sc" by blast
    have "connections s1 = connections s" by (rule no_connect_event(2) [OF 1 other]) (simp add: stay)
    then show ?thesis using no_connect_event(1) [OF 1 other] Cons.prems(2,3) by simp
  qed
  have "ConnectSub b \<notin> set e2"
    by (rule Cons.IH [OF 2]) (use first Cons.prems(4) in simp_all)
  then show ?case using first by (simp add: e)
qed simp

lemma no_connect_events:
  assumes "handle_events fails ev s = Inr (s', e)" and "storage_ok (connections s)" and "HasAddress b (connections s)" and "one_sided ev"
  shows "ConnectSub b \<notin> set e"
  using assms(4) no_connect_quiet [OF assms(1)] no_connect_connecting [OF assms(1-3)] unfolding one_sided_def by metis

lemma no_connect_sock: "ConnectSub b \<notin> set e \<Longrightarrow> \<not> sock_connected b e"
proof (induction e rule: rev_induct)
  case (snoc x e)
  then show ?case using sock_connected_append [of b e "[x]"] by (auto simp: sock_single)
qed (simp add: sock_single)

lemma no_connect_discovery:
  assumes "with_discovery fails f s = Inr (s', e)" and "storage_ok (connections s)" and "HasAddress b (connections s)"
    and "\<And>d ev. f (disc s) = Inr (d, ev) \<Longrightarrow> one_sided ev"
  shows "ConnectSub b \<notin> set e"
proof -
  from assms(1) obtain d ev where d: "f (disc s) = Inr (d, ev)"
    and h: "handle_events fails ev (s\<lparr>disc := d\<rparr>) = Inr (s', e)" by (auto simp: with_discovery_def rbind_eq_Inr_iff)
  show ?thesis by (rule no_connect_events [OF h _ _ assms(4) [OF d]]) (simp_all add: assms(2,3))
qed

subsection \<open>Every step of a process\<close>

text \<open>A round of a task of the discovery, a round of the reception, or an operation of any node; and a run of
  such steps, after each of which \<open>K\<close> holds, with what the process asks of its sockets meanwhile.\<close>

inductive process_step :: "'m node_shared \<Rightarrow> 'm io list \<Rightarrow> 'm node_shared \<Rightarrow> bool" where
  discovery: "op = DoReceive now stack r \<or> op = DoSweep now \<or> op = DoHeartbeat \<Longrightarrow>
    with_discovery fails (discovery_step to_ms op) s = Inr (s', e) \<Longrightarrow> process_step s e s'"
| reception: "reception_round fails result0 msg control req rep s = Inr (s', e) \<Longrightarrow> process_step s e s'"
| node: "node_step fails op nd s = Inr (nd', s', e) \<Longrightarrow> process_step s e s'"

inductive process_run ::
    "('m node_shared \<Rightarrow> bool) \<Rightarrow> 'm node_shared \<Rightarrow> 'm io list \<Rightarrow> 'm node_shared \<Rightarrow> bool"
  for K :: "'m node_shared \<Rightarrow> bool" and s :: "'m node_shared" where
  start: "process_run K s [] s"
| step: "process_run K s l s1 \<Longrightarrow> process_step s1 e s2 \<Longrightarrow> K s2 \<Longrightarrow> process_run K s (l @ e) s2"

lemma process_step_reachable: "process_step s e s' \<Longrightarrow> process_reachable s \<Longrightarrow> process_reachable s'"
  by (induction rule: process_step.induct)
    (blast intro: process_reachable.discovery process_reachable.reception node_step_reachable)+

lemma no_connect_node_step:
  assumes run: "node_step fails op nd s = Inr (nd', s', e)" and "storage_ok (connections s)" and "HasAddress b (connections s)"
  shows "ConnectSub b \<notin> set e"
proof (cases "fqn nd (op_topic op)")
  case None
  then show ?thesis using node_step_invalid [OF run] by simp
next
  case (Some t)
  have discovery: "ConnectSub b \<notin> set e"
    if "with_discovery fails f s0 = Inr (s', e)" and "connections s0 = connections s"
      and "\<And>d ev. f (disc s0) = Inr (d, ev) \<Longrightarrow> one_sided ev" for f s0
    by (rule no_connect_discovery [OF that(1) _ _ that(3)]) (simp_all add: that(2) assms(2,3))
  have filing: "ConnectSub b \<notin> set e" if "file_request fails t h nd s = Inr (s', e)" for h
  proof (cases "GetSrvAddresses t (disc s)")
    case None
    then show ?thesis
      using that by (simp add: file_request_def Let_def) (erule discovery; simp add: one_sided_client(3))
  next
    case (Some v)
    then show ?thesis using that
      by (simp add: file_request_def Let_def) (rule conjunct1 [OF no_connect_pending])
  qed
  show ?thesis
  proof (cases op)
    case (OpAdvertise topic sc)
    then have "with_discovery fails (Advertise Msg t (myAddress s) (myControlAddress s) (nd_nUuid nd) sc) s = Inr (s', e)"
      using run Some by (auto simp: without_result_Inr Node_Advertise_def Let_def rbind_eq_Inr_iff)
    then show ?thesis by (rule discovery) (simp_all add: one_sided_client)
  next
    case (OpUnadvertise topic)
    then have "with_discovery fails (Unadvertise Msg t (nd_nUuid nd)) s = Inr (s', e)"
      using run Some by (auto simp: without_result_Inr Node_Unadvertise_def Let_def rbind_eq_Inr_iff)
    then show ?thesis by (rule discovery) (simp_all add: one_sided_client)
  next
    case (OpSubscribe topic hu create cb)
    then obtain s0 where call: "with_discovery fails (\<lambda>d. rbind (Discover t False d) (\<lambda>e. Inr (d, e))) s0 = Inr (s', e)"
      and "connections s0 = connections s"
      using run Some by (auto simp: without_result_Inr Node_Subscribe_def Let_def rbind_eq_Inr_iff)
    then show ?thesis by (rule discovery) (rule one_sided_client(3))
  next
    case (OpUnsubscribe topic)
    then show ?thesis using run Some
      by (auto simp: without_result_Inr Node_Unsubscribe_def Let_def split: if_splits option.splits)
  next
    case (OpPublish topic msg serialize)
    then show ?thesis using run Some
      by (auto simp: Node_Publish_def Publish_def Let_def split: if_splits)
  next
    case (OpAdvertiseSrv topic hu create new serialize cb sc)
    then obtain s0 where call: "with_discovery fails (Advertise Srv t (myReplierAddress s) (replierId s) (nd_nUuid nd) sc) s0 = Inr (s', e)"
      and "connections s0 = connections s"
      using run Some by (auto simp: without_result_Inr Node_AdvertiseSrv_def Let_def rbind_eq_Inr_iff)
    then show ?thesis by (rule discovery) (rule one_sided_client(1))
  next
    case (OpUnadvertiseSrv topic)
    then obtain s0 where call: "with_discovery fails (Unadvertise Msg t (nd_nUuid nd)) s0 = Inr (s', e)"
      and "connections s0 = connections s"
      using run Some by (auto simp: without_result_Inr Node_UnadvertiseSrv_def Let_def rbind_eq_Inr_iff)
    then show ?thesis by (rule discovery) (rule one_sided_client(2))
  next
    case (OpRequest topic msg hu create serialize new cb rep0 result0)
    then show ?thesis
      using run Some filing by (auto simp: without_result_Inr Node_Request_def Let_def rbind_eq_Inr_iff case_prod_unfold split: option.splits)
  next
    case (OpRequestWait topic msg hu create serialize new rep0 result0)
    then show ?thesis
      using run Some filing by (auto simp: Node_Request_start_def Let_def rbind_eq_Inr_iff case_prod_unfold split: option.splits)
  qed
qed

lemma no_connect_reception:
  fixes s :: "'a node_shared"
  assumes "reception_round fails result0 msg control req rep s = Inr (s', e)"
  shows "ConnectSub b \<notin> set e"
proof -
  have "ConnectSub b \<notin> set (RecvMsgUpdate msg s)" by (auto simp: RecvMsgUpdate_def split: option.split)
  moreover have "ConnectSub b \<notin> set e2" if "RecvSrvRequest fails result0 req s1 = Inr (s2, e2)" for s1 s2 e2
    using that by (auto simp: RecvSrvRequest_def Let_def rbind_eq_Inr_iff case_prod_unfold split: option.splits if_splits)
  moreover have "ConnectSub b \<notin> set (snd (RecvSrvResponse rep s2))" for s2 :: "'a node_shared"
    by (auto simp: RecvSrvResponse_def Let_def case_prod_unfold split: option.splits)
  ultimately show ?thesis
    using assms by (auto simp: reception_round_def rbind_eq_Inr_iff Let_def case_prod_unfold)
qed

lemma no_connect_step:
  assumes "process_step s e s'" and "process_reachable s" and "HasAddress b (connections s)"
  shows "ConnectSub b \<notin> set e"
proof -
  have st: "storage_ok (connections s)"
    using process_okD(4) [OF process_reachable_ok [OF assms(2)]] by (simp add: connections_ok_def)
  show ?thesis
    using assms(1)
  proof cases
    case (discovery op now stack r fails to_ms)
    show ?thesis by (rule no_connect_discovery [OF discovery(2) st assms(3) one_sided_task [OF discovery(1)]])
  next
    case (reception fails result0 msg control req rep)
    then show ?thesis by (rule no_connect_reception)
  next
    case (node fails op nd nd')
    then show ?thesis using st assms(3) by (rule no_connect_node_step)
  qed
qed

text \<open>As long as some record of an address stays, its socket stays as it is, or gets disconnected.\<close>

lemma stays_unconnected:
  assumes "process_run K s e s'" and "process_reachable s" and "K s" and "\<And>s. K s \<Longrightarrow> process_reachable s \<Longrightarrow> HasAddress b (connections s)"
    and "\<not> sock_connected b l"
  shows "\<not> sock_connected b (l @ e) \<and> process_reachable s' \<and> K s'"
  using assms(1)
proof induction
  case start
  then show ?case using assms(2,3,5) by simp
next
  case (step l' s1 e s2)
  have "ConnectSub b \<notin> set e"
    using step.IH by (intro no_connect_step [OF step.hyps(2)] assms(4)) simp_all
  then have "\<not> sock_connected b e" by (rule no_connect_sock)
  then show ?case
    using step.IH step.hyps(3) process_step_reachable [OF step.hyps(2)] sock_connected_append [of b "l @ l'" e] by simp
qed

subsection \<open>One of two records is withdrawn\<close>

text \<open>A process with a subscription learns of a publisher and connects to it.\<close>

lemma process_learns:
  assumes s: "process_reachable s" and "p \<noteq> ns_pUuid s" and "HasHandlersForTopic t (localSubscriptions s)"
    and tr: "transmittable p (own_dmsg Msg t i)" and "\<not> hidden ip (scope i) (disc s)"
    and "\<not> known Msg (disc s) t p i"
  shows "\<exists>s'. process_reachable s' \<and> localSubscriptions s' = localSubscriptions s \<and> ns_pUuid s' = ns_pUuid s \<and>
    connections s' = snd (AddAddress t (addr i) (ctrl i) p (nUuid i) (scope i) (connections s)) \<and>
    hostAddr (disc s') = hostAddr (disc s) \<and> records Msg (disc s') t p = records Msg (disc s) t p @ [i]"
proof -
  let ?d = "disc s" let ?x = "Call ConnectionCb t (addr i) (ctrl i) p (nUuid i) (scope i)"
  note ok = process_reachable_ok [OF s]
  have d: "discovery_ok ?d" "p \<noteq> pUuid ?d" using process_okD(1,2) [OF ok] assms(2) by simp_all
  obtain d' where "deliver 0 ip p (own_dmsg Msg t i) ?d = Inr (d', notify ConnectionCb ?d t (addr i) (ctrl i) p (nUuid i) (scope i))"
    and rec: "records Msg d' t p = records Msg ?d t p @ [i]"
    using deliver_advertised [OF d, of 0 ip Msg t "addr i" "ctrl i" "nUuid i" "scope i"] assms(5,6)
    by (auto simp: own_dmsg_def)
  then have recv: "RecvDiscoveryUpdate 0 [] (Some (ip, dmsg_wire p (own_dmsg Msg t i))) ?d = Inr (d', [?x])"
    using process_okD(3) [OF ok, of ConnectionCb] by (simp add: receive_deliver [OF tr] notify_def)
  then have frame: "hostAddr d' = hostAddr ?d"
    using Dispatch_frame by (auto simp: RecvDiscoveryUpdate_def Let_def)
  let ?s = "s\<lparr>disc := d'\<rparr>"
  let ?r = "OnNewConnection (\<lambda>_. False) t (addr i) (ctrl i) p (nUuid i) (scope i) ?s"
  have run: "with_discovery (\<lambda>_. False) (discovery_step (\<lambda>x. x)
      (DoReceive 0 [] (Some (ip, dmsg_wire p (own_dmsg Msg t i))))) s = Inr (fst ?r, snd ?r)"
    by (simp add: with_discovery_def recv)
  have r: "fst ?r = ?s\<lparr>connections := snd (AddAddress t (addr i) (ctrl i) p (nUuid i) (scope i) (connections s))\<rparr>"
    using assms(2,3) by (simp add: OnNewConnection_works)
  have "process_reachable (fst ?r)" using process_reachable.discovery [OF s _ run] by blast
  then show ?thesis
    using frame rec by (intro exI [of _ "fst ?r"]) (simp add: r)
qed

text \<open>C21 Unadvertising one record cuts off the others.  Let a process have two records of the same address among
  its connections, which it has when two topics of a publisher, or two of its nodes with the same topic, are
  advertised, and let it receive the datagram that withdraws one of them.  It disconnects the socket from the address,
  and keeps the other record.  From there on, whatever it hears of, whatever its nodes do, and in whatever order, its
  socket is not connected to the address as long as the other record stays: it never connects to that address
  again before that publisher withdraws the other record too or is forgotten.\<close>
theorem unadvertising_cuts_others:
  fixes s :: "'m node_shared"
  assumes "process_reachable s" and "GetAddress t p n (connections s) = Some c" and "t \<noteq> ''''" "n \<noteq> ''''"
    and "j \<in> set (vec (connections s) t' p')" and "addr j = addr c" and "t' \<noteq> t \<or> p' \<noteq> p \<or> nUuid j \<noteq> n"
    and tr: "transmittable p (Unadvertised Msg t a ca n sc)" and "p \<noteq> ns_pUuid s" and "\<not> hidden ip sc (disc s)"
    and works: "\<not> fails (DisconnectSub (addr c))"
  shows "\<exists>s'. with_discovery fails
      (RecvDiscoveryUpdate now stack (Some (ip, dmsg_wire p (Unadvertised Msg t a ca n sc)))) s =
        Inr (s', [DisconnectSub (addr c)]) \<and> j \<in> set (vec (connections s') t' p') \<and>
    (\<forall>past later s''. process_run (\<lambda>s. j \<in> set (vec (connections s) t' p')) s' later s'' \<longrightarrow>
      \<not> sock_connected (addr c) (past @ [DisconnectSub (addr c)] @ later))"
proof -
  let ?r = "RecvDiscoveryUpdate now stack (Some (ip, dmsg_wire p (Unadvertised Msg t a ca n sc)))"
  note inv = process_reachable_ok [OF assms(1)]
  have ok: "storage_ok (connections s)" using process_okD(4) [OF inv] by (simp add: connections_ok_def)
  have d: "discovery_ok (disc s)" "p \<noteq> pUuid (disc s)" using process_okD(1,2) [OF inv] assms(9) by simp_all
  obtain d' where "deliver now ip p (Unadvertised Msg t a ca n sc) (disc s) = Inr (d', [Call DisconnectionCb t a ca p n sc])"
    using deliver_unadvertised [OF d, of now ip Msg t a ca n sc] assms(10) process_okD(3) [OF inv, of DisconnectionCb]
    by (auto simp: notify_def)
  then have recv: "?r (disc s) = Inr (d', [Call DisconnectionCb t a ca p n sc])" by (simp add: receive_deliver [OF tr])
  let ?s = "s\<lparr>disc := d', remoteSubscribers := snd (DelAddressByNode t p n (remoteSubscribers s)),
    connections := snd (DelAddressByNode t p n (connections s))\<rparr>"
  have run: "with_discovery fails ?r s = Inr (?s, [DisconnectSub (addr c)])"
    using assms(2-4) works by (simp add: with_discovery_def recv OnNewDisconnection_def Let_def)
  have "with_discovery fails (discovery_step (\<lambda>x. x)
      (DoReceive now stack (Some (ip, dmsg_wire p (Unadvertised Msg t a ca n sc))))) s = Inr (?s, [DisconnectSub (addr c)])"
    using run by (simp add: with_discovery_def)
  then have reach: "process_reachable ?s" by (rule process_reachable.discovery [OF assms(1) disjI1 [OF refl]])
  have j: "j \<in> set (vec (connections ?s) t' p')" using assms(5,7) by (auto simp: ts.recs_del_node ok)
  have kept: "HasAddress (addr c) (connections s'')"
    if "j \<in> set (vec (connections s'') t' p')" "process_reachable s''" for s'' :: "'m node_shared"
  proof -
    have "storage_ok (connections s'')" using process_okD(4) [OF process_reachable_ok [OF that(2)]] by (simp add: connections_ok_def)
    then show ?thesis using that(1) assms(6) by (auto simp: HasAddress_iff)
  qed
  have "\<not> sock_connected (addr c) (past @ [DisconnectSub (addr c)] @ later)"
    if "process_run (\<lambda>s. j \<in> set (vec (connections s) t' p')) ?s later s''" for past later s''
  proof -
    have "\<not> sock_connected (addr c) (past @ [DisconnectSub (addr c)])" by (simp add: sock_connected_append sock_single)
    from stays_unconnected [OF that reach j kept this] show ?thesis by simp
  qed
  then show ?thesis using run j by (intro exI [of _ ?s] conjI allI impI)
qed

text \<open>Two nodes of B advertise the topic, and one of them withdraws.\<close>
lemma unadvertising_cuts_others_witness:
  "\<exists>(s :: string node_shared) (s' :: string node_shared). process_reachable s \<and>
     with_discovery (\<lambda>_. False) (RecvDiscoveryUpdate 0 [] (Some (''10.0.0.1'',
       dmsg_wire ''B'' (Unadvertised Msg ''@@/t'' ''tcp:2'' ''c2'' ''n1'' All)))) s = Inr (s', [DisconnectSub ''tcp:2'']) \<and>
     \<not> sock_connected ''tcp:2'' ([ConnectSub ''tcp:2'', DisconnectSub ''tcp:2''] :: string io list)"
proof -
  let ?i = "\<lparr>addr = ''tcp:2'', ctrl = ''c2'', nUuid = ''n1'', scope = All\<rparr>"
  let ?j = "\<lparr>addr = ''tcp:2'', ctrl = ''c2'', nUuid = ''n2'', scope = All\<rparr>"
  have has: "HasHandlersForTopic ''@@/t'' (localSubscriptions proc_sub)" "ns_pUuid proc_sub = ''A''"
    "connections proc_sub = []" "infoMsg (disc proc_sub) = []"
    by (simp_all add: proc_sub_def proc0_def NodeShared_ctor_def HasHandlersForTopic_def Discovery_ctor_def
        SetConnectionsCb_def SetDisconnectionsCb_def SetConnectionsSrvCb_def SetDisconnectionsSrvCb_def)
  have tr: "transmittable ''B'' (own_dmsg Msg ''@@/t'' ?i)" "transmittable ''B'' (own_dmsg Msg ''@@/t'' ?j)"
    by (simp_all add: transmittable_def size_simps own_dmsg_def)
  have recs: "records Msg (disc proc_sub) t p = []" for t p by (simp add: records_def vec_def has)
  obtain s1 where s1: "process_reachable s1" "localSubscriptions s1 = localSubscriptions proc_sub" "ns_pUuid s1 = ''A''"
    "connections s1 = snd (AddAddress ''@@/t'' ''tcp:2'' ''c2'' ''B'' ''n1'' All [])"
    "records Msg (disc s1) ''@@/t'' ''B'' = [?i]"
    using process_learns [OF proc_sub_reachable _ has(1) tr(1), of "''10.0.0.1''"]
    by (auto simp: has recs hidden_def duplicate_def)
  obtain s :: "string node_shared" where s: "process_reachable s"
    "connections s = snd (AddAddress ''@@/t'' ''tcp:2'' ''c2'' ''B'' ''n2'' All (connections s1))" "ns_pUuid s = ''A''"
    using process_learns [OF s1(1) _ _ tr(2), of "''10.0.0.1''"] has(1)
    by (auto simp: s1(2,3,5) hidden_def duplicate_def)
  have conns: "GetAddress ''@@/t'' ''B'' ''n1'' (connections s) = Some ?i" "?j \<in> set (vec (connections s) ''@@/t'' ''B'')"
    by (simp_all add: s(2) s1(4) AddAddress_def vec_def GetAddress_eq)
  have out: "transmittable ''B'' (Unadvertised Msg ''@@/t'' ''tcp:2'' ''c2'' ''n1'' All)"
    by (simp add: transmittable_def size_simps)
  have "''B'' \<noteq> ns_pUuid s" "\<not> hidden ''10.0.0.1'' All (disc s)" by (simp_all add: s(3) hidden_def)
  from unadvertising_cuts_others [OF s(1) conns(1) _ _ conns(2) _ _ out this, of "\<lambda>_. False" 0 "[]"]
  obtain s' :: "string node_shared" where s': "with_discovery (\<lambda>_. False) (RecvDiscoveryUpdate 0 [] (Some (''10.0.0.1'',
       dmsg_wire ''B'' (Unadvertised Msg ''@@/t'' ''tcp:2'' ''c2'' ''n1'' All)))) s = Inr (s', [DisconnectSub ''tcp:2''])"
    and later: "\<And>past later s''. process_run (\<lambda>s. ?j \<in> set (vec (connections s) ''@@/t'' ''B'')) s' later s'' \<Longrightarrow>
      \<not> sock_connected ''tcp:2'' (past @ [DisconnectSub ''tcp:2''] @ later)" by auto
  show ?thesis using s(1) s' later [OF process_run.start, of "[ConnectSub ''tcp:2'']"] by auto
qed

end
