(* ===== verification/Spec2Isabelle.thy ===== *)
theory Spec2Isabelle
  imports Uuid NetUtils Commands Locking Lifecycle EarlyStart SystemSockets Disconnection
begin

text \<open>
  A verification library for ign-transport, the message passing library of the Ignition robotics
  tools.  A process has nodes; a node advertises topics and services, subscribes, publishes and
  requests.  Processes find each other by a discovery protocol over UDP multicast, and exchange
  messages over 0MQ sockets.

  \<^bold>\<open>The program and its theories\<close>

  \<^item> \<^verbatim>\<open>Prelude\<close>, \<^verbatim>\<open>StdMap\<close>: machine integers, the faults an operation can end in and their
    sequencing (\<open>res\<close>, \<open>rbind\<close>, \<open>rconcat\<close>), C++ strings as lists of bytes, \<^verbatim>\<open>std::map\<close> as the list
    of its entries in key order.
  \<^item> \<^verbatim>\<open>TopicUtils\<close> (\<^verbatim>\<open>src/TopicUtils.cc\<close>): validity of names and the fully qualified name
    \<^verbatim>\<open>@partition@/namespace/topic\<close>; \<open>strip_partition\<close> and \<open>topic_partition\<close> are the inverse idioms of
    \<^verbatim>\<open>Node.cc\<close> and \<^verbatim>\<open>SubscriptionHandler.hh\<close>.
  \<^item> \<^verbatim>\<open>TransportTypes\<close>, \<^verbatim>\<open>Packet\<close> (\<^verbatim>\<open>TransportTypes.hh\<close>, \<^verbatim>\<open>Packet.hh\<close>, \<^verbatim>\<open>src/Packet.cc\<close>): scopes,
    addresses, and the discovery messages with packing and unpacking at the widths of the code.
    Reading and writing outside a buffer is the fault \<open>OutOfBounds\<close>.
  \<^item> \<^verbatim>\<open>TopicStorage\<close> (\<^verbatim>\<open>src/TopicStorage.cc\<close>) and \<^verbatim>\<open>HandlerStorage\<close> (\<^verbatim>\<open>HandlerStorage.hh\<close>): the nested
    maps of addresses and of handlers.
  \<^item> \<^verbatim>\<open>Discovery\<close> (\<^verbatim>\<open>src/Discovery.cc\<close>, \<^verbatim>\<open>DiscoveryPrivate.hh\<close>): the state \<open>discovery\<close>, the requests
    of the client, \<open>SendMsg\<close>, the reception of a datagram (\<open>RecvDiscoveryUpdate\<close>,
    \<open>DispatchDiscoveryMsg\<close> and one definition per case of its \<^verbatim>\<open>switch\<close>) and the periodic tasks.
  \<^item> \<^verbatim>\<open>Uuid\<close>, \<^verbatim>\<open>NetUtils\<close> (\<^verbatim>\<open>src/Uuid.cc\<close>, \<^verbatim>\<open>src/NetUtils.cc\<close>): text of identifiers, choice of the
    address to announce, on the three kinds of platforms.
  \<^item> \<^verbatim>\<open>Handlers\<close> (\<^verbatim>\<open>SubscriptionHandler.hh\<close>, \<^verbatim>\<open>RepHandler.hh\<close>, \<^verbatim>\<open>ReqHandler.hh\<close>), \<^verbatim>\<open>NodeShared\<close>
    (\<^verbatim>\<open>src/NodeShared.cc\<close>) and \<^verbatim>\<open>Node\<close> (\<^verbatim>\<open>Node.hh\<close>, \<^verbatim>\<open>src/Node.cc\<close>): the callbacks, what the nodes of a
    process share (with the handlers of the sockets, the callbacks of the discovery and one round
    of the reception thread), and the operations of a node.
  \<^item> \<^verbatim>\<open>Commands\<close> (\<^verbatim>\<open>src/ign.cc\<close>, \<^verbatim>\<open>TopicStorage::Print\<close>, \<^verbatim>\<open>Discovery::PrintCurrentState\<close>): what is
    printed.

  \<^item> \<^verbatim>\<open>Locking\<close> (\<^verbatim>\<open>Discovery.cc\<close>, \<^verbatim>\<open>NodeShared.cc\<close>, \<^verbatim>\<open>Node.cc\<close>, \<^verbatim>\<open>Node.hh\<close>): the two recursive mutexes of a
    process.  An operation \<open>f\<close> of the code has here a definition \<open>f_locks\<close>, the sequence of its lock and
    unlock actions.

  \<^item> \<^verbatim>\<open>Lifecycle\<close> (constructors and destructors of \<^verbatim>\<open>src/Discovery.cc\<close> and \<^verbatim>\<open>src/NodeShared.cc\<close>,
    \<^verbatim>\<open>RunActivityTask\<close>, \<^verbatim>\<open>RunHeartbeatTask\<close> and the two \<^verbatim>\<open>RunReceptionTask\<close>): the calls that set up the
    sockets, in order (\<open>socket_calls\<close>, \<open>zmq_calls\<close>), what happens when one fails, and the loops of the
    four threads (\<open>task_loop\<close>) with their exit flags.
  \<^item> \<^verbatim>\<open>Startup\<close> (the constructor of \<^verbatim>\<open>src/NodeShared.cc\<close>): its steps (\<open>start_acts\<close>, \<open>perform_act\<close>) and the states
    in its course (\<open>starting\<close>), while the threads of the discovery and, later, of the reception already run.
  \<^item> \<^verbatim>\<open>System\<close>: any number of whole processes.  \<open>members\<close> are the running processes, each with its shared
    node and its nodes; \<open>hist\<close> is all that a process has asked of its sockets and all the calls of user
    callbacks; \<open>journal\<close> is what users have done.  A step (\<open>sys_step\<close>) starts a process, makes or
    ends a node, runs an operation of a node or a periodic task, ends a process, or hands one of the
    four sockets or the discovery something that some process has sent before.

  A call of the discovery to one of its callbacks is an event of \<^verbatim>\<open>Discovery\<close>; \<open>handle_event\<close> of
  \<^verbatim>\<open>NodeShared\<close> turns it into the call of the method of the shared node that was registered, so the
  composition of the two components is the one of the code.

  \<^bold>\<open>What is shown\<close>

  \<^item> Interfaces.  \<open>ordered_map\<close> is what the storages need of \<^verbatim>\<open>std::map\<close>, \<open>registry\<close> and
    \<open>handler_table\<close> are the contracts of the two storages: a table of records per topic and process,
    on which additions and removals act as on a specification.  \<open>codec\<close> is an encoding that can be
    read back, and \<open>codec_pair\<close> composes two of them, as a packet is composed of its fields.  All are
    interpreted on the definitions of the code.
  \<^item> \<^verbatim>\<open>DiscoveryProtocol\<close>: the protocol without bytes.  \<open>dmsg\<close> is a message, \<open>dmsg_wire\<close> its bytes,
    \<open>deliver\<close> what a receiver does with it; sending produces \<open>dmsg_wire\<close> and receiving
    \<open>dmsg_wire\<close> refines \<open>deliver\<close>.
  \<^item> \<^verbatim>\<open>DiscoveryInvariant\<close>, \<^verbatim>\<open>DiscoveryCorrect\<close>: the invariant \<open>discovery_ok\<close> over all runs, the effect of
    each message, expiry, heartbeats, and two processes that find each other.
  \<^item> \<^verbatim>\<open>Expiry\<close>: runs of a discovery against the clock.  Whoever is heard of within the silence interval before
    each round of the activity task is never given up, and whoever is not is forgotten for good.
  \<^item> \<^verbatim>\<open>Network\<close>: any number of processes that start, act, receive and end, over a medium that loses,
    repeats, delays and reorders datagrams.  In every reachable state what a process knows of
    another one is true and not private, no datagram makes a receiver fail, operations throw only
    in one case that is given exactly, a heartbeat brings a receiver up to date, and a process that
    ends is forgotten.
  \<^item> \<^verbatim>\<open>ProcessInvariant\<close>, \<^verbatim>\<open>NodeCorrect\<close>: the invariant \<open>process_ok\<close> of a process with its nodes, over
    all sequences of operations of nodes and threads; local and remote delivery of a publication;
    the way of a subscription to the publisher; a service call from the request to the callback
    with the response; requests are sent once; the destructor of a node.  The start counts: whatever
    arrives while a process starts, \<open>process_ok_for\<close> holds with the callbacks that are registered by then.

  \<^item> \<^verbatim>\<open>Locking\<close>: threads that take the mutexes in the order of the code finish under every schedule;
    the operations that break the order, and a schedule in which each blocks the process for ever.

  \<^item> \<^verbatim>\<open>SystemCorrect\<close>, \<^verbatim>\<open>SystemProps\<close>: what every operation leaves true of the system.  \<open>filed\<close>: what a
    process has on file about subscribers, handlers and requests is in the journal; \<open>io_ok\<close>: all it
    sends and all callbacks it runs, those of local responders included, are accounted for by the journal; \<open>at_home\<close>: what one knows
    of a running process are its own end points; and a map to \<^verbatim>\<open>Network\<close>, which the system refines.
  \<^item> \<^verbatim>\<open>SystemLiveness\<close>: the runs by which a process learns of another, connects, is filed as a
    subscriber and gets a message, or has a request served and gets the response, from any
    reachable state.
  \<^item> \<^verbatim>\<open>SystemTheorems\<close>: the properties of the system, and a small system of two processes in which
    they are seen at work.
  \<^item> \<^verbatim>\<open>SystemNodes\<close>: in every reachable state the topics that a process advertises, its subscriptions and its
    service handlers belong to nodes that exist and list them (\<open>owned\<close>); the destructor of a node, a single
    definition of \<^verbatim>\<open>Node\<close>, always returns and is a run of the system; what \<^verbatim>\<open>UnadvertiseSrv\<close> does instead
    of its task.
  \<^item> \<^verbatim>\<open>SystemSockets\<close>: along the history of a process each request comes after the connection to its provider
    (\<open>wired\<close>, \<open>wired_requests\<close>), as long as the callbacks are registered in time.
  \<^item> \<^verbatim>\<open>EarlyStart\<close>: what becomes of a service that a process hears of before it has registered its callbacks.
  \<^item> \<^verbatim>\<open>Disconnection\<close>: what becomes of the other records of an address when one is withdrawn, over all runs of
    steps of the process (\<open>process_step\<close>, \<open>process_run\<close>) that keep one of them.
  \<^item> \<^verbatim>\<open>Commands\<close>: how the names that are known read as strings (\<open>reads_as\<close>), and the lists of topics made of them.
  \<^item> \<^verbatim>\<open>Lifecycle\<close>: how a process starts, that its threads end once they are told to, and what a failed
    set-up of the discovery does at the end.

  Several theorems state what the code does where its comments or documentation promise something
  else: \<open>UnadvertiseSrv_keeps_address\<close>, \<open>unsubscription_misses_publisher\<close>, \<open>process_sweep\<close>,
  \<open>Recv_reads_stale_bytes\<close>, \<open>heartbeat_readvertises\<close>, \<open>DelAddressesByProc_flag\<close>, \<open>RemoveHandler_spec\<close>,
  \<open>unadvertising_cuts_others\<close>, \<open>failed_discovery_setup\<close>, \<open>early_service_lost\<close>, \<open>destructor_is_a_run\<close>.

  \<^bold>\<open>How the code is abstracted\<close>

  \<^item> Each operation holds the mutexes of what it works on, so it is one atomic step; the threads are
    steps that run one round of their loop.  Two things are coarser than the code: between two
    callbacks of one step of the discovery, which holds its own mutex all the time, the mutex of the
    shared node is free; and \<^verbatim>\<open>GetMsgAddresses\<close> and \<^verbatim>\<open>GetSrvAddresses\<close> read the storages without a
    mutex, which \<^verbatim>\<open>Node::Unsubscribe\<close> does while the threads of the discovery run.  In the loops of \<^verbatim>\<open>Lifecycle\<close>
    what the other threads do during a sleep or a wait is an argument of the round.  The wait of a blocking request separates the operation into its two halves.
  \<^item> Sending, connecting, filters and user callbacks are events in a list.  Which requests to 0MQ
    throw is the argument \<open>fails\<close>; a message of several frames is one event, so it fails as a whole.
    When an exception leaves an operation the result is the fault and no state.  A datagram that the socket of
    the discovery does not take, which the code reports on the standard error output, is one that the network loses.
  \<^item> A callback that the user gives to a request is a flag, whether there is one.  A request that a responder of
    the same process answers at once takes it that there is one, as the code does, which calls it unseen.
  \<^item> In a \<open>system\<close> the sockets may lose, repeat and reorder what is sent.  A socket for messages gives
    only what the argument \<open>deliverable\<close> allows after the connections, filters and disconnections its
    process has made; the safety theorems hold for any, the liveness ones assume
    that it allows at least what comes from a connected end point and passes the filter.  Requests,
    responses and control messages reach the process whose identity or end point they name.
  \<^item> In a \<open>system\<close> a process starts in one step.  That the threads of its discovery run before the callbacks are
    registered is part of \<open>process_reachable\<close>, the states of one process, and what it can lead to is shown in
    \<^verbatim>\<open>EarlyStart\<close>.  In the steps of \<open>starting\<close> the addresses of the sockets are there from the beginning; no thread
    reads them before there is a node.
  \<^item> A request is received by the process whose identity it names, whether or not the socket of the sender has
    been connected; that it has been, is what \<^verbatim>\<open>SystemSockets\<close> shows of the events.
  \<^item> The clock is an argument in nanoseconds.  The conversion to milliseconds goes through a double
    in the code; it is the argument \<open>to_ms\<close>, and where its value matters it is assumed to be off
    by at most one millisecond.
  \<^item> The bytes of integers are in little-endian order, the order of the supported hosts.
  \<^item> Generated UUIDs, the environment, host names and interfaces are arguments.  What protobuf
    generates for a message type is a function in the handler (parse, serialise, default value).
  \<^item> An \<^verbatim>\<open>unordered_set\<close> is a list without repetitions, in the order of its iteration.
  \<^item> Request handlers are shared objects, so they live in a heap and are referred to by index.

  Bounds: \<open>fits\<close> says that a message has less than \<open>2 ^ 31\<close> bytes, so that the \<^verbatim>\<open>int\<close> and
  \<^verbatim>\<open>size_t\<close> lengths of the code agree; \<open>transmittable\<close> that it fits into the receive buffer of 65536
  bytes as well.  Larger messages cannot be sent in one UDP datagram.  No definition uses fuel: every loop of the
  model goes down a list.

  \<^bold>\<open>Not modelled\<close>

  The output under the verbose flag, the Windows implementation of \<^verbatim>\<open>Uuid\<close> (two calls of the system), the
  special cases for Windows in the destructors and in \<^verbatim>\<open>ign.cc\<close>, the Ruby front end, the export macros, tests, examples
  and build files.  The values that the socket options are set to, other than identities and addresses, are not
  kept.  What is left of the header files is documentation and declarations.  The copy of a program's state after
  an exception that nobody catches is not defined: the process ends there.

  \<^bold>\<open>What could follow\<close>

  A service call whose first known provider is another process, or has gone; the two parts of the start as steps
  of the system; bounds on the time that a run
  of the whole system takes, of which \<^verbatim>\<open>Expiry\<close> has the part of one discovery.
\<close>

end
